(* ===== verification/Stager_Prelude.thy ===== *)
theory Stager_Prelude
  imports Main "HOL-Library.Sublist"
begin

text \<open>
  What every component of the development shares: Go's two ways for a call to end
  (it returns, or it panics), Go's error values and untyped values, the sequencing of
  calls that thread a state, and the invariant rule for step relations.
\<close>

section \<open>Collections of facts\<close>

named_theorems stager_simps \<open>unfolding rules of the small definitions of the model\<close>
named_theorems frame_simps \<open>what an operation leaves unchanged\<close>

section \<open>Calls that return or panic\<close>

text \<open>
  The run-time panics the source can raise: an index outside a slice, a nil pointer that
  is dereferenced, a type assertion \<open>x.(T)\<close> on a value of another type, and an explicit
  \<open>panic(err)\<close>.
\<close>

datatype panic_reason = IndexOutOfRange | NilDereference | TypeAssertion | ExplicitPanic

datatype 'a outcome = Returns 'a | Panics panic_reason

fun out_bind :: "'a outcome \<Rightarrow> ('a \<Rightarrow> 'b outcome) \<Rightarrow> 'b outcome" where
  "out_bind (Returns x) f = f x"
| "out_bind (Panics p) f = Panics p"

text \<open>
  A call that also changes a state gives its outcome and the state it leaves; a panic
  keeps the state of the moment it was raised (deferred calls still see it), and the
  calls after it do not run.
\<close>

fun st_bind :: "'a outcome \<times> 's \<Rightarrow> ('a \<Rightarrow> 's \<Rightarrow> 'b outcome \<times> 's) \<Rightarrow> 'b outcome \<times> 's" where
  "st_bind (Returns x, s) f = f x s"
| "st_bind (Panics p, s) f = (Panics p, s)"

lemma out_bind_Returns_iff:
  "out_bind m f = Returns y \<longleftrightarrow> (\<exists>x. m = Returns x \<and> f x = Returns y)"
  by (cases m) auto

lemma out_bind_Panics_iff:
  "out_bind m f = Panics p \<longleftrightarrow> m = Panics p \<or> (\<exists>x. m = Returns x \<and> f x = Panics p)"
  by (cases m) auto

lemma st_bind_eq:
  "st_bind m f = (case m of (Returns x, s) \<Rightarrow> f x s | (Panics p, s) \<Rightarrow> (Panics p, s))"
  by (cases m; cases "fst m") auto

text \<open>
  A relation between the states before and after that is reflexive and transitive goes
  through a sequence of calls when it holds of each of them.
\<close>

lemma st_bind_rel:
  assumes "P s (snd m)"
    and "\<And>x s'. m = (Returns x, s') \<Longrightarrow> P s' (snd (f x s'))"
    and "\<And>x y z. P x y \<Longrightarrow> P y z \<Longrightarrow> P x z"
  shows "P s (snd (st_bind m f))"
  using assms by (cases m; cases "fst m") auto

text \<open>Reading an element of a slice panics outside its bounds.\<close>

definition slice_index :: "'a list \<Rightarrow> nat \<Rightarrow> 'a outcome" where
  "slice_index xs i = (if i < length xs then Returns (xs ! i) else Panics IndexOutOfRange)"

lemma slice_index_Returns [simp]: "i < length xs \<Longrightarrow> slice_index xs i = Returns (xs ! i)"
  by (simp add: slice_index_def)

lemma slice_index_Panics [simp]: "length xs \<le> i \<Longrightarrow> slice_index xs i = Panics IndexOutOfRange"
  by (simp add: slice_index_def)

section \<open>Error values and untyped values\<close>

text \<open>
  \<open>LibError\<close> is an error made by code outside the repository (an API client, an informer
  cache, the CEL library), known by its text; \<open>Errorf\<close> is \<open>fmt.Errorf\<close> with a wrapped
  error; \<open>ErrorText\<close> an error of the repository with no cause. Go's nil error is \<open>None\<close>
  of \<open>go_error option\<close>, and a pair (value, error) is \<open>go_error + 'a\<close>.
\<close>

datatype go_error = LibError string | Errorf string go_error | ErrorText string

datatype go_any =
    GoNil
  | GoBool bool
  | GoInt int
  | GoString string
  | GoSlice "go_any list"
  | GoMap "(string \<times> go_any) list"
  | GoOther string

type_synonym go_map = "(string \<times> go_any) list"

text \<open>\<open>utilruntime.Must\<close> panics on an error.\<close>

definition Must :: "go_error option \<Rightarrow> unit outcome" where
  "Must err = (case err of None \<Rightarrow> Returns () | Some _ \<Rightarrow> Panics ExplicitPanic)"

fun err_of :: "go_error + 'a \<Rightarrow> go_error option" where
  "err_of (Inl e) = Some e"
| "err_of (Inr x) = None"

lemma err_of_None_iff [simp]: "err_of x = None \<longleftrightarrow> (\<exists>y. x = Inr y)"
  by (cases x) auto

lemma err_of_Some_iff [simp]: "err_of x = Some e \<longleftrightarrow> x = Inl e"
  by (cases x) auto

section \<open>Invariants of step relations\<close>

locale invariant_system =
  fixes init :: "'s \<Rightarrow> bool"
    and step :: "'s \<Rightarrow> 's \<Rightarrow> bool"
    and inv :: "'s \<Rightarrow> bool"
  assumes init_inv: "init s \<Longrightarrow> inv s"
    and step_inv: "step s t \<Longrightarrow> inv s \<Longrightarrow> inv t"
begin

lemma steps_inv: "step\<^sup>*\<^sup>* s t \<Longrightarrow> inv s \<Longrightarrow> inv t"
  by (induction rule: rtranclp_induct) (auto intro: step_inv)

lemma reachable_inv: "init s \<Longrightarrow> step\<^sup>*\<^sup>* s t \<Longrightarrow> inv t"
  by (rule steps_inv) (auto intro: init_inv)

end

section \<open>Simulation of step relations\<close>

text \<open>
  Every step of the concrete relation is a sequence of abstract steps, none for a step that the
  abstraction does not see; then so is every run.
\<close>

locale simulation =
  fixes cstep :: "'c \<Rightarrow> 'c \<Rightarrow> bool"
    and astep :: "'a \<Rightarrow> 'a \<Rightarrow> bool"
    and rel :: "'c \<Rightarrow> 'a \<Rightarrow> bool"
  assumes step_simulated: "cstep s t \<Longrightarrow> rel s a \<Longrightarrow> \<exists>b. astep\<^sup>*\<^sup>* a b \<and> rel t b"
begin

lemma steps_simulated: "cstep\<^sup>*\<^sup>* s t \<Longrightarrow> rel s a \<Longrightarrow> \<exists>b. astep\<^sup>*\<^sup>* a b \<and> rel t b"
proof (induction rule: rtranclp_induct)
  case base
  then show ?case by blast
next
  case (step t u)
  then obtain b where "astep\<^sup>*\<^sup>* a b" "rel t b" by blast
  with step_simulated [OF step.hyps(2)] show ?case by (meson rtranclp_trans)
qed

end

section \<open>What must happen before a run can end\<close>

text \<open>
  \<open>owes\<close> holds of a state until an event happens: each step keeps it or is the event. A run
  from a state that owes to one that does not has the event in it.
\<close>

lemma event_in_run:
  assumes "step\<^sup>*\<^sup>* s t" and "owes s" and "ok s" and "\<not> owes t"
    and keeps: "\<And>x y. step x y \<Longrightarrow> ok x \<Longrightarrow> owes x \<Longrightarrow> owes y \<or> event x y"
    and ok: "\<And>x y. step x y \<Longrightarrow> ok x \<Longrightarrow> ok y"
  shows "\<exists>x y. step\<^sup>*\<^sup>* s x \<and> event x y \<and> ok x \<and> ok y \<and> step\<^sup>*\<^sup>* y t"
  using assms(1-3)
proof (induction rule: converse_rtranclp_induct)
  case base
  with assms(4) show ?case by blast
next
  case (step s u)
  from keeps [OF step.hyps(1) step.prems(2,1)] show ?case
  proof
    assume "owes u"
    from step.IH [OF this ok [OF step.hyps(1) step.prems(2)]] step.hyps(1) show ?case
      by (meson converse_rtranclp_into_rtranclp)
  next
    assume "event s u"
    with step.hyps ok [OF step.hyps(1) step.prems(2)] step.prems(2) show ?case by blast
  qed
qed

section \<open>Runs with labels, and what they cost\<close>

text \<open>A run whose steps have labels, the last one at the end of the list.\<close>

inductive labelled_run ::
  "('l \<Rightarrow> 's \<Rightarrow> 's \<Rightarrow> bool) \<Rightarrow> 's \<Rightarrow> 'l list \<Rightarrow> 's \<Rightarrow> bool" for step where
  start: "labelled_run step s [] s"
| more: "labelled_run step s ls t \<Longrightarrow> step l t u \<Longrightarrow> labelled_run step s (ls @ [l]) u"

lemma labelled_run_steps:
  assumes "labelled_run step s ls t" and "\<And>l x y. step l x y \<Longrightarrow> r x y"
  shows "r\<^sup>*\<^sup>* s t"
  using assms(1) by induction (auto intro: rtranclp.rtrancl_into_rtrancl assms(2))

text \<open>
  A step costs what its label says and is paid from the effort of the state, which it may not
  raise by more than the label grants; then so it is with every run.
\<close>

locale amortized_system =
  fixes step :: "'l \<Rightarrow> 's \<Rightarrow> 's \<Rightarrow> bool"
    and inv :: "'s \<Rightarrow> bool"
    and effort :: "'s \<Rightarrow> nat"
    and cost :: "'l \<Rightarrow> nat"
    and grant :: "'l \<Rightarrow> nat"
  assumes step_paid: "step l s t \<Longrightarrow> inv s \<Longrightarrow> inv t \<and> cost l + effort t \<le> effort s + grant l"
begin

lemma run_paid:
  "labelled_run step s ls t \<Longrightarrow> inv s \<Longrightarrow>
   inv t \<and> sum_list (map cost ls) + effort t \<le> effort s + sum_list (map grant ls)"
proof (induction rule: labelled_run.induct)
  case start
  then show ?case by simp
next
  case (more s ls t l u)
  with step_paid [OF more.hyps(2)] show ?case by fastforce
qed

end

end
