(* ===== verification/Go_Strings.thy ===== *)
theory Go_Strings
  imports Stager_Prelude
begin

text \<open>
  The functions of Go's package \<open>strings\<close> that the resolver calls, on byte strings:
  \<open>strings.Contains\<close>, \<open>strings.Index\<close> and \<open>strings.Split\<close>, with the facts about the
  first occurrence of a separator that the naming scheme of the stages rests on.
\<close>

section \<open>Contains and Index\<close>

fun strings_Contains :: "string \<Rightarrow> string \<Rightarrow> bool" where
  "strings_Contains [] sub = (sub = [])"
| "strings_Contains (c # s) sub = (prefix sub (c # s) \<or> strings_Contains s sub)"

text \<open>\<open>None\<close> is Go's \<open>-1\<close>: the substring does not occur.\<close>

fun strings_Index :: "string \<Rightarrow> string \<Rightarrow> nat option" where
  "strings_Index [] sub = (if sub = [] then Some 0 else None)"
| "strings_Index (c # s) sub =
     (if prefix sub (c # s) then Some 0 else map_option Suc (strings_Index s sub))"

lemma strings_Contains_sublist: "strings_Contains s sub \<longleftrightarrow> sublist sub s"
  by (induction s) (auto simp: sublist_Cons_right)

lemma strings_Contains_Nil [simp]: "strings_Contains s []"
  by (simp add: strings_Contains_sublist)

lemma strings_Index_None: "strings_Index s sub = None \<longleftrightarrow> \<not> sublist sub s"
  by (induction s) (auto simp: sublist_Cons_right)

lemma strings_Index_Some:
  "strings_Index s sub = Some i \<Longrightarrow>
   prefix sub (drop i s) \<and> i + length sub \<le> length s \<and> (\<forall>j<i. \<not> prefix sub (drop j s))"
proof (induction s arbitrary: i)
  case Nil
  then show ?case by (auto split: if_splits)
next
  case (Cons c s)
  show ?case
  proof (cases "prefix sub (c # s)")
    case True
    with Cons.prems show ?thesis by (auto dest: prefix_length_le)
  next
    case False
    with Cons.prems obtain k where k: "strings_Index s sub = Some k" "i = Suc k"
      by auto
    from Cons.IH [OF k(1)] False k(2) show ?thesis
      by (auto simp: less_Suc_eq_0_disj)
  qed
qed

lemma strings_Index_eqI:
  "prefix sub (drop i s) \<Longrightarrow> i \<le> length s \<Longrightarrow> (\<And>j. j < i \<Longrightarrow> \<not> prefix sub (drop j s)) \<Longrightarrow>
   strings_Index s sub = Some i"
proof (induction s arbitrary: i)
  case Nil
  then show ?case by auto
next
  case (Cons c s)
  show ?case
  proof (cases i)
    case 0
    with Cons.prems(1) show ?thesis by simp
  next
    case (Suc k)
    have "\<not> prefix sub (c # s)" using Cons.prems(3) [of 0] Suc by simp
    moreover have "strings_Index s sub = Some k"
    proof (rule Cons.IH)
      show "\<not> prefix sub (drop j s)" if "j < k" for j
        using Cons.prems(3) [of "Suc j"] that Suc by simp
    qed (use Cons.prems Suc in auto)
    ultimately show ?thesis using Suc by simp
  qed
qed

section \<open>Split\<close>

text \<open>
  \<open>strings.Split(s, sep)\<close> cuts at every occurrence of the separator, from the left and
  without overlaps. The source always passes the non-empty separator \<open>".stage."\<close>; for an
  empty one Go cuts after each character, here after each byte.
\<close>

function strings_Split :: "string \<Rightarrow> string \<Rightarrow> string list" where
  "strings_Split s sep =
     (if sep = [] then map (\<lambda>c. [c]) s
      else (case strings_Index s sep of
              None \<Rightarrow> [s]
            | Some i \<Rightarrow> take i s # strings_Split (drop (i + length sep) s) sep))"
  by pat_completeness auto
termination
proof (relation "measure (\<lambda>(s, sep). length s)", simp)
  fix s sep :: string and i
  assume "sep \<noteq> []" and "strings_Index s sep = Some i"
  then have "i + length sep \<le> length s" "0 < length sep"
    using strings_Index_Some [of s sep i] by auto
  then have "length s - (i + length sep) < length s" by linarith
  then show "((drop (i + length sep) s, sep), s, sep) \<in> measure (\<lambda>(s, sep). length s)"
    by simp
qed

declare strings_Split.simps [simp del]

lemma strings_Split_not_Nil: "sep \<noteq> [] \<Longrightarrow> strings_Split s sep \<noteq> []"
  by (subst strings_Split.simps) (auto split: option.splits)

lemma strings_Split_single:
  "sep \<noteq> [] \<Longrightarrow> length (strings_Split s sep) = 1 \<longleftrightarrow> \<not> sublist sep s"
  by (subst strings_Split.simps)
     (auto split: option.splits simp: strings_Index_None [symmetric] strings_Split_not_Nil)

lemma strings_Split_single_eq: "sep \<noteq> [] \<Longrightarrow> \<not> sublist sep s \<Longrightarrow> strings_Split s sep = [s]"
  by (subst strings_Split.simps) (auto split: option.splits simp: strings_Index_None [symmetric])

text \<open>The separator occurs first right after \<open>p\<close> exactly when it does not occur in \<open>p\<close>
  followed by all of the separator but its last character.\<close>

lemma prefix_drop_append:
  assumes "i + length x \<le> length s"
  shows "prefix x (drop i (s @ t)) \<longleftrightarrow> prefix x (drop i s)"
proof -
  have "drop i (s @ t) = drop i s @ t" using assms by simp
  moreover have "prefix x (drop i s)" if "prefix x (drop i s @ t)"
    by (rule prefix_length_prefix [OF that]) (use assms in auto)
  ultimately show ?thesis by (auto simp: prefix_prefix)
qed

lemma sublist_iff_drop:
  "sublist x s \<longleftrightarrow> (\<exists>i. i + length x \<le> length s \<and> prefix x (drop i s))"
proof
  assume "sublist x s"
  then obtain a b where s: "s = a @ x @ b" by (auto simp: sublist_def)
  then have "length a + length x \<le> length s \<and> prefix x (drop (length a) s)" by simp
  then show "\<exists>i. i + length x \<le> length s \<and> prefix x (drop i s)" by blast
next
  assume "\<exists>i. i + length x \<le> length s \<and> prefix x (drop i s)"
  then obtain i b where "drop i s = x @ b" by (auto elim: prefixE)
  then have "s = take i s @ x @ b" by (metis append_take_drop_id)
  then show "sublist x s" by (metis sublist_def)
qed

lemma strings_Index_separator:
  assumes "sep \<noteq> []"
  shows "strings_Index (p @ sep @ t) sep = Some (length p) \<longleftrightarrow> \<not> sublist sep (p @ butlast sep)"
    (is "?L \<longleftrightarrow> ?R")
proof -
  let ?s = "p @ sep @ t"
  have split: "?s = (p @ butlast sep) @ ([last sep] @ t)"
    using assms by (metis append.assoc append_butlast_last_id)
  have occ: "prefix sep (drop j ?s) \<longleftrightarrow> prefix sep (drop j (p @ butlast sep))"
    if "j < length p" for j
    unfolding split using that assms by (intro prefix_drop_append) (cases sep, auto)
  have R: "?R \<longleftrightarrow> (\<forall>j<length p. \<not> prefix sep (drop j ?s))"
  proof -
    have bound: "j + length sep \<le> length (p @ butlast sep) \<longleftrightarrow> j < length p" for j
      using assms by (cases sep) auto
    show ?thesis unfolding sublist_iff_drop bound using occ by blast
  qed
  show ?thesis
  proof
    assume ?L
    then show ?R unfolding R using strings_Index_Some [of ?s sep "length p"] by blast
  next
    assume ?R
    then show ?L unfolding R by (intro strings_Index_eqI) auto
  qed
qed

lemma strings_Split_pair:
  assumes "sep \<noteq> []" and "\<not> sublist sep (p @ butlast sep)" and "\<not> sublist sep t"
  shows "strings_Split (p @ sep @ t) sep = [p, t]"
proof -
  have "strings_Index (p @ sep @ t) sep = Some (length p)"
    using assms strings_Index_separator by blast
  moreover have "strings_Split t sep = [t]"
    using assms by (simp add: strings_Split_single_eq)
  ultimately show ?thesis
    using assms(1) by (simp add: strings_Split.simps [of "p @ sep @ t"])
qed

lemma strings_Split_Cons_iff:
  "sep \<noteq> [] \<Longrightarrow> strings_Split s sep = x # y # ys \<longleftrightarrow>
   (\<exists>i. strings_Index s sep = Some i \<and> x = take i s \<and>
        strings_Split (drop (i + length sep) s) sep = y # ys)"
  by (subst strings_Split.simps) (auto split: option.splits)

end
