(* ===== verification/Api_Types.thy ===== *)
theory Api_Types
  imports Go_Strings
begin

text \<open>
  The data the controller works on. The StagedBindingPolicy types are those of
  \<open>api/community/v1alpha1/types.go\<close>; of the KubeStellar and Kubernetes types that are
  declared outside the repository (object metadata, Binding, BindingPolicy,
  CombinedStatus, ObjectIdentifier) the records hold the fields the source reads or writes.
  A Go slice is a list and a nil slice the empty one, because the code only ranges over
  slices, takes their length and indexes them; the theory of the deep copies, where nil
  matters, has its own memory model. A pointer to an expression is an \<open>option\<close>.
\<close>

section \<open>Kubernetes object metadata\<close>

record type_meta =
  tm_kind :: string
  tm_apiVersion :: string

record owner_reference =
  or_apiVersion :: string
  or_kind :: string
  or_name :: string
  or_uid :: string

record object_meta =
  om_name :: string
  om_namespace :: string
  om_uid :: string
  om_generation :: int
  om_resourceVersion :: string
  om_labels :: "string \<rightharpoonup> string"
  om_ownerReferences :: "owner_reference list"
  om_deletionTimestamp :: "string option"

text \<open>Zero value of the metadata, as a composite literal leaves the fields it does not name.\<close>

definition zero_meta :: object_meta where
  "zero_meta = \<lparr>om_name = [], om_namespace = [], om_uid = [], om_generation = 0,
     om_resourceVersion = [], om_labels = Map.empty, om_ownerReferences = [],
     om_deletionTimestamp = None\<rparr>"

section \<open>StagedBindingPolicy\<close>

text \<open>
  Label selectors and downsync clauses are types of other modules that the code only passes
  on, so they stay untyped values. A CEL expression is its text.
\<close>

type_synonym expression = string
type_synonym label_selector = go_any
type_synonym downsync_policy_clause = go_any

record stage =
  stage_name :: string
  stage_clusterSelectors :: "label_selector list"
  stage_filter :: "expression option"
  stage_condition :: "expression option"

record sbp_spec =
  spec_downsync :: "downsync_policy_clause list"
  spec_stages :: "stage list"

record sbp_status =
  status_activeStage :: string

record staged_binding_policy =
  sbp_typeMeta :: type_meta
  sbp_meta :: object_meta
  sbp_spec :: sbp_spec
  sbp_status :: sbp_status

abbreviation sbp_name :: "staged_binding_policy \<Rightarrow> string" where
  "sbp_name sbp \<equiv> om_name (sbp_meta sbp)"

abbreviation sbp_uid :: "staged_binding_policy \<Rightarrow> string" where
  "sbp_uid sbp \<equiv> om_uid (sbp_meta sbp)"

text \<open>
  \<open>sbp.Status.ActiveStage = s\<close> on a copy of the object
  (\<open>updateStagedBindingPolicyStatusLocked\<close> copies it first).
\<close>

definition set_activeStage :: "string \<Rightarrow> staged_binding_policy \<Rightarrow> staged_binding_policy" where
  "set_activeStage s sbp = sbp\<lparr>sbp_status := (sbp_status sbp)\<lparr>status_activeStage := s\<rparr>\<rparr>"

lemma set_activeStage_sel [simp]:
  "sbp_typeMeta (set_activeStage s sbp) = sbp_typeMeta sbp"
  "sbp_meta (set_activeStage s sbp) = sbp_meta sbp"
  "sbp_spec (set_activeStage s sbp) = sbp_spec sbp"
  "status_activeStage (sbp_status (set_activeStage s sbp)) = s"
  by (simp_all add: set_activeStage_def)

section \<open>The group of the API\<close>

definition GroupName :: string where
  "GroupName = ''community.kubestellar.io''"

text \<open>\<open>schema.GroupVersion{Group: ..., Version: ...}\<close>, as a pair.\<close>

type_synonym group_version = "string \<times> string"

definition GroupVersion :: group_version where
  "GroupVersion = (''community.kubestellar.io'', ''v1alpha1'')"

definition SchemeGroupVersion :: group_version where
  "SchemeGroupVersion = (GroupName, ''v1alpha1'')"

text \<open>The two declarations of the group and version, in two files, agree.\<close>

lemma SchemeGroupVersion_eq_GroupVersion: "SchemeGroupVersion = GroupVersion"
  by (simp add: SchemeGroupVersion_def GroupVersion_def GroupName_def)

section \<open>KubeStellar's objects\<close>

record binding_policy =
  bp_meta :: object_meta
  bp_downsync :: "downsync_policy_clause list"
  bp_clusterSelectors :: "label_selector list"

abbreviation bp_name :: "binding_policy \<Rightarrow> string" where
  "bp_name bp \<equiv> om_name (bp_meta bp)"

abbreviation bp_uid :: "binding_policy \<Rightarrow> string" where
  "bp_uid bp \<equiv> om_uid (bp_meta bp)"

record cluster_scope_clause =
  cc_group :: string
  cc_version :: string
  cc_resource :: string
  cc_name :: string
  cc_resourceVersion :: string

record namespace_scope_clause =
  nc_group :: string
  nc_version :: string
  nc_resource :: string
  nc_name :: string
  nc_namespace :: string
  nc_resourceVersion :: string

record downsync_object_clauses =
  clusterScope :: "cluster_scope_clause list"
  namespaceScope :: "namespace_scope_clause list"

record binding_spec =
  bs_workload :: downsync_object_clauses

definition zero_bindingSpec :: binding_spec where
  "zero_bindingSpec = \<lparr>bs_workload = \<lparr>clusterScope = [], namespaceScope = []\<rparr>\<rparr>"

record binding =
  b_meta :: object_meta
  b_spec :: binding_spec

record combined_status =
  cs_meta :: object_meta
  cs_results :: go_any

record object_identifier =
  oi_group :: string
  oi_version :: string
  oi_kind :: string
  oi_resource :: string
  oi_namespace :: string
  oi_name :: string

end
