(* ===== verification/Cel_Evaluator.thy ===== *)
theory Cel_Evaluator
  imports Api_Types
begin

text \<open>
  \<open>cel-evaluator.go\<close>, and \<open>testExpression\<close> of \<open>resolver.go\<close>. The CEL library itself is
  not in the repository: its four stages (parse, check, build the program, evaluate) are
  the fields of a record that the evaluator is built over, for any type of syntax trees
  and of programs.
\<close>

section \<open>The CEL library, as the evaluator sees it\<close>

text \<open>
  \<open>Parse\<close> and \<open>Check\<close> return a pointer to issues, which may be nil and whose \<open>Err()\<close> may
  be nil. A result value is asked for its type's name and for its native value.
\<close>

type_synonym cel_issues = "go_error option option"

definition issues_Err :: "cel_issues \<Rightarrow> go_error option" where
  "issues_Err iss = (case iss of None \<Rightarrow> None | Some err \<Rightarrow> err)"

record cel_val =
  val_TypeName :: string
  val_Value :: go_any

record ('ast, 'prog) cel_env =
  cel_Parse :: "expression \<Rightarrow> 'ast \<times> cel_issues"
  cel_Check :: "'ast \<Rightarrow> 'ast \<times> cel_issues"
  cel_Program :: "'ast \<Rightarrow> go_error + 'prog"
  cel_Eval :: "'prog \<Rightarrow> go_map \<Rightarrow> go_error + cel_val"

datatype cel_type = CelString | CelDyn | CelMap cel_type cel_type

text \<open>\<open>decls.NewVar(name, type)\<close>.\<close>

datatype cel_decl = NewVar string cel_type

section \<open>The evaluator\<close>

record ('ast, 'prog) celEvaluator =
  ce_env :: "('ast, 'prog) cel_env"

definition cel_declarations :: "cel_decl list" where
  "cel_declarations =
     [NewVar ''combinedStatus'' (CelMap CelString CelDyn),
      NewVar ''downsyncClause'' (CelMap CelString CelDyn)]"

definition newCELEvaluator ::
  "(cel_decl list \<Rightarrow> go_error + ('ast, 'prog) cel_env) \<Rightarrow>
   go_error + ('ast, 'prog) celEvaluator" where
  "newCELEvaluator cel_NewEnv =
     (case cel_NewEnv cel_declarations of
        Inl err \<Rightarrow> Inl (Errorf ''failed to create CEL environment'' err)
      | Inr env \<Rightarrow> Inr \<lparr>ce_env = env\<rparr>)"

text \<open>The error result of \<open>CheckExpression\<close>: \<open>None\<close> is nil. A nil expression is valid.\<close>

definition CheckExpression ::
  "('ast, 'prog) celEvaluator \<Rightarrow> expression option \<Rightarrow> go_error option" where
  "CheckExpression e expression =
     (case expression of
        None \<Rightarrow> None
      | Some x \<Rightarrow>
          (case cel_Parse (ce_env e) x of
             (ast, iss) \<Rightarrow>
               (case issues_Err iss of
                  Some err \<Rightarrow> Some (Errorf ''failed to parse expression'' err)
                | None \<Rightarrow>
                    (case issues_Err (snd (cel_Check (ce_env e) ast)) of
                       Some err \<Rightarrow> Some (Errorf ''failed to check expression'' err)
                     | None \<Rightarrow> None))))"

definition Evaluate ::
  "('ast, 'prog) celEvaluator \<Rightarrow> expression \<Rightarrow> go_map \<Rightarrow> go_error + cel_val" where
  "Evaluate e expression objMap =
     (case cel_Parse (ce_env e) expression of
        (ast, iss) \<Rightarrow>
          (case issues_Err iss of
             Some err \<Rightarrow> Inl (Errorf ''failed to parse expression'' err)
           | None \<Rightarrow>
               (case cel_Check (ce_env e) ast of
                  (checked, iss') \<Rightarrow>
                    (case issues_Err iss' of
                       Some err \<Rightarrow> Inl (Errorf ''failed to check expression'' err)
                     | None \<Rightarrow>
                         (case cel_Program (ce_env e) checked of
                            Inl err \<Rightarrow> Inl (Errorf ''failed to create program'' err)
                          | Inr prog \<Rightarrow>
                              (case cel_Eval (ce_env e) prog objMap of
                                 Inl err \<Rightarrow> Inl (Errorf ''failed to evaluate expression'' err)
                               | Inr result \<Rightarrow> Inr result))))))"

text \<open>
  \<open>testExpression\<close>: an evaluation error counts as false (it is only logged), and so does a
  value of another type than bool. The type assertion on the native value would panic if a
  value whose type is named bool held no Go bool.
\<close>

definition testExpression ::
  "('ast, 'prog) celEvaluator \<Rightarrow> expression \<Rightarrow> go_map \<Rightarrow> bool outcome" where
  "testExpression e expression objMap =
     (case Evaluate e expression objMap of
        Inl err \<Rightarrow> Returns False
      | Inr test \<Rightarrow>
          (if val_TypeName test \<noteq> ''bool'' then Returns False
           else (case val_Value test of
                   GoBool b \<Rightarrow> Returns b
                 | _ \<Rightarrow> Panics TypeAssertion)))"

lemmas cel_defs = CheckExpression_def Evaluate_def issues_Err_def

section \<open>Checking and evaluating agree\<close>

lemma Evaluate_Inr_CheckExpression:
  "Evaluate e x m = Inr v \<Longrightarrow> CheckExpression e (Some x) = None"
  by (auto simp: cel_defs split: prod.splits option.splits sum.splits)

lemma CheckExpression_error_Evaluate:
  "CheckExpression e (Some x) = Some err \<Longrightarrow> Evaluate e x m = Inl err"
  by (auto simp: cel_defs split: prod.splits option.splits sum.splits)

text \<open>An expression that passes the check fails only when it is compiled or run.\<close>

lemma CheckExpression_None_Evaluate:
  "CheckExpression e (Some x) = None \<Longrightarrow> Evaluate e x m = Inl err \<Longrightarrow>
   (\<exists>err'. err = Errorf ''failed to create program'' err') \<or>
   (\<exists>err'. err = Errorf ''failed to evaluate expression'' err')"
  by (auto simp: cel_defs split: prod.splits option.splits sum.splits)

section \<open>Testing an expression\<close>

lemma testExpression_True:
  "testExpression e x m = Returns True \<longleftrightarrow>
   (\<exists>v. Evaluate e x m = Inr v \<and> val_TypeName v = ''bool'' \<and> val_Value v = GoBool True)"
  by (auto simp: testExpression_def split: sum.splits go_any.splits)

lemma testExpression_Panics:
  "testExpression e x m = Panics p \<longleftrightarrow>
   p = TypeAssertion \<and>
   (\<exists>v. Evaluate e x m = Inr v \<and> val_TypeName v = ''bool'' \<and> (\<forall>b. val_Value v \<noteq> GoBool b))"
  by (auto simp: testExpression_def split: sum.splits go_any.splits)

lemma testExpression_invalid:
  "CheckExpression e (Some x) \<noteq> None \<Longrightarrow> testExpression e x m = Returns False"
  by (auto simp: testExpression_def CheckExpression_error_Evaluate)

text \<open>
  What cel-go documents of its bool values: the native value of a value whose type is
  named bool is a Go bool. Under it the type assertion never fails.
\<close>

definition cel_bools_native :: "('ast, 'prog) celEvaluator \<Rightarrow> bool" where
  "cel_bools_native e \<longleftrightarrow>
     (\<forall>prog m v. cel_Eval (ce_env e) prog m = Inr v \<longrightarrow> val_TypeName v = ''bool'' \<longrightarrow>
        (\<exists>b. val_Value v = GoBool b))"

lemma Evaluate_from_Eval:
  "Evaluate e x m = Inr v \<Longrightarrow> \<exists>prog. cel_Eval (ce_env e) prog m = Inr v"
  by (auto simp: Evaluate_def split: prod.splits option.splits sum.splits)

lemma testExpression_total:
  "cel_bools_native e \<Longrightarrow> \<exists>b. testExpression e x m = Returns b"
  using Evaluate_from_Eval [of e x m]
  by (cases "testExpression e x m") (fastforce simp: testExpression_Panics cel_bools_native_def)+

end
