(* ===== verification/Workload_Filter.thy ===== *)
theory Workload_Filter
  imports Cel_Evaluator
begin

text \<open>
  The workload of a Binding and the filter of a stage: \<open>filterWorkloadForSBP\<close> and the two
  functions of \<open>resolver.go\<close> that turn a downsync clause into the variable a filter
  expression is evaluated on.
\<close>

section \<open>Clauses as CEL variables and as object identifiers\<close>

definition clusterScopeDownsyncObjectToMap :: "cluster_scope_clause \<Rightarrow> go_map" where
  "clusterScopeDownsyncObjectToMap downsyncClause =
     [(''group'', GoString (cc_group downsyncClause)),
      (''version'', GoString (cc_version downsyncClause)),
      (''resource'', GoString (cc_resource downsyncClause)),
      (''name'', GoString (cc_name downsyncClause)),
      (''resourceVersion'', GoString (cc_resourceVersion downsyncClause))]"

text \<open>As in the source, the entry \<open>"group"\<close> holds the clause's version.\<close>

definition namespaceScopeDownsyncObjectToMap :: "namespace_scope_clause \<Rightarrow> go_map" where
  "namespaceScopeDownsyncObjectToMap downsyncClause =
     [(''group'', GoString (nc_version downsyncClause)),
      (''version'', GoString (nc_version downsyncClause)),
      (''resource'', GoString (nc_resource downsyncClause)),
      (''name'', GoString (nc_name downsyncClause)),
      (''namespace'', GoString (nc_namespace downsyncClause)),
      (''resourceVersion'', GoString (nc_resourceVersion downsyncClause))]"

definition clusterScope_identifier :: "cluster_scope_clause \<Rightarrow> object_identifier" where
  "clusterScope_identifier downsyncClause =
     \<lparr>oi_group = cc_group downsyncClause, oi_version = [],
      oi_kind = cc_resource downsyncClause, oi_resource = cc_resource downsyncClause,
      oi_namespace = [], oi_name = cc_name downsyncClause\<rparr>"

definition namespaceScope_identifier :: "namespace_scope_clause \<Rightarrow> object_identifier" where
  "namespaceScope_identifier downsyncClause =
     \<lparr>oi_group = nc_group downsyncClause, oi_version = [],
      oi_kind = nc_resource downsyncClause, oi_resource = nc_resource downsyncClause,
      oi_namespace = nc_namespace downsyncClause, oi_name = nc_name downsyncClause\<rparr>"

section \<open>The filter\<close>

text \<open>
  A \<open>sets.Set\<close> is a list without repetitions; \<open>Insert\<close> is \<open>List.insert\<close>. Its order is
  never looked at: the resolver ranges over it in the order the runtime picks.
  \<open>filter_passes\<close> is the guard of both loops: no filter, or a filter that tests true.
\<close>

definition filter_passes ::
  "('ast, 'prog) celEvaluator \<Rightarrow> expression option \<Rightarrow> go_map \<Rightarrow> bool outcome" where
  "filter_passes e expression clause =
     (case expression of
        None \<Rightarrow> Returns True
      | Some x \<Rightarrow> testExpression e x [(''downsyncClause'', GoMap clause)])"

fun filter_loop ::
  "('ast, 'prog) celEvaluator \<Rightarrow> expression option \<Rightarrow> ('c \<Rightarrow> go_map) \<Rightarrow>
   ('c \<Rightarrow> object_identifier) \<Rightarrow> 'c list \<Rightarrow> object_identifier list \<Rightarrow>
   object_identifier list outcome" where
  "filter_loop e expression toMap ident [] filtered = Returns filtered"
| "filter_loop e expression toMap ident (downsyncClause # cs) filtered =
     out_bind (filter_passes e expression (toMap downsyncClause))
       (\<lambda>passes. filter_loop e expression toMap ident cs
          (if passes then List.insert (ident downsyncClause) filtered else filtered))"

definition filterWorkloadForSBP ::
  "('ast, 'prog) celEvaluator \<Rightarrow> downsync_object_clauses \<Rightarrow> expression option \<Rightarrow>
   object_identifier list outcome" where
  "filterWorkloadForSBP e workload expression =
     out_bind
       (filter_loop e expression clusterScopeDownsyncObjectToMap clusterScope_identifier
          (clusterScope workload) [])
       (filter_loop e expression namespaceScopeDownsyncObjectToMap namespaceScope_identifier
          (namespaceScope workload))"

section \<open>What the filter keeps\<close>

lemma filter_loop_set:
  "filter_loop e x toMap ident cs acc = Returns F \<Longrightarrow>
   set F = set acc \<union> ident ` {c \<in> set cs. filter_passes e x (toMap c) = Returns True}"
proof (induction cs arbitrary: acc)
  case Nil
  then show ?case by simp
next
  case (Cons c cs)
  from Cons.prems obtain b where b: "filter_passes e x (toMap c) = Returns b"
    and rest: "filter_loop e x toMap ident cs (if b then List.insert (ident c) acc else acc)
      = Returns F"
    by (auto simp: out_bind_Returns_iff)
  from Cons.IH [OF rest] b show ?case by (cases b) auto
qed

lemma filter_loop_distinct:
  "filter_loop e x toMap ident cs acc = Returns F \<Longrightarrow> distinct acc \<Longrightarrow> distinct F"
  by (induction cs arbitrary: acc) (auto simp: out_bind_Returns_iff split: if_splits)

lemma filter_loop_total:
  "(\<And>c. c \<in> set cs \<Longrightarrow> \<exists>b. filter_passes e x (toMap c) = Returns b) \<Longrightarrow>
   \<exists>F. filter_loop e x toMap ident cs acc = Returns F"
proof (induction cs arbitrary: acc)
  case Nil
  then show ?case by simp
next
  case (Cons c cs)
  from Cons.prems obtain b where "filter_passes e x (toMap c) = Returns b" by fastforce
  with Cons show ?case by simp
qed

lemma filter_loop_None:
  "\<exists>F. filter_loop e None toMap ident cs acc = Returns F"
  by (rule filter_loop_total) (auto simp: filter_passes_def intro: exI [of _ True])

lemma filter_passes_total:
  "cel_bools_native e \<Longrightarrow> \<exists>b. filter_passes e x m = Returns b"
  by (auto simp: filter_passes_def testExpression_total split: option.splits)

lemma filterWorkload_set:
  assumes "filterWorkloadForSBP e w x = Returns F"
  shows "set F =
    clusterScope_identifier ` {c \<in> set (clusterScope w).
       filter_passes e x (clusterScopeDownsyncObjectToMap c) = Returns True} \<union>
    namespaceScope_identifier ` {c \<in> set (namespaceScope w).
       filter_passes e x (namespaceScopeDownsyncObjectToMap c) = Returns True}"
  using assms
  by (auto simp: filterWorkloadForSBP_def out_bind_Returns_iff dest!: filter_loop_set)

lemma filterWorkload_distinct:
  "filterWorkloadForSBP e w x = Returns F \<Longrightarrow> distinct F"
  by (auto simp: filterWorkloadForSBP_def out_bind_Returns_iff dest: filter_loop_distinct)

lemma filterWorkload_total:
  "cel_bools_native e \<Longrightarrow> \<exists>F. filterWorkloadForSBP e w x = Returns F"
  unfolding filterWorkloadForSBP_def out_bind_Returns_iff
  by (meson filter_loop_total filter_passes_total)

lemma filterWorkload_empty [simp]:
  "filterWorkloadForSBP e \<lparr>clusterScope = [], namespaceScope = []\<rparr> x = Returns []"
  by (simp add: filterWorkloadForSBP_def)

end
