(* ===== verification/Resolver.thy ===== *)
theory Resolver
  imports Workload_Filter
begin

text \<open>
  \<open>pkg/staged-binding-policy/resolver.go\<close>: the resolver's state, its four public
  operations and the internal ones they call with the lock held. Logging is left out. A
  public operation runs from \<open>r.Lock()\<close> to the deferred \<open>r.Unlock()\<close>, so it is one
  atomic step on the map of tracked policies.
\<close>

section \<open>State\<close>

definition CombinedStatusLabelBindingPolicy :: string where
  "CombinedStatusLabelBindingPolicy = ''status.kubestellar.io/binding-policy''"

definition CombinedStatusLabelGroup :: string where
  "CombinedStatusLabelGroup = ''status.kubestellar.io/api-group''"

definition CombinedStatusLabelResource :: string where
  "CombinedStatusLabelResource = ''status.kubestellar.io/resource''"

definition CombinedStatusLabelName :: string where
  "CombinedStatusLabelName = ''status.kubestellar.io/name''"

definition CombinedStatusLabelNamespace :: string where
  "CombinedStatusLabelNamespace = ''status.kubestellar.io/namespace''"

text \<open>A requirement \<open>key = value\<close> on labels, and a selector: the requirements it conjoins.\<close>

datatype requirement = Requirement string string

type_synonym selector = "requirement list"

record stagedBindingPolicyData =
  d_uid :: string
  d_downsync :: "downsync_policy_clause list"
  d_stages :: "stage list"
  d_activeIndex :: nat
  d_activeBindingPolicyUID :: string
  d_bindingSpec :: binding_spec

text \<open>
  What the resolver is built over (\<open>NewResolver\<close>): the clients of the API server and the
  informer cache, and the library functions it calls. They act on, and read, a world
  \<open>'w\<close>: everything outside the resolver, the runtime's choice of the order in which a map is
  ranged over included. A client may change the world in any way, so what other actors
  do between two calls of one operation is part of the call.
\<close>

record ('ast, 'prog, 'w) clients =
  celEvaluator :: "('ast, 'prog) celEvaluator"
  bp_Delete :: "string \<Rightarrow> 'w \<Rightarrow> go_error option \<times> 'w"
  bp_Create :: "binding_policy \<Rightarrow> 'w \<Rightarrow> (go_error + binding_policy) \<times> 'w"
  sbp_Get :: "string \<Rightarrow> 'w \<Rightarrow> (go_error + staged_binding_policy) \<times> 'w"
  sbp_UpdateStatus ::
    "staged_binding_policy \<Rightarrow> 'w \<Rightarrow> (go_error + staged_binding_policy) \<times> 'w"
  combinedStatus_List :: "selector \<Rightarrow> 'w \<Rightarrow> go_error + combined_status list"
  errors_IsNotFound :: "go_error \<Rightarrow> bool"
  labels_NewRequirement :: "string \<Rightarrow> string \<Rightarrow> requirement option"
  toUnstructured :: "combined_status \<Rightarrow> go_error + go_map option"
  groupVersion_String :: "group_version \<Rightarrow> string"
  range_objs :: "'w \<Rightarrow> object_identifier list \<Rightarrow> object_identifier list"
  range_keys :: "'w \<Rightarrow> string set \<Rightarrow> string list"

record 'w resolver =
  stagedBindingPolicies :: "string \<rightharpoonup> stagedBindingPolicyData"
  world :: 'w

definition new_resolver :: "'w \<Rightarrow> 'w resolver" where
  "new_resolver w = \<lparr>stagedBindingPolicies = Map.empty, world = w\<rparr>"

text \<open>
  The map holds pointers; a write through \<open>sbpData\<close> is a write to the entry of the map it
  was read from.
\<close>

definition update_entry ::
  "string \<Rightarrow> (stagedBindingPolicyData \<Rightarrow> stagedBindingPolicyData) \<Rightarrow> 'w resolver \<Rightarrow> 'w resolver"
  where
  "update_entry n f r = r\<lparr>stagedBindingPolicies :=
     (stagedBindingPolicies r)(n := map_option f (stagedBindingPolicies r n))\<rparr>"

section \<open>Names\<close>

definition stage_suffix :: string where
  "stage_suffix = ''.stage.''"

text \<open>The name of the BindingPolicy of a stage, and so of its Binding.\<close>

definition bindingPolicyName :: "string \<Rightarrow> string \<Rightarrow> string" where
  "bindingPolicyName sbpName stageName = sbpName @ stage_suffix @ stageName"

text \<open>The policy a Binding's name is taken to belong to: the part before the separator, when
  the separator cuts the name in two.\<close>

definition associatedName :: "string \<Rightarrow> string option" where
  "associatedName bindingName =
     (let suffix = strings_Split bindingName stage_suffix in
      if length suffix \<noteq> 2 then None else Some (suffix ! 0))"

section \<open>Deploying the active stage\<close>

definition updateStagedBindingPolicyStatusLocked ::
  "('ast, 'prog, 'w) clients \<Rightarrow> string \<Rightarrow> nat \<Rightarrow> 'w resolver \<Rightarrow>
   go_error option outcome \<times> 'w resolver" where
  "updateStagedBindingPolicyStatusLocked c sbpName activeStage r =
     (case sbp_Get c sbpName (world r) of
        (Inl err, w) \<Rightarrow> (Returns (Some err), r\<lparr>world := w\<rparr>)
      | (Inr sbp, w) \<Rightarrow>
          (case stagedBindingPolicies r sbpName of
             None \<Rightarrow> (Panics NilDereference, r\<lparr>world := w\<rparr>)
           | Some sbpData \<Rightarrow>
               (case slice_index (d_stages sbpData) activeStage of
                  Panics p \<Rightarrow> (Panics p, r\<lparr>world := w\<rparr>)
                | Returns stage \<Rightarrow>
                    (case sbp_UpdateStatus c (set_activeStage (stage_name stage) sbp) w of
                       (res, w') \<Rightarrow> (Returns (err_of res), r\<lparr>world := w'\<rparr>)))))"

text \<open>The object the resolver creates for a stage.\<close>

definition stageBindingPolicy ::
  "('ast, 'prog, 'w) clients \<Rightarrow> string \<Rightarrow> stagedBindingPolicyData \<Rightarrow> stage \<Rightarrow> binding_policy"
  where
  "stageBindingPolicy c sbpName sbpData stage =
     \<lparr>bp_meta = zero_meta\<lparr>
        om_name := bindingPolicyName sbpName (stage_name stage),
        om_ownerReferences :=
          [\<lparr>or_apiVersion = groupVersion_String c GroupVersion,
            or_kind = ''StagedBindingPolicy'',
            or_name = sbpName,
            or_uid = d_uid sbpData\<rparr>]\<rparr>,
      bp_downsync = d_downsync sbpData,
      bp_clusterSelectors = stage_clusterSelectors stage\<rparr>"

text \<open>
  \<open>ensureActiveStageLocked\<close> in its three parts: delete the BindingPolicy of the previous
  stage, which need not exist; create that of the active stage and record its UID; write
  the stage's name to the status.
\<close>

definition deletePreviousStage ::
  "('ast, 'prog, 'w) clients \<Rightarrow> string \<Rightarrow> stagedBindingPolicyData \<Rightarrow> 'w resolver \<Rightarrow>
   go_error option outcome \<times> 'w resolver" where
  "deletePreviousStage c sbpName sbpData r =
     (if d_activeIndex sbpData > 0 then
        (case slice_index (d_stages sbpData) (d_activeIndex sbpData - 1) of
           Panics p \<Rightarrow> (Panics p, r)
         | Returns stage \<Rightarrow>
             (case bp_Delete c (bindingPolicyName sbpName (stage_name stage)) (world r) of
                (None, w) \<Rightarrow> (Returns None, r\<lparr>world := w\<rparr>)
              | (Some err, w) \<Rightarrow>
                  (if errors_IsNotFound c err then (Returns None, r\<lparr>world := w\<rparr>)
                   else (Returns (Some (Errorf ''error deleting previous binding policy'' err)),
                         r\<lparr>world := w\<rparr>))))
      else (Returns None, r))"

definition createActiveStage ::
  "('ast, 'prog, 'w) clients \<Rightarrow> string \<Rightarrow> stagedBindingPolicyData \<Rightarrow> 'w resolver \<Rightarrow>
   go_error option outcome \<times> 'w resolver" where
  "createActiveStage c sbpName sbpData r =
     (case slice_index (d_stages sbpData) (d_activeIndex sbpData) of
        Panics p \<Rightarrow> (Panics p, r)
      | Returns stage \<Rightarrow>
          (case bp_Create c (stageBindingPolicy c sbpName sbpData stage) (world r) of
             (Inl err, w) \<Rightarrow> (Returns (Some err), r\<lparr>world := w\<rparr>)
           | (Inr bpEcho, w) \<Rightarrow>
               updateStagedBindingPolicyStatusLocked c sbpName (d_activeIndex sbpData)
                 (update_entry sbpName (\<lambda>d. d\<lparr>d_activeBindingPolicyUID := bp_uid bpEcho\<rparr>)
                    (r\<lparr>world := w\<rparr>))))"

definition ensureActiveStageLocked ::
  "('ast, 'prog, 'w) clients \<Rightarrow> string \<Rightarrow> 'w resolver \<Rightarrow>
   go_error option outcome \<times> 'w resolver" where
  "ensureActiveStageLocked c sbpName r =
     (case stagedBindingPolicies r sbpName of
        None \<Rightarrow> (Panics NilDereference, r)
      | Some sbpData \<Rightarrow>
          st_bind (deletePreviousStage c sbpName sbpData r)
            (\<lambda>err r'. case err of
               Some e \<Rightarrow> (Returns (Some e), r')
             | None \<Rightarrow> createActiveStage c sbpName sbpData r'))"

definition stageUpLocked ::
  "('ast, 'prog, 'w) clients \<Rightarrow> string \<Rightarrow> 'w resolver \<Rightarrow> unit outcome \<times> 'w resolver" where
  "stageUpLocked c sbpName r =
     (case stagedBindingPolicies r sbpName of
        None \<Rightarrow> (Returns (), r)
      | Some sbpData \<Rightarrow>
          (if d_activeIndex sbpData \<ge> length (d_stages sbpData) then (Returns (), r)
           else
             st_bind
               (ensureActiveStageLocked c sbpName
                  (update_entry sbpName (\<lambda>d. d\<lparr>d_activeIndex := d_activeIndex d + 1\<rparr>) r))
               (\<lambda>err r'. case err of
                  Some e \<Rightarrow>
                    (Returns (),
                     update_entry sbpName (\<lambda>d. d\<lparr>d_activeIndex := d_activeIndex d - 1\<rparr>) r')
                | None \<Rightarrow> (Returns (), r'))))"

section \<open>Testing the condition of the active stage\<close>

text \<open>
  The five requirements; their errors are dropped (\<open>groupReq, _ := ...\<close>), so an invalid one
  is a nil pointer that \<open>*groupReq\<close> dereferences.
\<close>

fun deref_all :: "'a option list \<Rightarrow> 'a list outcome" where
  "deref_all [] = Returns []"
| "deref_all (None # ps) = Panics NilDereference"
| "deref_all (Some x # ps) = out_bind (deref_all ps) (\<lambda>xs. Returns (x # xs))"

definition objectLabels ::
  "string \<Rightarrow> stagedBindingPolicyData \<Rightarrow> object_identifier \<Rightarrow> (string \<times> string) list" where
  "objectLabels sbpName sbpData objIdentifier =
     [(CombinedStatusLabelGroup, oi_group objIdentifier),
      (CombinedStatusLabelResource, oi_resource objIdentifier),
      (CombinedStatusLabelNamespace, oi_namespace objIdentifier),
      (CombinedStatusLabelName, oi_name objIdentifier),
      (CombinedStatusLabelBindingPolicy,
        bindingPolicyName sbpName
          (stage_name (d_stages sbpData ! d_activeIndex sbpData)))]"

definition objectSelector ::
  "('ast, 'prog, 'w) clients \<Rightarrow> string \<Rightarrow> stagedBindingPolicyData \<Rightarrow> object_identifier \<Rightarrow>
   selector outcome" where
  "objectSelector c sbpName sbpData objIdentifier =
     deref_all (map (\<lambda>(key, value). labels_NewRequirement c key value)
                  (objectLabels sbpName sbpData objIdentifier))"

text \<open>A nil map is \<open>None\<close>.\<close>

definition serializeObject ::
  "('ast, 'prog, 'w) clients \<Rightarrow> combined_status \<Rightarrow> go_error + go_map option" where
  "serializeObject c obj =
     (case toUnstructured c obj of Inl err \<Rightarrow> Inl err | Inr u \<Rightarrow> Inr u)"

text \<open>The loop over the combined statuses: the last one whose name holds the UID wins; the
  first that cannot be serialized ends the attempt (\<open>Inl\<close>).\<close>

fun serializeRelevant ::
  "('ast, 'prog, 'w) clients \<Rightarrow> string \<Rightarrow> combined_status list \<Rightarrow> go_map option \<Rightarrow>
   go_error + go_map option" where
  "serializeRelevant c uid [] found = Inr found"
| "serializeRelevant c uid (cs # css) found =
     (if strings_Contains (om_name (cs_meta cs)) uid then
        (case serializeObject c cs of
           Inl err \<Rightarrow> Inl err
         | Inr u \<Rightarrow> serializeRelevant c uid css u)
      else serializeRelevant c uid css found)"

text \<open>One turn of the loop over the filtered objects; \<open>False\<close> is a return from the function.\<close>

definition checkObject ::
  "('ast, 'prog, 'w) clients \<Rightarrow> 'w \<Rightarrow> string \<Rightarrow> stagedBindingPolicyData \<Rightarrow> expression \<Rightarrow>
   object_identifier \<Rightarrow> bool outcome" where
  "checkObject c w sbpName sbpData condition objIdentifier =
     out_bind (objectSelector c sbpName sbpData objIdentifier)
       (\<lambda>selector. case combinedStatus_List c selector w of
          Inl err \<Rightarrow> Returns False
        | Inr combinedStatuses \<Rightarrow>
            (if combinedStatuses = [] then Returns False
             else
               (case serializeRelevant c (d_activeBindingPolicyUID sbpData) combinedStatuses None of
                  Inl err \<Rightarrow> Returns False
                | Inr None \<Rightarrow> Returns False
                | Inr (Some m) \<Rightarrow>
                    testExpression (celEvaluator c) condition [(''combinedStatus'', GoMap m)])))"

fun checkObjects ::
  "('ast, 'prog, 'w) clients \<Rightarrow> 'w \<Rightarrow> string \<Rightarrow> stagedBindingPolicyData \<Rightarrow> expression \<Rightarrow>
   object_identifier list \<Rightarrow> bool outcome" where
  "checkObjects c w sbpName sbpData condition [] = Returns True"
| "checkObjects c w sbpName sbpData condition (objIdentifier # os) =
     out_bind (checkObject c w sbpName sbpData condition objIdentifier)
       (\<lambda>b. if b then checkObjects c w sbpName sbpData condition os else Returns False)"

definition attemptConditionLocked ::
  "('ast, 'prog, 'w) clients \<Rightarrow> string \<Rightarrow> 'w resolver \<Rightarrow> unit outcome \<times> 'w resolver" where
  "attemptConditionLocked c sbpName r =
     (case stagedBindingPolicies r sbpName of
        None \<Rightarrow> (Returns (), r)
      | Some sbpData \<Rightarrow>
          (if d_activeIndex sbpData \<ge> length (d_stages sbpData) then (Returns (), r)
           else
             (let stage = d_stages sbpData ! d_activeIndex sbpData in
              case stage_condition stage of
                None \<Rightarrow> (Returns (), r)
              | Some condition \<Rightarrow>
                  (case filterWorkloadForSBP (celEvaluator c)
                          (bs_workload (d_bindingSpec sbpData)) (stage_filter stage) of
                     Panics p \<Rightarrow> (Panics p, r)
                   | Returns filteredObjIdentifiers \<Rightarrow>
                       (if filteredObjIdentifiers = [] then (Returns (), r)
                        else
                          (case checkObjects c (world r) sbpName sbpData condition
                                  (range_objs c (world r) filteredObjIdentifiers) of
                             Panics p \<Rightarrow> (Panics p, r)
                           | Returns b \<Rightarrow>
                               (if b then stageUpLocked c sbpName r else (Returns (), r))))))))"

section \<open>The public operations\<close>

fun findActiveStage :: "string \<Rightarrow> nat \<Rightarrow> stage list \<Rightarrow> nat" where
  "findActiveStage s i [] = 0"
| "findActiveStage s i (stage # stages) =
     (if stage_name stage = s then i else findActiveStage s (i + 1) stages)"

definition activeStageIndex :: "staged_binding_policy \<Rightarrow> nat" where
  "activeStageIndex sbp =
     (if status_activeStage (sbp_status sbp) \<noteq> [] then
        findActiveStage (status_activeStage (sbp_status sbp)) 0 (spec_stages (sbp_spec sbp))
      else 0)"

definition newPolicyData :: "staged_binding_policy \<Rightarrow> stagedBindingPolicyData" where
  "newPolicyData sbp =
     \<lparr>d_uid = sbp_uid sbp, d_downsync = spec_downsync (sbp_spec sbp),
      d_stages = spec_stages (sbp_spec sbp), d_activeIndex = activeStageIndex sbp,
      d_activeBindingPolicyUID = [], d_bindingSpec = zero_bindingSpec\<rparr>"

definition NoteStagedBindingPolicy ::
  "('ast, 'prog, 'w) clients \<Rightarrow> staged_binding_policy \<Rightarrow> 'w resolver \<Rightarrow>
   go_error option outcome \<times> 'w resolver" where
  "NoteStagedBindingPolicy c sbp r =
     st_bind
       (ensureActiveStageLocked c (sbp_name sbp)
          (r\<lparr>stagedBindingPolicies :=
              (stagedBindingPolicies r)(sbp_name sbp \<mapsto> newPolicyData sbp)\<rparr>))
       (\<lambda>err r'. case err of
          Some e \<Rightarrow> (Returns (Some e), r')
        | None \<Rightarrow>
            st_bind (attemptConditionLocked c (sbp_name sbp) r')
              (\<lambda>_ r''. (Returns None, r'')))"

definition DeleteStagedBindingPolicy ::
  "string \<Rightarrow> 'w resolver \<Rightarrow> unit outcome \<times> 'w resolver" where
  "DeleteStagedBindingPolicy sbpName r =
     (Returns (), r\<lparr>stagedBindingPolicies := (stagedBindingPolicies r)(sbpName := None)\<rparr>)"

definition ownerUID :: "binding \<Rightarrow> string" where
  "ownerUID b = (case om_ownerReferences (b_meta b) of [] \<Rightarrow> [] | ref # _ \<Rightarrow> or_uid ref)"

definition NoteBinding ::
  "('ast, 'prog, 'w) clients \<Rightarrow> binding \<Rightarrow> 'w resolver \<Rightarrow> unit outcome \<times> 'w resolver" where
  "NoteBinding c b r =
     (case associatedName (om_name (b_meta b)) of
        None \<Rightarrow> (Returns (), r)
      | Some associatedBindingName \<Rightarrow>
          (case stagedBindingPolicies r associatedBindingName of
             None \<Rightarrow> (Returns (), r)
           | Some sbpData \<Rightarrow>
               (if d_activeBindingPolicyUID sbpData \<noteq> ownerUID b then (Returns (), r)
                else
                  attemptConditionLocked c associatedBindingName
                    (update_entry associatedBindingName
                       (\<lambda>d. d\<lparr>d_bindingSpec := b_spec b\<rparr>) r))))"

fun attemptMatching ::
  "('ast, 'prog, 'w) clients \<Rightarrow> string \<Rightarrow> string list \<Rightarrow> 'w resolver \<Rightarrow>
   unit outcome \<times> 'w resolver" where
  "attemptMatching c associatedBindingName [] r = (Returns (), r)"
| "attemptMatching c associatedBindingName (sbpName # names) r =
     (if sbpName \<noteq> associatedBindingName then attemptMatching c associatedBindingName names r
      else st_bind (attemptConditionLocked c sbpName r)
             (\<lambda>_ r'. attemptMatching c associatedBindingName names r'))"

definition bindingPolicyLabel :: "combined_status \<Rightarrow> string" where
  "bindingPolicyLabel cs =
     (case om_labels (cs_meta cs) CombinedStatusLabelBindingPolicy of
        None \<Rightarrow> [] | Some v \<Rightarrow> v)"

definition NoteCombinedStatus ::
  "('ast, 'prog, 'w) clients \<Rightarrow> combined_status \<Rightarrow> 'w resolver \<Rightarrow>
   unit outcome \<times> 'w resolver" where
  "NoteCombinedStatus c cs r =
     (if bindingPolicyLabel cs = [] then (Returns (), r)
      else
        (case associatedName (bindingPolicyLabel cs) of
           None \<Rightarrow> (Returns (), r)
         | Some associatedBindingName \<Rightarrow>
             attemptMatching c associatedBindingName
               (range_keys c (world r) (dom (stagedBindingPolicies r))) r))"

end
