(* ===== verification/Resolver_Frame.thy ===== *)
theory Resolver_Frame
  imports Resolver
begin

text \<open>
  What the resolver's operations leave alone. Each internal operation works on one policy:
  the other entries of the map stay as they are, and of its own entry only the index of the
  active stage and the UID of its BindingPolicy change.
\<close>

section \<open>Entries\<close>

lemma update_entry_same [simp]:
  "stagedBindingPolicies (update_entry n f r) n = map_option f (stagedBindingPolicies r n)"
  by (simp add: update_entry_def)

lemma update_entry_other [simp]:
  "m \<noteq> n \<Longrightarrow> stagedBindingPolicies (update_entry n f r) m = stagedBindingPolicies r m"
  by (simp add: update_entry_def)

lemma update_entry_world [simp]: "world (update_entry n f r) = world r"
  by (simp add: update_entry_def)

lemma update_entry_Some:
  "stagedBindingPolicies r n = Some d \<Longrightarrow>
   stagedBindingPolicies (update_entry n f r) = (stagedBindingPolicies r)(n \<mapsto> f d)"
  by (simp add: update_entry_def)

lemma same_uid: "m n = Some d \<Longrightarrow> \<exists>u. m = m(n \<mapsto> d\<lparr>d_activeBindingPolicyUID := u\<rparr>)"
  by (rule exI [of _ "d_activeBindingPolicyUID d"]) (simp add: fun_upd_idem)

section \<open>The entry after each step of a deployment\<close>

lemma updateStatus_entries [frame_simps]:
  "stagedBindingPolicies (snd (updateStagedBindingPolicyStatusLocked c n i r)) =
   stagedBindingPolicies r"
  by (auto simp: updateStagedBindingPolicyStatusLocked_def
      split: prod.splits sum.splits option.splits outcome.splits)

lemma deletePrevious_entries [frame_simps]:
  "stagedBindingPolicies (snd (deletePreviousStage c n d r)) = stagedBindingPolicies r"
  by (auto simp: deletePreviousStage_def split: prod.splits outcome.splits option.splits)

lemma createActive_entries:
  assumes "stagedBindingPolicies r n = Some d0"
  shows "\<exists>u. stagedBindingPolicies (snd (createActiveStage c n d r)) =
    (stagedBindingPolicies r)(n \<mapsto> d0\<lparr>d_activeBindingPolicyUID := u\<rparr>)"
proof (cases "slice_index (d_stages d) (d_activeIndex d)")
  case (Returns st)
  obtain res w where res: "bp_Create c (stageBindingPolicy c n d st) (world r) = (res, w)"
    by fastforce
  show ?thesis
  proof (cases res)
    case (Inl e)
    with Returns res have "stagedBindingPolicies (snd (createActiveStage c n d r)) =
        stagedBindingPolicies r" by (simp add: createActiveStage_def)
    with same_uid [of "stagedBindingPolicies r", OF assms] show ?thesis by metis
  next
    case (Inr echo)
    with Returns res assms show ?thesis
      by (auto simp: createActiveStage_def frame_simps update_entry_def)
  qed
next
  case (Panics p)
  with same_uid [of "stagedBindingPolicies r", OF assms] show ?thesis
    by (simp add: createActiveStage_def)
qed

lemma ensureActive_entries:
  assumes "stagedBindingPolicies r n = Some d"
  shows "\<exists>u. stagedBindingPolicies (snd (ensureActiveStageLocked c n r)) =
    (stagedBindingPolicies r)(n \<mapsto> d\<lparr>d_activeBindingPolicyUID := u\<rparr>)"
proof -
  obtain o1 r1 where del: "deletePreviousStage c n d r = (o1, r1)" by fastforce
  then have r1: "stagedBindingPolicies r1 = stagedBindingPolicies r"
    using deletePrevious_entries [of c n d r] by simp
  show ?thesis
  proof (cases "o1 = Returns None")
    case True
    with del assms createActive_entries [of r1 n d c d] r1 show ?thesis
      by (auto simp: ensureActiveStageLocked_def)
  next
    case False
    with del assms have "snd (ensureActiveStageLocked c n r) = r1"
      by (cases o1) (auto simp: ensureActiveStageLocked_def split: option.splits)
    with r1 same_uid [of "stagedBindingPolicies r", OF assms] show ?thesis by metis
  qed
qed

text \<open>The result of staging up: the index moves by one, unless an error reverts it.\<close>

lemma stageUp_entries:
  assumes "stagedBindingPolicies r n = Some d"
    and "stageUpLocked c n r = (res, r')"
  shows "\<exists>u i. stagedBindingPolicies r' =
      (stagedBindingPolicies r)(n \<mapsto> d\<lparr>d_activeIndex := i, d_activeBindingPolicyUID := u\<rparr>) \<and>
    (i = d_activeIndex d \<or> i = Suc (d_activeIndex d) \<and> d_activeIndex d < length (d_stages d))"
proof (cases "d_activeIndex d < length (d_stages d)")
  case False
  with assms have "r' = r" by (simp add: stageUpLocked_def)
  with assms(1) show ?thesis
    by (intro exI [of _ "d_activeBindingPolicyUID d"] exI [of _ "d_activeIndex d"])
       (simp add: fun_upd_idem)
next
  case True
  let ?d1 = "d\<lparr>d_activeIndex := d_activeIndex d + 1\<rparr>"
  let ?r1 = "update_entry n (\<lambda>d. d\<lparr>d_activeIndex := d_activeIndex d + 1\<rparr>) r"
  have "stagedBindingPolicies ?r1 n = Some ?d1" using assms(1) by simp
  from ensureActive_entries [OF this, of c] obtain u where
    u: "stagedBindingPolicies (snd (ensureActiveStageLocked c n ?r1)) =
        (stagedBindingPolicies ?r1)(n \<mapsto> ?d1\<lparr>d_activeBindingPolicyUID := u\<rparr>)" by blast
  obtain o2 r2 where ens: "ensureActiveStageLocked c n ?r1 = (o2, r2)" by fastforce
  have r2: "stagedBindingPolicies r2 =
      (stagedBindingPolicies r)(n \<mapsto> ?d1\<lparr>d_activeBindingPolicyUID := u\<rparr>)"
    using u ens assms(1) by (simp add: update_entry_Some)
  show ?thesis
  proof (cases "\<exists>e. o2 = Returns (Some e)")
    case True
    then have "stagedBindingPolicies r' = (stagedBindingPolicies r)(n \<mapsto>
        d\<lparr>d_activeIndex := d_activeIndex d, d_activeBindingPolicyUID := u\<rparr>)"
      using ens r2 assms \<open>d_activeIndex d < length (d_stages d)\<close>
      by (auto simp: stageUpLocked_def update_entry_def)
    then show ?thesis by blast
  next
    case False
    then have "stagedBindingPolicies r' = (stagedBindingPolicies r)(n \<mapsto>
        d\<lparr>d_activeIndex := Suc (d_activeIndex d), d_activeBindingPolicyUID := u\<rparr>)"
      using ens r2 assms \<open>d_activeIndex d < length (d_stages d)\<close>
      by (cases o2) (auto simp: stageUpLocked_def split: option.splits)
    with True show ?thesis by blast
  qed
qed

lemma attempt_cases:
  "attemptConditionLocked c n r = stageUpLocked c n r \<or>
   (\<exists>res. attemptConditionLocked c n r = (res, r))"
  by (auto simp: attemptConditionLocked_def Let_def split: option.splits outcome.splits)

lemma attempt_entries:
  assumes "stagedBindingPolicies r n = Some d"
    and "attemptConditionLocked c n r = (res, r')"
  shows "\<exists>u i. stagedBindingPolicies r' =
      (stagedBindingPolicies r)(n \<mapsto> d\<lparr>d_activeIndex := i, d_activeBindingPolicyUID := u\<rparr>) \<and>
    (i = d_activeIndex d \<or> i = Suc (d_activeIndex d) \<and> d_activeIndex d < length (d_stages d))"
  using attempt_cases [of c n r]
proof
  assume "attemptConditionLocked c n r = stageUpLocked c n r"
  with assms show ?thesis using stageUp_entries [OF assms(1)] by simp
next
  assume "\<exists>res. attemptConditionLocked c n r = (res, r)"
  with assms show ?thesis
    by (intro exI [of _ "d_activeBindingPolicyUID d"] exI [of _ "d_activeIndex d"])
       (auto simp: fun_upd_idem)
qed

lemma attempt_None: "stagedBindingPolicies r n = None \<Longrightarrow>
   attemptConditionLocked c n r = (Returns (), r)"
  by (simp add: attemptConditionLocked_def)

section \<open>The relation between the states before and after\<close>

text \<open>
  \<open>advances n r r'\<close>: the map of tracked policies is that of \<open>r\<close>, but for the active index
  and BindingPolicy UID of \<open>n\<close>, and the index has moved on by at most one.
\<close>

definition advances :: "string \<Rightarrow> 'w resolver \<Rightarrow> 'w resolver \<Rightarrow> bool" where
  "advances n r r' \<longleftrightarrow>
     (case stagedBindingPolicies r n of
        None \<Rightarrow> stagedBindingPolicies r' = stagedBindingPolicies r
      | Some d \<Rightarrow>
          (\<exists>u i. stagedBindingPolicies r' = (stagedBindingPolicies r)
               (n \<mapsto> d\<lparr>d_activeIndex := i, d_activeBindingPolicyUID := u\<rparr>) \<and>
             (i = d_activeIndex d \<or>
              i = Suc (d_activeIndex d) \<and> d_activeIndex d < length (d_stages d))))"

lemma attempt_advances: "advances n r (snd (attemptConditionLocked c n r))"
proof (cases "stagedBindingPolicies r n")
  case None
  then show ?thesis by (simp add: advances_def attempt_None)
next
  case (Some d)
  then show ?thesis
    using attempt_entries [OF Some, of c]
    by (cases "attemptConditionLocked c n r") (simp add: advances_def)
qed

lemma advances_other:
  "advances n r r' \<Longrightarrow> m \<noteq> n \<Longrightarrow> stagedBindingPolicies r' m = stagedBindingPolicies r m"
  by (auto simp: advances_def split: option.splits)

lemma advances_dom: "advances n r r' \<Longrightarrow>
   dom (stagedBindingPolicies r') = dom (stagedBindingPolicies r)"
  by (auto simp: advances_def split: option.splits if_splits)

lemma advances_Some:
  assumes "advances n r r'" and "stagedBindingPolicies r m = Some d"
  obtains d' where "stagedBindingPolicies r' m = Some d'"
    and "d_uid d' = d_uid d" and "d_downsync d' = d_downsync d"
    and "d_stages d' = d_stages d" and "d_bindingSpec d' = d_bindingSpec d"
    and "d_activeIndex d \<le> d_activeIndex d'"
    and "d_activeIndex d' \<le> Suc (d_activeIndex d)"
  using assms by (cases "m = n") (auto simp: advances_def split: option.splits)

section \<open>Ranging over the map of policies\<close>

text \<open>
  The loop of \<open>NoteCombinedStatus\<close> over all tracked policies does the work of one lookup,
  whatever the order of the keys.
\<close>

lemma attemptMatching_absent:
  "n \<notin> set ks \<Longrightarrow> attemptMatching c n ks r = (Returns (), r)"
  by (induction ks) auto

lemma attemptMatching_distinct:
  "distinct ks \<Longrightarrow> n \<in> set ks \<Longrightarrow> attemptMatching c n ks r = attemptConditionLocked c n r"
proof (induction ks)
  case Nil
  then show ?case by simp
next
  case (Cons k ks)
  show ?case
  proof (cases "k = n")
    case True
    with Cons.prems have "n \<notin> set ks" by simp
    then have "st_bind (attemptConditionLocked c n r) (\<lambda>_ r'. attemptMatching c n ks r') =
        st_bind (attemptConditionLocked c n r) (\<lambda>_ r'. (Returns (), r'))"
      by (simp add: attemptMatching_absent)
    also have "\<dots> = attemptConditionLocked c n r"
      by (cases "attemptConditionLocked c n r"; cases "fst (attemptConditionLocked c n r)") auto
    finally show ?thesis using True by simp
  next
    case False
    with Cons show ?thesis by auto
  qed
qed

text \<open>The Go runtime's promise about ranging over a map: every key, once.\<close>

definition ranges_keys :: "('ast, 'prog, 'w) clients \<Rightarrow> bool" where
  "ranges_keys c \<longleftrightarrow>
     (\<forall>w ks. finite ks \<longrightarrow> set (range_keys c w ks) = ks \<and> distinct (range_keys c w ks))"

lemma attemptMatching_lookup:
  assumes "ranges_keys c" and "finite (dom (stagedBindingPolicies r))"
  shows "attemptMatching c n (range_keys c (world r) (dom (stagedBindingPolicies r))) r =
    attemptConditionLocked c n r"
proof (cases "n \<in> dom (stagedBindingPolicies r)")
  case True
  with assms show ?thesis by (intro attemptMatching_distinct) (auto simp: ranges_keys_def)
next
  case False
  with assms have "n \<notin> set (range_keys c (world r) (dom (stagedBindingPolicies r)))"
    by (auto simp: ranges_keys_def)
  moreover have "stagedBindingPolicies r n = None" using False by auto
  ultimately show ?thesis by (simp add: attemptMatching_absent attempt_None)
qed

end
