(* ===== verification/Resolver_Condition.thy ===== *)
theory Resolver_Condition
  imports Resolver_Frame
begin

text \<open>
  The condition of the active stage: a declarative reading of \<open>attemptConditionLocked\<close>
  (\<open>stageFulfilled\<close>) and the proof that the code computes it, in whatever order the runtime
  ranges over the filtered objects.
\<close>

section \<open>The relevant combined status of an object\<close>

definition relevantStatuses :: "string \<Rightarrow> combined_status list \<Rightarrow> combined_status list" where
  "relevantStatuses uid css = filter (\<lambda>cs. strings_Contains (om_name (cs_meta cs)) uid) css"

lemma serializeRelevant_Inr:
  "serializeRelevant c uid css found = Inr g \<longleftrightarrow>
   (\<forall>cs\<in>set (relevantStatuses uid css). \<exists>u. toUnstructured c cs = Inr u) \<and>
   (if relevantStatuses uid css = [] then g = found
    else toUnstructured c (last (relevantStatuses uid css)) = Inr g)"
proof (induction css arbitrary: found)
  case Nil
  then show ?case by (auto simp: relevantStatuses_def)
next
  case (Cons cs css)
  show ?case
  proof (cases "strings_Contains (om_name (cs_meta cs)) uid")
    case False
    with Cons.IH [of found] show ?thesis by (simp add: relevantStatuses_def)
  next
    case True
    show ?thesis
    proof (cases "toUnstructured c cs")
      case (Inl e)
      with True show ?thesis by (simp add: relevantStatuses_def serializeObject_def)
    next
      case (Inr u)
      with True Cons.IH [of u] show ?thesis
        by (auto simp: relevantStatuses_def serializeObject_def)
    qed
  qed
qed

section \<open>One object\<close>

definition objectFulfilled ::
  "('ast, 'prog, 'w) clients \<Rightarrow> 'w \<Rightarrow> string \<Rightarrow> stagedBindingPolicyData \<Rightarrow> expression \<Rightarrow>
   object_identifier \<Rightarrow> bool" where
  "objectFulfilled c w n d condition obj \<longleftrightarrow>
     (\<exists>sel css m.
        objectSelector c n d obj = Returns sel \<and>
        combinedStatus_List c sel w = Inr css \<and>
        (let rel = relevantStatuses (d_activeBindingPolicyUID d) css in
         (\<forall>cs\<in>set rel. \<exists>u. toUnstructured c cs = Inr u) \<and>
         rel \<noteq> [] \<and> toUnstructured c (last rel) = Inr (Some m)) \<and>
        testExpression (celEvaluator c) condition [(''combinedStatus'', GoMap m)] = Returns True)"

lemma checkObject_True:
  "checkObject c w n d cond obj = Returns True \<longleftrightarrow> objectFulfilled c w n d cond obj"
proof
  assume L: "checkObject c w n d cond obj = Returns True"
  then obtain sel where sel: "objectSelector c n d obj = Returns sel"
    by (auto simp: checkObject_def out_bind_Returns_iff)
  with L obtain css where css: "combinedStatus_List c sel w = Inr css"
    by (cases "combinedStatus_List c sel w") (auto simp: checkObject_def)
  with L sel obtain m where
      m: "serializeRelevant c (d_activeBindingPolicyUID d) css None = Inr (Some m)"
    by (auto simp: checkObject_def split: if_splits sum.splits option.splits)
  with L sel css have
      "testExpression (celEvaluator c) cond [(''combinedStatus'', GoMap m)] = Returns True"
    by (auto simp: checkObject_def split: if_splits)
  note * = sel css m this
  from *(3) show "objectFulfilled c w n d cond obj"
    unfolding objectFulfilled_def serializeRelevant_Inr using *(1,2,4)
    by (auto simp: Let_def split: if_splits)
next
  assume "objectFulfilled c w n d cond obj"
  then obtain sel css m where *: "objectSelector c n d obj = Returns sel"
      "combinedStatus_List c sel w = Inr css"
      "serializeRelevant c (d_activeBindingPolicyUID d) css None = Inr (Some m)"
      "testExpression (celEvaluator c) cond [(''combinedStatus'', GoMap m)] = Returns True"
    by (auto simp: objectFulfilled_def serializeRelevant_Inr Let_def)
  then have "css \<noteq> []" by auto
  with * show "checkObject c w n d cond obj = Returns True" by (simp add: checkObject_def)
qed

text \<open>When the labels are valid and CEL keeps its promise, testing an object cannot panic.\<close>

definition labelsValid ::
  "('ast, 'prog, 'w) clients \<Rightarrow> string \<Rightarrow> stagedBindingPolicyData \<Rightarrow> object_identifier \<Rightarrow> bool"
  where
  "labelsValid c n d obj \<longleftrightarrow>
     (\<forall>(key, value) \<in> set (objectLabels n d obj). labels_NewRequirement c key value \<noteq> None)"

lemma deref_all_Returns: "None \<notin> set ps \<Longrightarrow> deref_all ps = Returns (map the ps)"
  by (induction ps rule: deref_all.induct) auto

lemma deref_all_Panics: "None \<in> set ps \<Longrightarrow> deref_all ps = Panics NilDereference"
  by (induction ps rule: deref_all.induct) auto

lemma objectSelector_valid:
  "labelsValid c n d obj \<longleftrightarrow> (\<exists>sel. objectSelector c n d obj = Returns sel)"
proof -
  have "labelsValid c n d obj \<longleftrightarrow>
      None \<notin> set (map (\<lambda>(key, value). labels_NewRequirement c key value) (objectLabels n d obj))"
    by (force simp: labelsValid_def)
  then show ?thesis
    using deref_all_Returns deref_all_Panics unfolding objectSelector_def by fastforce
qed

lemma objectSelector_invalid:
  "\<not> labelsValid c n d obj \<Longrightarrow> objectSelector c n d obj = Panics NilDereference"
proof -
  assume "\<not> labelsValid c n d obj"
  then have "None \<in> set (map (\<lambda>(key, value). labels_NewRequirement c key value)
      (objectLabels n d obj))"
    by (force simp: labelsValid_def)
  then show ?thesis by (simp add: objectSelector_def deref_all_Panics)
qed

lemma checkObject_total:
  assumes "labelsValid c n d obj" and "cel_bools_native (celEvaluator c)"
  shows "\<exists>b. checkObject c w n d cond obj = Returns b"
  using assms testExpression_total [OF assms(2)]
  by (auto simp: checkObject_def objectSelector_valid split: sum.splits option.splits)

section \<open>All objects, in any order\<close>

lemma checkObjects_True:
  "checkObjects c w n d cond os = Returns True \<longleftrightarrow>
   (\<forall>obj\<in>set os. checkObject c w n d cond obj = Returns True)"
  by (induction os) (auto simp: out_bind_Returns_iff)

lemma checkObjects_total:
  "(\<And>obj. obj \<in> set os \<Longrightarrow> \<exists>b. checkObject c w n d cond obj = Returns b) \<Longrightarrow>
   \<exists>b. checkObjects c w n d cond os = Returns b"
proof (induction os)
  case Nil
  then show ?case by (auto intro: exI [of _ True])
next
  case (Cons obj os)
  from Cons.prems obtain b where "checkObject c w n d cond obj = Returns b" by fastforce
  with Cons show ?case by (cases b) auto
qed

text \<open>
  The informer's cache is not under the resolver's lock, so it can change from one object to the
  next. That is no other behaviour: an attempt asks for each object once, with a selector of its
  own, so answers of different times are also the answers of one world, and \<open>combinedStatus_List\<close>
  and \<open>'w\<close> are arbitrary. The worlds in the list are those the objects are looked up in.
\<close>

fun checkObjects_moving ::
  "('ast, 'prog, 'w) clients \<Rightarrow> string \<Rightarrow> stagedBindingPolicyData \<Rightarrow> expression \<Rightarrow>
   ('w \<times> object_identifier) list \<Rightarrow> bool outcome" where
  "checkObjects_moving c sbpName sbpData condition [] = Returns True"
| "checkObjects_moving c sbpName sbpData condition ((w, objIdentifier) # os) =
     out_bind (checkObject c w sbpName sbpData condition objIdentifier)
       (\<lambda>b. if b then checkObjects_moving c sbpName sbpData condition os else Returns False)"

text \<open>A requirement says its key and its value; the identifiers are those the filter makes.\<close>

definition requirements_say :: "('ast, 'prog, 'w) clients \<Rightarrow> bool" where
  "requirements_say c \<longleftrightarrow> (\<forall>k v q. labels_NewRequirement c k v = Some q \<longrightarrow> q = Requirement k v)"

definition plain_identifier :: "object_identifier \<Rightarrow> bool" where
  "plain_identifier obj \<longleftrightarrow> oi_version obj = [] \<and> oi_kind obj = oi_resource obj"

lemma filtered_plain:
  assumes "filterWorkloadForSBP e w x = Returns F" and "obj \<in> set F"
  shows "plain_identifier obj"
proof -
  have "plain_identifier (clusterScope_identifier cl)" "plain_identifier (namespaceScope_identifier ns)"
    for cl ns
    by (simp_all add: plain_identifier_def clusterScope_identifier_def namespaceScope_identifier_def)
  with assms(2) show ?thesis unfolding filterWorkload_set [OF assms(1)] by blast
qed

lemma deref_all_eq_Returns: "deref_all ps = Returns xs \<longleftrightarrow> ps = map Some xs"
  by (induction ps arbitrary: xs rule: deref_all.induct) (auto simp: out_bind_Returns_iff)

lemma objectSelector_inj:
  assumes "requirements_say c" and "plain_identifier x" "plain_identifier y"
    and "objectSelector c n d x = Returns sel" "objectSelector c n d y = Returns sel"
  shows "x = y"
proof -
  let ?f = "\<lambda>(key, value). labels_NewRequirement c key value"
  have same: "v = v'" if "?f (k, v) = Some q" "?f (k, v') = Some q" for k v v' q
  proof -
    have "q = Requirement k v" "q = Requirement k v'"
      using assms(1) that by (simp_all add: requirements_say_def)
    then show ?thesis by simp
  qed
  have sel: "map ?f (objectLabels n d x) = map Some sel" "map ?f (objectLabels n d y) = map Some sel"
    using assms(4,5) by (simp_all add: objectSelector_def deref_all_eq_Returns)
  have "snd (objectLabels n d x ! i) = snd (objectLabels n d y ! i)" if "i < 4" for i
  proof -
    have i: "i < length (objectLabels n d x)" "i < length (objectLabels n d y)"
      using that by (simp_all add: objectLabels_def)
    have "fst (objectLabels n d x ! i) = fst (objectLabels n d y ! i)"
      using that by (auto simp: objectLabels_def nth_Cons less_Suc_eq numeral_eq_Suc split: nat.splits)
    moreover have "?f (objectLabels n d x ! i) = Some (sel ! i)"
      "?f (objectLabels n d y ! i) = Some (sel ! i)"
      using arg_cong [OF sel(1), of "\<lambda>l. l ! i"] arg_cong [OF sel(2), of "\<lambda>l. l ! i"] i
        arg_cong [OF sel(1), of length] arg_cong [OF sel(2), of length] by simp_all
    ultimately show ?thesis using same by (metis prod.collapse)
  qed
  from this [of 0] this [of 1] this [of 2] this [of 3]
  have "oi_group x = oi_group y \<and> oi_resource x = oi_resource y \<and>
      oi_namespace x = oi_namespace y \<and> oi_name x = oi_name y"
    by (simp add: objectLabels_def)
  with assms(2,3) show ?thesis by (simp add: plain_identifier_def)
qed

text \<open>A lister that answers by selector.\<close>

abbreviation answering ::
  "(selector \<Rightarrow> go_error + combined_status list) \<Rightarrow> ('ast, 'prog, 'w) clients \<Rightarrow>
   ('ast, 'prog, 'w) clients" where
  "answering a c \<equiv> c\<lparr>combinedStatus_List := (\<lambda>sel w. a sel)\<rparr>"

lemma answering_simps [simp]:
  "objectSelector (answering a c) n d x = objectSelector c n d x"
  "serializeRelevant (answering a c) u css g = serializeRelevant c u css g"
proof -
  show "serializeRelevant (answering a c) u css g = serializeRelevant c u css g"
    by (induction css arbitrary: g) (simp_all add: serializeObject_def split: sum.split)
qed (simp add: objectSelector_def)

lemma checkObject_answering:
  assumes "\<And>s. objectSelector c n d x = Returns s \<Longrightarrow> a s = combinedStatus_List c' s v"
    and "celEvaluator c' = celEvaluator c" "\<And>y. objectSelector c' n d y = objectSelector c n d y"
    and "\<And>u css g. serializeRelevant c' u css g = serializeRelevant c u css g"
  shows "checkObject (answering a c) w n d cond x = checkObject c' v n d cond x"
  using assms
  by (cases "objectSelector c n d x")
     (auto simp: checkObject_def split: sum.splits option.splits)

lemma checkObjects_moving_eq:
  assumes "requirements_say c" and "distinct (map snd ps)"
    and "\<And>obj. obj \<in> set (map snd ps) \<Longrightarrow> plain_identifier obj"
  shows "\<exists>a. \<forall>w. checkObjects (answering a c) w n d cond (map snd ps) =
    checkObjects_moving c n d cond ps"
  using assms(2,3)
proof (induction ps)
  case Nil
  then show ?case by simp
next
  case (Cons p ps)
  obtain v obj where p: "p = (v, obj)" by fastforce
  from Cons obtain a where IH: "checkObjects (answering a c) w n d cond (map snd ps) =
      checkObjects_moving c n d cond ps" for w by auto
  define a' where "a' s = (if objectSelector c n d obj = Returns s
      then combinedStatus_List c s v else a s)" for s
  have "checkObjects (answering a' c) w n d cond xs = checkObjects (answering a c) w n d cond xs"
    if "set xs \<subseteq> set (map snd ps)" for xs w
    using that
  proof (induction xs)
    case (Cons x xs)
    then have "x \<noteq> obj" "plain_identifier x" "plain_identifier obj"
      using \<open>distinct (map snd (p # ps))\<close> p
        \<open>\<And>obj. obj \<in> set (map snd (p # ps)) \<Longrightarrow> plain_identifier obj\<close> by auto
    then have "a' s = a s" if "objectSelector c n d x = Returns s" for s
      using objectSelector_inj [OF assms(1)] that by (auto simp: a'_def)
    then have "checkObject (answering a' c) w n d cond x = checkObject (answering a c) w n d cond x"
      by (intro checkObject_answering) simp_all
    with Cons show ?case by (simp cong: if_cong)
  qed simp
  moreover have "checkObject (answering a' c) w n d cond obj = checkObject c v n d cond obj" for w
    by (rule checkObject_answering) (simp_all add: a'_def)
  ultimately show ?case by (intro exI [of _ a']) (simp add: p IH cong: if_cong)
qed

text \<open>The Go runtime's promise about ranging over a set: every element.\<close>

definition ranges_objs :: "('ast, 'prog, 'w) clients \<Rightarrow> bool" where
  "ranges_objs c \<longleftrightarrow> (\<forall>w os. set (range_objs c w os) = set os)"

section \<open>The fulfilled stage\<close>

text \<open>
  The active stage of a policy is fulfilled when it has a condition, the filter keeps at
  least one object of the Binding's workload, and for each object kept the condition tests
  true on its relevant combined status.
\<close>

definition stageFulfilled ::
  "('ast, 'prog, 'w) clients \<Rightarrow> 'w \<Rightarrow> string \<Rightarrow> stagedBindingPolicyData \<Rightarrow> bool" where
  "stageFulfilled c w n d \<longleftrightarrow>
     d_activeIndex d < length (d_stages d) \<and>
     (let stage = d_stages d ! d_activeIndex d in
      \<exists>condition F.
        stage_condition stage = Some condition \<and>
        filterWorkloadForSBP (celEvaluator c) (bs_workload (d_bindingSpec d))
          (stage_filter stage) = Returns F \<and>
        F \<noteq> [] \<and>
        (\<forall>obj\<in>set F. objectFulfilled c w n d condition obj))"

text \<open>The labels of every object the filter keeps are valid label values.\<close>

definition workloadLabelsValid ::
  "('ast, 'prog, 'w) clients \<Rightarrow> string \<Rightarrow> stagedBindingPolicyData \<Rightarrow> bool" where
  "workloadLabelsValid c n d \<longleftrightarrow>
     (d_activeIndex d < length (d_stages d) \<longrightarrow>
      (\<forall>F. filterWorkloadForSBP (celEvaluator c) (bs_workload (d_bindingSpec d))
             (stage_filter (d_stages d ! d_activeIndex d)) = Returns F \<longrightarrow>
           (\<forall>obj\<in>set F. labelsValid c n d obj)))"

text \<open>Soundness: whatever panics, the state changes only by staging up a fulfilled stage.\<close>

lemma attempt_sound:
  assumes "ranges_objs c" and "stagedBindingPolicies r n = Some d"
  shows "(\<exists>res. attemptConditionLocked c n r = (res, r)) \<or>
    stageFulfilled c (world r) n d \<and> attemptConditionLocked c n r = stageUpLocked c n r"
proof (cases "\<exists>res. attemptConditionLocked c n r = (res, r)")
  case False
  then obtain cond F where
      a: "d_activeIndex d < length (d_stages d)"
      "stage_condition (d_stages d ! d_activeIndex d) = Some cond"
      "filterWorkloadForSBP (celEvaluator c) (bs_workload (d_bindingSpec d))
         (stage_filter (d_stages d ! d_activeIndex d)) = Returns F" "F \<noteq> []"
      "checkObjects c (world r) n d cond (range_objs c (world r) F) = Returns True"
      "attemptConditionLocked c n r = stageUpLocked c n r"
    using assms(2)
    by (auto simp: attemptConditionLocked_def Let_def
        split: option.splits outcome.splits if_splits)
  moreover have "\<forall>obj\<in>set F. objectFulfilled c (world r) n d cond obj"
    using a(5) assms(1) by (auto simp: checkObjects_True checkObject_True ranges_objs_def)
  ultimately show ?thesis by (auto simp: stageFulfilled_def Let_def)
qed simp

text \<open>The equivalence, where nothing the attempt touches can panic.\<close>

lemma attempt_eq:
  assumes objs: "ranges_objs c" and cel: "cel_bools_native (celEvaluator c)"
    and d: "stagedBindingPolicies r n = Some d"
    and labels: "workloadLabelsValid c n d"
  shows "attemptConditionLocked c n r =
    (if stageFulfilled c (world r) n d then stageUpLocked c n r else (Returns (), r))"
proof (cases "d_activeIndex d < length (d_stages d) \<and>
    stage_condition (d_stages d ! d_activeIndex d) \<noteq> None")
  case False
  with d show ?thesis
    by (auto simp: attemptConditionLocked_def stageFulfilled_def Let_def split: option.splits)
next
  case True
  then obtain cond where i: "d_activeIndex d < length (d_stages d)"
    and cond: "stage_condition (d_stages d ! d_activeIndex d) = Some cond" by auto
  obtain F where F: "filterWorkloadForSBP (celEvaluator c) (bs_workload (d_bindingSpec d))
      (stage_filter (d_stages d ! d_activeIndex d)) = Returns F"
    using filterWorkload_total [OF cel] by blast
  let ?os = "range_objs c (world r) F"
  have os: "set ?os = set F" using objs by (simp add: ranges_objs_def)
  have "\<exists>b. checkObjects c (world r) n d cond ?os = Returns b"
    using labels i F os cel
    by (intro checkObjects_total checkObject_total) (auto simp: workloadLabelsValid_def)
  then obtain b where b: "checkObjects c (world r) n d cond ?os = Returns b" by blast
  have b_iff: "b \<longleftrightarrow> (\<forall>obj\<in>set F. objectFulfilled c (world r) n d cond obj)"
    using b os checkObjects_True [of c "world r" n d cond ?os] by (auto simp: checkObject_True)
  have "stageFulfilled c (world r) n d \<longleftrightarrow> F \<noteq> [] \<and> b"
    using i cond F b_iff by (auto simp: stageFulfilled_def Let_def)
  with d i cond F b show ?thesis by (auto simp: attemptConditionLocked_def Let_def)
qed

text \<open>A policy that has seen no Binding since it was noted has an empty workload and stays.\<close>

lemma attempt_empty_workload:
  assumes "stagedBindingPolicies r n = Some d" and "d_bindingSpec d = zero_bindingSpec"
  shows "attemptConditionLocked c n r = (Returns (), r)"
  using assms
  by (auto simp: attemptConditionLocked_def Let_def zero_bindingSpec_def split: option.splits)

end
