(* ===== verification/Resolver_Deploy.thy ===== *)
theory Resolver_Deploy
  imports Resolver_Condition
begin

text \<open>
  Deploying a stage (\<open>ensureActiveStageLocked\<close>, \<open>stageUpLocked\<close>) branch by branch: the
  calls a successful deployment makes and in which order, what each error leaves behind,
  and exactly when the code panics.
\<close>

section \<open>Deleting the previous stage\<close>

abbreviation stagePolicyName :: "string \<Rightarrow> stagedBindingPolicyData \<Rightarrow> nat \<Rightarrow> string" where
  "stagePolicyName n d i \<equiv> bindingPolicyName n (stage_name (d_stages d ! i))"

text \<open>The deletion of the previous stage's BindingPolicy succeeds, or there is none, or the
  policy is in its first stage; \<open>w'\<close> is the world afterwards.\<close>

definition previousDeleted ::
  "('ast, 'prog, 'w) clients \<Rightarrow> string \<Rightarrow> stagedBindingPolicyData \<Rightarrow> 'w \<Rightarrow> 'w \<Rightarrow> bool" where
  "previousDeleted c n d w w' \<longleftrightarrow>
     (if d_activeIndex d = 0 then w' = w
      else (case bp_Delete c (stagePolicyName n d (d_activeIndex d - 1)) w of
              (res, w1) \<Rightarrow> w' = w1 \<and>
                (case res of None \<Rightarrow> True | Some e \<Rightarrow> errors_IsNotFound c e)))"

lemma deletePrevious_ok:
  "d_activeIndex d \<le> length (d_stages d) \<Longrightarrow>
   deletePreviousStage c n d r = (Returns None, r1) \<longleftrightarrow>
   (\<exists>w1. previousDeleted c n d (world r) w1 \<and> r1 = r\<lparr>world := w1\<rparr>)"
  by (auto simp: deletePreviousStage_def previousDeleted_def
      split: prod.splits option.splits if_splits)

lemma deletePrevious_no_panic:
  "d_activeIndex d \<le> length (d_stages d) \<Longrightarrow>
   \<exists>err w1. deletePreviousStage c n d r = (Returns err, r\<lparr>world := w1\<rparr>)"
  by (auto simp: deletePreviousStage_def split: prod.splits option.splits
      intro: exI [of _ "world r"])

lemma world_upd_inj [simp]: "r\<lparr>world := a\<rparr> = r\<lparr>world := b\<rparr> \<longleftrightarrow> a = b"
  by (cases r) auto

lemma deletePrevious_previousDeleted:
  assumes i: "d_activeIndex d \<le> length (d_stages d)"
    and del: "deletePreviousStage c n d r = (Returns err, r\<lparr>world := w1\<rparr>)"
  shows "previousDeleted c n d (world r) w \<longleftrightarrow> err = None \<and> w = w1"
proof -
  have "previousDeleted c n d (world r) w \<longleftrightarrow>
      deletePreviousStage c n d r = (Returns None, r\<lparr>world := w\<rparr>)"
    unfolding deletePrevious_ok [OF i] by auto
  with del show ?thesis by auto
qed

text \<open>An error other than NotFound is wrapped and ends the deployment.\<close>

lemma deletePrevious_error:
  assumes "d_activeIndex d \<le> length (d_stages d)"
    and "deletePreviousStage c n d r = (Returns (Some e), r1)"
  obtains e' w1 where "e = Errorf ''error deleting previous binding policy'' e'"
    and "\<not> errors_IsNotFound c e'" and "r1 = r\<lparr>world := w1\<rparr>" and "d_activeIndex d > 0"
    and "bp_Delete c (stagePolicyName n d (d_activeIndex d - 1)) (world r) = (Some e', w1)"
  using assms by (auto simp: deletePreviousStage_def split: prod.splits option.splits if_splits)

section \<open>A deployment that succeeds\<close>

text \<open>The calls of a successful deployment, in order, and the state they leave.\<close>

definition deployment ::
  "('ast, 'prog, 'w) clients \<Rightarrow> string \<Rightarrow> stagedBindingPolicyData \<Rightarrow> 'w resolver \<Rightarrow>
   'w resolver \<Rightarrow> bool" where
  "deployment c n d r r' \<longleftrightarrow>
     d_activeIndex d < length (d_stages d) \<and>
     (let stage = d_stages d ! d_activeIndex d in
      \<exists>w1 echo w2 sbp w3 x w4.
        previousDeleted c n d (world r) w1 \<and>
        bp_Create c (stageBindingPolicy c n d stage) w1 = (Inr echo, w2) \<and>
        sbp_Get c n w2 = (Inr sbp, w3) \<and>
        sbp_UpdateStatus c (set_activeStage (stage_name stage) sbp) w3 = (Inr x, w4) \<and>
        r' = \<lparr>stagedBindingPolicies = (stagedBindingPolicies r)
                (n \<mapsto> d\<lparr>d_activeBindingPolicyUID := bp_uid echo\<rparr>),
              world = w4\<rparr>)"

lemma createActive_ok:
  assumes "stagedBindingPolicies r n = Some d"
  shows "createActiveStage c n d r = (Returns None, r') \<longleftrightarrow>
    d_activeIndex d < length (d_stages d) \<and>
    (let stage = d_stages d ! d_activeIndex d in
     \<exists>echo w2 sbp w3 x w4.
       bp_Create c (stageBindingPolicy c n d stage) (world r) = (Inr echo, w2) \<and>
       sbp_Get c n w2 = (Inr sbp, w3) \<and>
       sbp_UpdateStatus c (set_activeStage (stage_name stage) sbp) w3 = (Inr x, w4) \<and>
       r' = \<lparr>stagedBindingPolicies = (stagedBindingPolicies r)
               (n \<mapsto> d\<lparr>d_activeBindingPolicyUID := bp_uid echo\<rparr>),
             world = w4\<rparr>)"
proof (cases "d_activeIndex d < length (d_stages d)")
  case False
  then show ?thesis by (auto simp: createActiveStage_def)
next
  case True
  then show ?thesis
    using assms
    by (auto simp: createActiveStage_def updateStagedBindingPolicyStatusLocked_def Let_def
        update_entry_def split: prod.splits sum.splits)
qed

lemma ensureActive_ok:
  assumes d: "stagedBindingPolicies r n = Some d" and i: "d_activeIndex d \<le> length (d_stages d)"
  shows "ensureActiveStageLocked c n r = (Returns None, r') \<longleftrightarrow> deployment c n d r r'"
proof -
  obtain err w1 where del: "deletePreviousStage c n d r = (Returns err, r\<lparr>world := w1\<rparr>)"
    using deletePrevious_no_panic [OF i, of c n r] by blast
  note prev = deletePrevious_previousDeleted [OF i del]
  show ?thesis
  proof (cases err)
    case None
    have d': "stagedBindingPolicies (r\<lparr>world := w1\<rparr>) n = Some d" using d by simp
    from None del d show ?thesis
      by (simp add: ensureActiveStageLocked_def createActive_ok [OF d'] deployment_def prev Let_def)
  next
    case (Some e)
    with del d show ?thesis
      by (simp add: ensureActiveStageLocked_def deployment_def prev Let_def)
  qed
qed

section \<open>A deployment that fails\<close>

text \<open>
  The call that fails, after those before it went through; the UID the entry is left with, which
  is the new one once the BindingPolicy was created, and the world.
\<close>

inductive failed_deployment ::
  "('ast, 'prog, 'w) clients \<Rightarrow> string \<Rightarrow> stagedBindingPolicyData \<Rightarrow> 'w \<Rightarrow> string \<Rightarrow> 'w \<Rightarrow> bool"
  for c n d w where
  delete: "d_activeIndex d > 0 \<Longrightarrow>
    bp_Delete c (stagePolicyName n d (d_activeIndex d - 1)) w = (Some e, w1) \<Longrightarrow>
    \<not> errors_IsNotFound c e \<Longrightarrow>
    failed_deployment c n d w (d_activeBindingPolicyUID d) w1"
| create: "previousDeleted c n d w w1 \<Longrightarrow>
    bp_Create c (stageBindingPolicy c n d (d_stages d ! d_activeIndex d)) w1 = (Inl e, w2) \<Longrightarrow>
    failed_deployment c n d w (d_activeBindingPolicyUID d) w2"
| get: "previousDeleted c n d w w1 \<Longrightarrow>
    bp_Create c (stageBindingPolicy c n d (d_stages d ! d_activeIndex d)) w1 = (Inr echo, w2) \<Longrightarrow>
    sbp_Get c n w2 = (Inl e, w3) \<Longrightarrow>
    failed_deployment c n d w (bp_uid echo) w3"
| update: "previousDeleted c n d w w1 \<Longrightarrow>
    bp_Create c (stageBindingPolicy c n d (d_stages d ! d_activeIndex d)) w1 = (Inr echo, w2) \<Longrightarrow>
    sbp_Get c n w2 = (Inr sbp, w3) \<Longrightarrow>
    sbp_UpdateStatus c (set_activeStage (stage_name (d_stages d ! d_activeIndex d)) sbp) w3 =
      (Inl e, w4) \<Longrightarrow>
    failed_deployment c n d w (bp_uid echo) w4"

inductive_simps failed_deployment_iff: "failed_deployment c n d w u w'"

lemma createActive_failed:
  assumes "stagedBindingPolicies r n = Some d" and "d_activeIndex d < length (d_stages d)"
    and "previousDeleted c n d w (world r)"
    and "\<not> (\<exists>e v. d_activeIndex d > 0 \<and> bp_Delete c (stagePolicyName n d (d_activeIndex d - 1)) w =
      (Some e, v) \<and> \<not> errors_IsNotFound c e)"
    and "\<And>v. previousDeleted c n d w v \<Longrightarrow> v = world r"
  shows "(\<exists>e. createActiveStage c n d r = (Returns (Some e), r')) \<longleftrightarrow>
    (\<exists>u v. failed_deployment c n d w u v \<and>
      r' = \<lparr>stagedBindingPolicies = (stagedBindingPolicies r)
              (n \<mapsto> d\<lparr>d_activeBindingPolicyUID := u\<rparr>), world = v\<rparr>)"
proof -
  have same: "r\<lparr>world := v\<rparr> = \<lparr>stagedBindingPolicies = (stagedBindingPolicies r)
      (n \<mapsto> d\<lparr>d_activeBindingPolicyUID := d_activeBindingPolicyUID d\<rparr>), world = v\<rparr>" for v
    using assms(1) by (simp add: fun_upd_idem)
  have prev: "previousDeleted c n d w v \<longleftrightarrow> v = world r" for v using assms(3,5) by blast
  obtain res w2 where cr: "bp_Create c (stageBindingPolicy c n d (d_stages d ! d_activeIndex d))
      (world r) = (res, w2)" by fastforce
  show ?thesis
  proof (cases res)
    case (Inl e)
    with assms(1,2,4) cr prev same show ?thesis
      by (auto simp: createActiveStage_def failed_deployment_iff
          intro: exI [of _ "d_activeBindingPolicyUID d"])
  next
    case (Inr echo)
    obtain gres w3 where g: "sbp_Get c n w2 = (gres, w3)" by fastforce
    have f: "failed_deployment c n d w u v \<longleftrightarrow> u = bp_uid echo \<and> (case gres of
        Inl e \<Rightarrow> v = w3
      | Inr sbp \<Rightarrow> \<exists>e. sbp_UpdateStatus c
          (set_activeStage (stage_name (d_stages d ! d_activeIndex d)) sbp) w3 = (Inl e, v))" for u v
      using Inr assms(4) cr prev g by (cases gres) (auto simp: failed_deployment_iff)
    have new: "r\<lparr>stagedBindingPolicies := m, world := v\<rparr> =
        \<lparr>stagedBindingPolicies = m, world = v\<rparr>" for m v by simp
    show ?thesis
    proof (cases gres)
      case (Inl e)
      with Inr assms(1,2) cr g f new show ?thesis
        by (auto simp: createActiveStage_def update_entry_def
            updateStagedBindingPolicyStatusLocked_def)
    next
      case (Inr sbp)
      obtain ures w4 where up: "sbp_UpdateStatus c
          (set_activeStage (stage_name (d_stages d ! d_activeIndex d)) sbp) w3 = (ures, w4)"
        by fastforce
      with Inr \<open>res = Inr echo\<close> assms(1,2) cr g f new show ?thesis
        by (cases ures) (auto simp: createActiveStage_def update_entry_def
            updateStagedBindingPolicyStatusLocked_def)
    qed
  qed
qed

lemma ensureActive_failed:
  assumes d: "stagedBindingPolicies r n = Some d" and i: "d_activeIndex d < length (d_stages d)"
  shows "(\<exists>e. ensureActiveStageLocked c n r = (Returns (Some e), r')) \<longleftrightarrow>
    (\<exists>u w. failed_deployment c n d (world r) u w \<and>
      r' = \<lparr>stagedBindingPolicies = (stagedBindingPolicies r)
              (n \<mapsto> d\<lparr>d_activeBindingPolicyUID := u\<rparr>), world = w\<rparr>)"
proof -
  have i': "d_activeIndex d \<le> length (d_stages d)" using i by simp
  obtain err w1 where del: "deletePreviousStage c n d r = (Returns err, r\<lparr>world := w1\<rparr>)"
    using deletePrevious_no_panic [OF i', of c n r] by blast
  note prev = deletePrevious_previousDeleted [OF i' del]
  show ?thesis
  proof (cases err)
    case None
    have no: "\<not> (\<exists>e v. d_activeIndex d > 0 \<and> bp_Delete c (stagePolicyName n d (d_activeIndex d - 1))
        (world r) = (Some e, v) \<and> \<not> errors_IsNotFound c e)"
      using del None i' by (auto simp: deletePreviousStage_def split: if_splits)
    from createActive_failed [of "r\<lparr>world := w1\<rparr>" n d c "world r" r'] None d i prev no del
    show ?thesis by (simp add: ensureActiveStageLocked_def)
  next
    case (Some e)
    obtain e' where e': "\<not> errors_IsNotFound c e'" "d_activeIndex d > 0"
      "bp_Delete c (stagePolicyName n d (d_activeIndex d - 1)) (world r) = (Some e', w1)"
      by (rule deletePrevious_error [OF i' del [unfolded Some]]) (auto intro: that)
    have "failed_deployment c n d (world r) u w \<longleftrightarrow> u = d_activeBindingPolicyUID d \<and> w = w1" for u w
      using e' prev Some by (auto simp: failed_deployment_iff)
    moreover have "r\<lparr>world := w1\<rparr> = \<lparr>stagedBindingPolicies = (stagedBindingPolicies r)
        (n \<mapsto> d\<lparr>d_activeBindingPolicyUID := d_activeBindingPolicyUID d\<rparr>), world = w1\<rparr>"
      using d by (simp add: fun_upd_idem)
    ultimately show ?thesis using del Some d by (auto simp: ensureActiveStageLocked_def)
  qed
qed

text \<open>A failed deployment leaves one state.\<close>

lemma failed_deployment_unique:
  assumes "failed_deployment c n d w u v" and "failed_deployment c n d w u' v'"
  shows "u' = u" "v' = v"
proof -
  have prev: "x = y" if "previousDeleted c n d w x" "previousDeleted c n d w y" for x y
    using that by (auto simp: previousDeleted_def split: if_splits prod.splits)
  have no: "\<not> previousDeleted c n d w x" if "d_activeIndex d > 0"
      "bp_Delete c (stagePolicyName n d (d_activeIndex d - 1)) w = (Some e, y)"
      "\<not> errors_IsNotFound c e" for e x y
    using that by (simp add: previousDeleted_def)
  have "u' = u \<and> v' = v"
    using assms
    by (elim failed_deployment.cases) (auto dest: prev no)
  then show "u' = u" "v' = v" by auto
qed

section \<open>When a deployment panics\<close>

lemma createActive_no_panic:
  assumes "stagedBindingPolicies r n = Some d0" and "d_stages d0 = d_stages d"
    and "d_activeIndex d < length (d_stages d)"
  shows "\<exists>err r1. createActiveStage c n d r = (Returns err, r1)"
  using assms
  by (auto simp: createActiveStage_def updateStagedBindingPolicyStatusLocked_def
      split: prod.splits sum.splits)

lemma ensureActive_panics:
  assumes d: "stagedBindingPolicies r n = Some d" and i: "d_activeIndex d \<le> length (d_stages d)"
  shows "ensureActiveStageLocked c n r = (Panics p, r') \<longleftrightarrow>
    p = IndexOutOfRange \<and> d_activeIndex d = length (d_stages d) \<and>
    (\<exists>w1. previousDeleted c n d (world r) w1 \<and> r' = r\<lparr>world := w1\<rparr>)"
proof -
  obtain err w1 where del: "deletePreviousStage c n d r = (Returns err, r\<lparr>world := w1\<rparr>)"
    using deletePrevious_no_panic [OF i, of c n r] by blast
  note prev = deletePrevious_previousDeleted [OF i del]
  show ?thesis
  proof (cases "err = None \<and> d_activeIndex d < length (d_stages d)")
    case True
    with d obtain err2 r2 where
      "createActiveStage c n d (r\<lparr>world := w1\<rparr>) = (Returns err2, r2)"
      using createActive_no_panic [of "r\<lparr>world := w1\<rparr>" n d d c] by auto
    with True d del show ?thesis by (auto simp: ensureActiveStageLocked_def)
  next
    case False
    with d del i prev show ?thesis
      by (cases err) (auto simp: ensureActiveStageLocked_def createActiveStage_def)
  qed
qed

section \<open>Staging up\<close>

lemma stageUp_eq:
  assumes "stagedBindingPolicies r n = Some d" and "d_activeIndex d < length (d_stages d)"
  shows "stageUpLocked c n r =
    (case ensureActiveStageLocked c n
            (r\<lparr>stagedBindingPolicies := (stagedBindingPolicies r)
                 (n \<mapsto> d\<lparr>d_activeIndex := Suc (d_activeIndex d)\<rparr>)\<rparr>) of
       (Panics p, r') \<Rightarrow> (Panics p, r')
     | (Returns None, r') \<Rightarrow> (Returns (), r')
     | (Returns (Some e), r') \<Rightarrow>
         (Returns (), update_entry n (\<lambda>d. d\<lparr>d_activeIndex := d_activeIndex d - 1\<rparr>) r'))"
  using assms
  by (auto simp: stageUpLocked_def update_entry_def st_bind_eq
      split: prod.splits outcome.splits option.splits)

text \<open>
  Staging up panics exactly when the policy is in its last stage and the deletion of that
  stage's BindingPolicy went through.
\<close>

lemma stageUp_panics:
  assumes "stagedBindingPolicies r n = Some d" and "d_activeIndex d < length (d_stages d)"
  shows "(\<exists>r'. stageUpLocked c n r = (Panics p, r')) \<longleftrightarrow>
    p = IndexOutOfRange \<and> Suc (d_activeIndex d) = length (d_stages d) \<and>
    (\<exists>w. previousDeleted c n (d\<lparr>d_activeIndex := Suc (d_activeIndex d)\<rparr>) (world r) w)"
    (is "?L \<longleftrightarrow> ?R")
proof -
  let ?d = "d\<lparr>d_activeIndex := Suc (d_activeIndex d)\<rparr>"
  let ?r = "r\<lparr>stagedBindingPolicies := (stagedBindingPolicies r)(n \<mapsto> ?d)\<rparr>"
  have d: "stagedBindingPolicies ?r n = Some ?d" by simp
  have i: "d_activeIndex ?d \<le> length (d_stages ?d)" using assms(2) by simp
  have "?L \<longleftrightarrow> (\<exists>r'. ensureActiveStageLocked c n ?r = (Panics p, r'))"
    by (auto simp: stageUp_eq [OF assms] split: prod.splits outcome.splits option.splits)
  also have "\<dots> \<longleftrightarrow> ?R" using ensureActive_panics [OF d i, of c p] by (auto intro: exI)
  finally show ?thesis .
qed

text \<open>After the panic the entry is out of bounds and the last stage's BindingPolicy gone.\<close>

lemma stageUp_panic_state:
  assumes "stagedBindingPolicies r n = Some d" and "Suc (d_activeIndex d) = length (d_stages d)"
    and "previousDeleted c n (d\<lparr>d_activeIndex := Suc (d_activeIndex d)\<rparr>) (world r) w"
  shows "stageUpLocked c n r =
    (Panics IndexOutOfRange,
     \<lparr>stagedBindingPolicies = (stagedBindingPolicies r)
        (n \<mapsto> d\<lparr>d_activeIndex := length (d_stages d)\<rparr>), world = w\<rparr>)"
proof -
  let ?d = "d\<lparr>d_activeIndex := Suc (d_activeIndex d)\<rparr>"
  let ?r = "r\<lparr>stagedBindingPolicies := (stagedBindingPolicies r)(n \<mapsto> ?d)\<rparr>"
  have "ensureActiveStageLocked c n ?r = (Panics IndexOutOfRange, ?r\<lparr>world := w\<rparr>)"
    using ensureActive_panics [of ?r n ?d c IndexOutOfRange "?r\<lparr>world := w\<rparr>"] assms(2,3)
    by fastforce
  with assms(1,2) show ?thesis by (simp add: stageUp_eq)
qed

lemma stageUp_ok:
  assumes d: "stagedBindingPolicies r n = Some d"
    and dep: "deployment c n (d\<lparr>d_activeIndex := Suc (d_activeIndex d)\<rparr>)
      (r\<lparr>stagedBindingPolicies := (stagedBindingPolicies r)
          (n \<mapsto> d\<lparr>d_activeIndex := Suc (d_activeIndex d)\<rparr>)\<rparr>) r'"
  shows "stageUpLocked c n r = (Returns (), r')"
proof -
  let ?d = "d\<lparr>d_activeIndex := Suc (d_activeIndex d)\<rparr>"
  let ?r = "r\<lparr>stagedBindingPolicies := (stagedBindingPolicies r)(n \<mapsto> ?d)\<rparr>"
  have i: "Suc (d_activeIndex d) < length (d_stages d)"
    using dep by (simp add: deployment_def)
  then have "ensureActiveStageLocked c n ?r = (Returns None, r')"
    using dep ensureActive_ok [of ?r n ?d c r'] by simp
  with i d show ?thesis by (simp add: stageUp_eq)
qed

section \<open>The invariant of the map of tracked policies\<close>

text \<open>
  Between two operations the map is finite and every tracked policy is in one of its stages;
  in particular it has one.
\<close>

definition tracked_ok :: "'w resolver \<Rightarrow> bool" where
  "tracked_ok r \<longleftrightarrow> finite (dom (stagedBindingPolicies r)) \<and>
     (\<forall>n d. stagedBindingPolicies r n = Some d \<longrightarrow> d_activeIndex d < length (d_stages d))"

lemma tracked_okD: "tracked_ok r \<Longrightarrow> stagedBindingPolicies r n = Some d \<Longrightarrow>
    d_activeIndex d < length (d_stages d)"
  by (simp add: tracked_ok_def)

lemma tracked_ok_finite: "tracked_ok r \<Longrightarrow> finite (dom (stagedBindingPolicies r))"
  by (simp add: tracked_ok_def)

lemma tracked_ok_new: "tracked_ok (new_resolver w)"
  by (simp add: tracked_ok_def new_resolver_def)

lemma tracked_ok_upd:
  "tracked_ok r \<Longrightarrow> d_activeIndex d < length (d_stages d) \<Longrightarrow>
   stagedBindingPolicies r' = (stagedBindingPolicies r)(n \<mapsto> d) \<Longrightarrow> tracked_ok r'"
  by (auto simp: tracked_ok_def)

lemma tracked_ok_delete:
  "tracked_ok r \<Longrightarrow> stagedBindingPolicies r' = (stagedBindingPolicies r)(n := None) \<Longrightarrow>
   tracked_ok r'"
  by (auto simp: tracked_ok_def split: if_splits)

lemma tracked_ok_cong:
  "tracked_ok r \<Longrightarrow> stagedBindingPolicies r' = stagedBindingPolicies r \<Longrightarrow> tracked_ok r'"
  by (simp add: tracked_ok_def)

lemma stageUp_tracked_ok:
  assumes ok: "tracked_ok r" and res: "stageUpLocked c n r = (Returns x, r')"
  shows "tracked_ok r'"
proof (cases "stagedBindingPolicies r n")
  case None
  with res ok show ?thesis by (simp add: stageUpLocked_def)
next
  case (Some d)
  note i = tracked_okD [OF ok Some]
  let ?d = "d\<lparr>d_activeIndex := Suc (d_activeIndex d)\<rparr>"
  let ?r = "r\<lparr>stagedBindingPolicies := (stagedBindingPolicies r)(n \<mapsto> ?d)\<rparr>"
  have d: "stagedBindingPolicies ?r n = Some ?d" by simp
  obtain u where u: "stagedBindingPolicies (snd (ensureActiveStageLocked c n ?r)) =
      (stagedBindingPolicies ?r)(n \<mapsto> ?d\<lparr>d_activeBindingPolicyUID := u\<rparr>)"
    using ensureActive_entries [OF d] by blast
  obtain out r2 where ens: "ensureActiveStageLocked c n ?r = (out, r2)" by fastforce
  from res have out: "\<exists>err. out = Returns err"
    by (cases out) (auto simp: stageUp_eq [OF Some i] ens)
  show ?thesis
  proof (cases "out = Returns None")
    case True
    then have "deployment c n ?d ?r r2"
      using ens ensureActive_ok [OF d, of c r2] i by simp
    then have "Suc (d_activeIndex d) < length (d_stages d)" by (simp add: deployment_def)
    with True ens res u ok show ?thesis
      by (intro tracked_ok_upd [OF ok, of "?d\<lparr>d_activeBindingPolicyUID := u\<rparr>" r' n])
         (auto simp: stageUp_eq [OF Some i])
  next
    case False
    with out obtain e where "out = Returns (Some e)" by (metis option.exhaust)
    with ens res u i show ?thesis
      by (intro tracked_ok_upd [OF ok, of "d\<lparr>d_activeBindingPolicyUID := u\<rparr>" r' n])
         (auto simp: stageUp_eq [OF Some i] update_entry_def)
  qed
qed

lemma attempt_tracked_ok:
  "tracked_ok r \<Longrightarrow> attemptConditionLocked c n r = (Returns x, r') \<Longrightarrow> tracked_ok r'"
  using attempt_cases [of c n r] stageUp_tracked_ok [of r c n x r'] by auto

lemma findActiveStage_bound:
  "stages \<noteq> [] \<Longrightarrow> findActiveStage s i stages < i + length stages"
proof (induction stages arbitrary: i)
  case Nil
  then show ?case by simp
next
  case (Cons st stages)
  show ?case using Cons.IH [of "i + 1"] by (cases "stages = []") auto
qed

lemma activeStageIndex_bound:
  "spec_stages (sbp_spec sbp) \<noteq> [] \<Longrightarrow> activeStageIndex sbp < length (spec_stages (sbp_spec sbp))"
  using findActiveStage_bound [of "spec_stages (sbp_spec sbp)" _ 0]
  by (simp add: activeStageIndex_def)

end
