(* ===== verification/Resolver_Ops.thy ===== *)
theory Resolver_Ops
  imports Resolver_Deploy
begin

text \<open>
  The resolver's public operations: the names they go by, what each does on every branch,
  and the invariant of the map. \<open>resolver_if\<close> is the Go interface \<open>Resolver\<close>, and
  \<open>NewResolver\<close> the value the controller holds; the contract a client of the interface may
  rely on is the locale \<open>resolver_contract\<close>, interpreted on \<open>NewResolver\<close>.
\<close>

section \<open>Names of Bindings\<close>

lemma stage_suffix_simps [simp]: "stage_suffix \<noteq> []" "butlast stage_suffix = ''.stage''"
  by (simp_all add: stage_suffix_def)

text \<open>A policy name and a stage name that the separator keeps apart.\<close>

definition clean_names :: "string \<Rightarrow> string \<Rightarrow> bool" where
  "clean_names n s \<longleftrightarrow>
     \<not> strings_Contains (n @ ''.stage'') stage_suffix \<and> \<not> strings_Contains s stage_suffix"

lemma associatedName_iff: "associatedName (bindingPolicyName n s) = Some n \<longleftrightarrow> clean_names n s"
proof
  assume "clean_names n s"
  then have "strings_Split (bindingPolicyName n s) stage_suffix = [n, s]"
    unfolding bindingPolicyName_def
    by (intro strings_Split_pair) (auto simp: clean_names_def strings_Contains_sublist)
  then show "associatedName (bindingPolicyName n s) = Some n"
    by (simp add: associatedName_def)
next
  let ?b = "bindingPolicyName n s"
  assume "associatedName ?b = Some n"
  then obtain t where split: "strings_Split ?b stage_suffix = [n, t]"
    by (auto simp: associatedName_def Let_def length_Suc_conv numeral_2_eq_2 split: if_splits)
  then obtain i where i: "strings_Index ?b stage_suffix = Some i" "n = take i ?b"
      "strings_Split (drop (i + length stage_suffix) ?b) stage_suffix = [t]"
    unfolding strings_Split_Cons_iff [OF stage_suffix_simps(1)] by blast
  from i(1) have "i \<le> length ?b" using strings_Index_Some by fastforce
  with i(2) have len: "i = length n" by (metis length_take min.absorb2)
  with i(1) have "\<not> sublist stage_suffix (n @ ''.stage'')"
    using strings_Index_separator [of stage_suffix n s] by (simp add: bindingPolicyName_def)
  moreover have "drop (i + length stage_suffix) ?b = s"
    by (simp add: len bindingPolicyName_def)
  with i(3) have "\<not> sublist stage_suffix s"
    using strings_Split_single [of stage_suffix s] by simp
  ultimately show "clean_names n s" by (simp add: clean_names_def strings_Contains_sublist)
qed

lemma bindingPolicyName_inject_stage [simp]:
  "bindingPolicyName n s = bindingPolicyName n t \<longleftrightarrow> s = t"
  by (simp add: bindingPolicyName_def)

lemma bindingPolicyName_inject:
  "clean_names n s \<Longrightarrow> clean_names m t \<Longrightarrow>
   bindingPolicyName n s = bindingPolicyName m t \<longleftrightarrow> n = m \<and> s = t"
  by (metis associatedName_iff bindingPolicyName_inject_stage option.inject)

section \<open>NoteStagedBindingPolicy\<close>

abbreviation noted :: "staged_binding_policy \<Rightarrow> 'w resolver \<Rightarrow> 'w resolver" where
  "noted sbp r \<equiv> r\<lparr>stagedBindingPolicies :=
     (stagedBindingPolicies r)(sbp_name sbp \<mapsto> newPolicyData sbp)\<rparr>"

text \<open>
  The final \<open>attemptConditionLocked\<close> never does anything: the entry has just been made, so
  it holds no Binding's workload yet.
\<close>

lemma NoteStagedBindingPolicy_eq:
  "NoteStagedBindingPolicy c sbp r = ensureActiveStageLocked c (sbp_name sbp) (noted sbp r)"
proof -
  let ?n = "sbp_name sbp"
  obtain out r1 where ens: "ensureActiveStageLocked c ?n (noted sbp r) = (out, r1)"
    by fastforce
  obtain u where "stagedBindingPolicies r1 ?n =
      Some ((newPolicyData sbp)\<lparr>d_activeBindingPolicyUID := u\<rparr>)"
    using ensureActive_entries [of "noted sbp r" ?n "newPolicyData sbp" c] ens by auto
  then have "attemptConditionLocked c ?n r1 = (Returns (), r1)"
    by (rule attempt_empty_workload) (simp add: newPolicyData_def)
  with ens show ?thesis
    by (cases out) (auto simp: NoteStagedBindingPolicy_def split: option.splits)
qed

lemma newPolicyData_sel [simp]:
  "d_stages (newPolicyData sbp) = spec_stages (sbp_spec sbp)"
  "d_activeIndex (newPolicyData sbp) = activeStageIndex sbp"
  "d_downsync (newPolicyData sbp) = spec_downsync (sbp_spec sbp)"
  "d_uid (newPolicyData sbp) = sbp_uid sbp"
  "d_activeBindingPolicyUID (newPolicyData sbp) = []"
  "d_bindingSpec (newPolicyData sbp) = zero_bindingSpec"
  by (simp_all add: newPolicyData_def)

lemma note_entries:
  "NoteStagedBindingPolicy c sbp r = (out, r') \<Longrightarrow>
   \<exists>u. stagedBindingPolicies r' = (stagedBindingPolicies r)
     (sbp_name sbp \<mapsto> (newPolicyData sbp)\<lparr>d_activeBindingPolicyUID := u\<rparr>)"
  using ensureActive_entries [of "noted sbp r" "sbp_name sbp" "newPolicyData sbp" c]
  by (auto simp: NoteStagedBindingPolicy_eq)

lemma findActiveStage_Nil: "activeStageIndex sbp = 0" if "spec_stages (sbp_spec sbp) = []"
  using that by (simp add: activeStageIndex_def)

lemma note_no_stages:
  "spec_stages (sbp_spec sbp) = [] \<Longrightarrow>
   NoteStagedBindingPolicy c sbp r = (Panics IndexOutOfRange, noted sbp r)"
  by (simp add: NoteStagedBindingPolicy_eq ensureActiveStageLocked_def deletePreviousStage_def
      createActiveStage_def findActiveStage_Nil)

lemma note_no_panic:
  assumes "spec_stages (sbp_spec sbp) \<noteq> []"
  shows "\<exists>err r'. NoteStagedBindingPolicy c sbp r = (Returns err, r')"
proof -
  have i: "activeStageIndex sbp < length (spec_stages (sbp_spec sbp))"
    using assms by (rule activeStageIndex_bound)
  obtain out r' where res: "NoteStagedBindingPolicy c sbp r = (out, r')" by fastforce
  have "out \<noteq> Panics p" for p
    using res i ensureActive_panics [of "noted sbp r" "sbp_name sbp" "newPolicyData sbp" c p r']
    by (auto simp: NoteStagedBindingPolicy_eq)
  with res show ?thesis by (cases out) auto
qed

lemma note_ok:
  assumes "spec_stages (sbp_spec sbp) \<noteq> []"
  shows "NoteStagedBindingPolicy c sbp r = (Returns None, r') \<longleftrightarrow>
    deployment c (sbp_name sbp) (newPolicyData sbp) (noted sbp r) r'"
  using ensureActive_ok [of "noted sbp r" "sbp_name sbp" "newPolicyData sbp" c r']
    activeStageIndex_bound [OF assms]
  by (simp add: NoteStagedBindingPolicy_eq)

lemma note_tracked_ok:
  assumes "tracked_ok r" and "NoteStagedBindingPolicy c sbp r = (Returns err, r')"
  shows "tracked_ok r'"
proof (cases "spec_stages (sbp_spec sbp) = []")
  case True
  with assms(2) show ?thesis by (simp add: note_no_stages)
next
  case False
  from note_entries [OF assms(2)] obtain u where "stagedBindingPolicies r' =
      (stagedBindingPolicies r)
        (sbp_name sbp \<mapsto> (newPolicyData sbp)\<lparr>d_activeBindingPolicyUID := u\<rparr>)" ..
  with activeStageIndex_bound [OF False] show ?thesis
    by (intro tracked_ok_upd [OF assms(1)]) auto
qed

text \<open>The index a policy starts from: the first stage with the name in its status.\<close>

lemma findActiveStage_first:
  "\<exists>j<length stages. stage_name (stages ! j) = s \<Longrightarrow>
   (\<exists>j<length stages. findActiveStage s i stages = i + j \<and> stage_name (stages ! j) = s \<and>
      (\<forall>k<j. stage_name (stages ! k) \<noteq> s))"
proof (induction stages arbitrary: i)
  case Nil
  then show ?case by simp
next
  case (Cons st stages)
  show ?case
  proof (cases "stage_name st = s")
    case True
    then show ?thesis by auto
  next
    case False
    with Cons.prems have "\<exists>j<length stages. stage_name (stages ! j) = s"
      by (auto simp: less_Suc_eq_0_disj)
    from Cons.IH [OF this, of "i + 1"] obtain j where "j < length stages"
        "findActiveStage s (i + 1) stages = i + 1 + j" "stage_name (stages ! j) = s"
        "\<forall>k<j. stage_name (stages ! k) \<noteq> s" by blast
    with False show ?thesis
      by (intro exI [of _ "Suc j"]) (auto simp: less_Suc_eq_0_disj)
  qed
qed

lemma findActiveStage_missing:
  "\<forall>j<length stages. stage_name (stages ! j) \<noteq> s \<Longrightarrow> findActiveStage s i stages = 0"
proof (induction stages arbitrary: i)
  case Nil
  then show ?case by simp
next
  case (Cons st stages)
  from Cons.prems have "stage_name st \<noteq> s" by auto
  moreover have "\<forall>j<length stages. stage_name (stages ! j) \<noteq> s" using Cons.prems by auto
  ultimately show ?case using Cons.IH by simp
qed

section \<open>The other operations\<close>

lemma NoteBinding_cases:
  assumes "NoteBinding c b r = (out, r')"
  obtains (ignored) "out = Returns ()" "r' = r"
  | (attempt) n d where "associatedName (om_name (b_meta b)) = Some n"
      "stagedBindingPolicies r n = Some d" "d_activeBindingPolicyUID d = ownerUID b"
      "attemptConditionLocked c n
         (update_entry n (\<lambda>d. d\<lparr>d_bindingSpec := b_spec b\<rparr>) r) = (out, r')"
  using assms by (auto simp: NoteBinding_def split: option.splits if_splits)

lemma spec_tracked_ok:
  assumes "tracked_ok r" and "stagedBindingPolicies r n = Some d"
  shows "tracked_ok (update_entry n (\<lambda>d. d\<lparr>d_bindingSpec := s\<rparr>) r)"
  using assms(2) tracked_okD [OF assms]
  by (intro tracked_ok_upd [OF assms(1), of "d\<lparr>d_bindingSpec := s\<rparr>" _ n])
     (auto simp: update_entry_def)

lemma binding_tracked_ok:
  assumes "tracked_ok r" and "NoteBinding c b r = (Returns x, r')"
  shows "tracked_ok r'"
  using assms(2)
proof (cases rule: NoteBinding_cases)
  case ignored
  with assms show ?thesis by simp
next
  case (attempt n d)
  from spec_tracked_ok [OF assms(1) attempt(2)] attempt(4) show ?thesis
    by (rule attempt_tracked_ok)
qed

lemma NoteCombinedStatus_eq:
  assumes "ranges_keys c" and "finite (dom (stagedBindingPolicies r))"
  shows "NoteCombinedStatus c cs r =
    (if bindingPolicyLabel cs = [] then (Returns (), r)
     else (case associatedName (bindingPolicyLabel cs) of
             None \<Rightarrow> (Returns (), r)
           | Some n \<Rightarrow> attemptConditionLocked c n r))"
  unfolding NoteCombinedStatus_def attemptMatching_lookup [OF assms] ..

lemma attemptMatching_tracked_ok:
  "tracked_ok r \<Longrightarrow> attemptMatching c n ks r = (Returns x, r') \<Longrightarrow> tracked_ok r'"
proof (induction ks arbitrary: r)
  case Nil
  then show ?case by simp
next
  case (Cons k ks)
  show ?case
  proof (cases "k = n")
    case False
    with Cons show ?thesis by simp
  next
    case True
    obtain out r1 where att: "attemptConditionLocked c n r = (out, r1)" by fastforce
    with Cons.prems(2) True obtain y where "out = Returns y" by (cases out) auto
    with att Cons.prems True attempt_tracked_ok [of r c n y r1] show ?thesis
      by (auto intro: Cons.IH)
  qed
qed

lemma combinedStatus_tracked_ok:
  "tracked_ok r \<Longrightarrow> NoteCombinedStatus c cs r = (Returns x, r') \<Longrightarrow> tracked_ok r'"
  by (auto simp: NoteCombinedStatus_def split: option.splits if_splits
      dest: attemptMatching_tracked_ok)

section \<open>The interface\<close>

record 's resolver_if =
  if_NoteStagedBindingPolicy :: "staged_binding_policy \<Rightarrow> 's \<Rightarrow> go_error option outcome \<times> 's"
  if_DeleteStagedBindingPolicy :: "string \<Rightarrow> 's \<Rightarrow> unit outcome \<times> 's"
  if_NoteBinding :: "binding \<Rightarrow> 's \<Rightarrow> unit outcome \<times> 's"
  if_NoteCombinedStatus :: "combined_status \<Rightarrow> 's \<Rightarrow> unit outcome \<times> 's"

definition NewResolver :: "('ast, 'prog, 'w) clients \<Rightarrow> 'w resolver resolver_if" where
  "NewResolver c =
     \<lparr>if_NoteStagedBindingPolicy = NoteStagedBindingPolicy c,
      if_DeleteStagedBindingPolicy = DeleteStagedBindingPolicy,
      if_NoteBinding = NoteBinding c,
      if_NoteCombinedStatus = NoteCombinedStatus c\<rparr>"

lemma NewResolver_sel [simp]:
  "if_NoteStagedBindingPolicy (NewResolver c) = NoteStagedBindingPolicy c"
  "if_DeleteStagedBindingPolicy (NewResolver c) = DeleteStagedBindingPolicy"
  "if_NoteBinding (NewResolver c) = NoteBinding c"
  "if_NoteCombinedStatus (NewResolver c) = NoteCombinedStatus c"
  by (simp_all add: NewResolver_def)

text \<open>
  What the entry of a policy takes over from the policy and keeps: its UID, what it downsyncs
  and its stages.
\<close>

type_synonym content = "string \<times> downsync_policy_clause list \<times> stage list"

definition policy_content :: "staged_binding_policy \<Rightarrow> content" where
  "policy_content sbp =
     (sbp_uid sbp, spec_downsync (sbp_spec sbp), spec_stages (sbp_spec sbp))"

definition entry_content :: "stagedBindingPolicyData \<Rightarrow> content" where
  "entry_content d = (d_uid d, d_downsync d, d_stages d)"

definition tracked_contents :: "'w resolver \<Rightarrow> string \<rightharpoonup> content" where
  "tracked_contents r n = map_option entry_content (stagedBindingPolicies r n)"

definition tracked_names :: "'w resolver \<Rightarrow> string set" where
  "tracked_names r = dom (stagedBindingPolicies r)"

lemma tracked_names_contents: "n \<in> tracked_names r \<longleftrightarrow> tracked_contents r n \<noteq> None"
  by (auto simp: tracked_names_def tracked_contents_def)

text \<open>
  The contract of the interface. \<open>inv\<close> is the state invariant, which an operation keeps
  unless it panics, and \<open>contents\<close> what the resolver tracks: noting a policy tracks its
  present content, also if it fails, deleting one drops it, and the other two operations leave
  all contents alone, whatever their outcome.
\<close>

locale resolver_contract =
  fixes R :: "'s resolver_if"
    and inv :: "'s \<Rightarrow> bool"
    and contents :: "'s \<Rightarrow> string \<rightharpoonup> content"
  assumes note_inv:
      "inv s \<Longrightarrow> if_NoteStagedBindingPolicy R sbp s = (Returns err, s') \<Longrightarrow> inv s'"
    and delete_inv:
      "inv s \<Longrightarrow> if_DeleteStagedBindingPolicy R n s = (Returns u, s') \<Longrightarrow> inv s'"
    and binding_inv: "inv s \<Longrightarrow> if_NoteBinding R b s = (Returns u, s') \<Longrightarrow> inv s'"
    and combinedStatus_inv:
      "inv s \<Longrightarrow> if_NoteCombinedStatus R cs s = (Returns u, s') \<Longrightarrow> inv s'"
    and note_contents:
      "if_NoteStagedBindingPolicy R sbp s = (out, s') \<Longrightarrow>
       contents s' = (contents s)(sbp_name sbp \<mapsto> policy_content sbp)"
    and delete_contents:
      "if_DeleteStagedBindingPolicy R n s = (out', s') \<Longrightarrow>
       out' = Returns () \<and> contents s' = (contents s)(n := None)"
    and binding_contents: "if_NoteBinding R b s = (out', s') \<Longrightarrow> contents s' = contents s"
    and combinedStatus_contents:
      "if_NoteCombinedStatus R cs s = (out', s') \<Longrightarrow> contents s' = contents s"

lemma advances_contents:
  assumes "advances n r r'"
  shows "tracked_contents r' = tracked_contents r"
proof
  fix m
  show "tracked_contents r' m = tracked_contents r m"
  proof (cases "stagedBindingPolicies r m")
    case None
    then have "stagedBindingPolicies r' m = None" using advances_dom [OF assms] by blast
    with None show ?thesis by (simp add: tracked_contents_def)
  next
    case (Some d)
    then obtain d' where "stagedBindingPolicies r' m = Some d'" "entry_content d' = entry_content d"
      using advances_Some [OF assms Some] by (auto simp: entry_content_def)
    with Some show ?thesis by (simp add: tracked_contents_def)
  qed
qed

lemma attempt_contents: "tracked_contents (snd (attemptConditionLocked c n r)) = tracked_contents r"
  by (rule advances_contents [OF attempt_advances])

lemma attemptMatching_contents:
  "tracked_contents (snd (attemptMatching c n ks r)) = tracked_contents r"
proof (induction ks arbitrary: r)
  case Nil
  then show ?case by simp
next
  case (Cons k ks)
  obtain out r1 where "attemptConditionLocked c n r = (out, r1)" by fastforce
  with Cons.IH [of r] Cons.IH [of r1] attempt_contents [of c n r] show ?case by (cases out) auto
qed

lemma NoteBinding_contents:
  assumes "NoteBinding c b r = (out, r')"
  shows "tracked_contents r' = tracked_contents r"
  using assms
proof (cases rule: NoteBinding_cases)
  case ignored
  then show ?thesis by simp
next
  case (attempt n d)
  have "tracked_contents (update_entry n (\<lambda>d. d\<lparr>d_bindingSpec := b_spec b\<rparr>) r) = tracked_contents r"
    using attempt(2)
    by (auto simp: fun_eq_iff tracked_contents_def update_entry_def entry_content_def)
  with attempt(4) show ?thesis
    using attempt_contents [of c n "update_entry n (\<lambda>d. d\<lparr>d_bindingSpec := b_spec b\<rparr>) r"] by simp
qed

lemma NoteCombinedStatus_contents:
  "NoteCombinedStatus c cs r = (out, r') \<Longrightarrow> tracked_contents r' = tracked_contents r"
  using attemptMatching_contents [of c]
  by (auto simp: NoteCombinedStatus_def split: option.splits if_splits) (metis snd_conv)+

lemma NoteStagedBindingPolicy_contents:
  "NoteStagedBindingPolicy c sbp r = (out, r') \<Longrightarrow>
   tracked_contents r' = (tracked_contents r)(sbp_name sbp \<mapsto> policy_content sbp)"
  using note_entries [of c sbp r out r']
  by (auto simp: fun_eq_iff tracked_contents_def entry_content_def policy_content_def)

interpretation sbp_resolver: resolver_contract "NewResolver c" tracked_ok tracked_contents
proof
  show "tracked_ok s \<Longrightarrow> if_DeleteStagedBindingPolicy (NewResolver c) n s = (Returns u, s') \<Longrightarrow>
      tracked_ok s'" for s s' n u
    by (auto simp: DeleteStagedBindingPolicy_def elim: tracked_ok_delete)
  show "if_DeleteStagedBindingPolicy (NewResolver c) n s = (out', s') \<Longrightarrow>
      out' = Returns () \<and> tracked_contents s' = (tracked_contents s)(n := None)" for s s' n out'
    by (auto simp: DeleteStagedBindingPolicy_def fun_eq_iff tracked_contents_def)
qed (auto intro: note_tracked_ok binding_tracked_ok combinedStatus_tracked_ok
      simp: NoteStagedBindingPolicy_contents NoteBinding_contents NoteCombinedStatus_contents)

end
