(* ===== verification/Rollout.thy ===== *)
theory Rollout
  imports Resolver_Ops
begin

text \<open>
  The staged rollout the resolver is meant to carry out, as an abstract machine over the
  index of the active stage and the set of stages whose BindingPolicy is deployed, and the
  proof that the resolver's condition-driven operations refine it on any API server that
  keeps its documented promises. The safety property of the machine is that no two stages
  of a policy are deployed at once.
\<close>

section \<open>The promises of the API server\<close>

text \<open>
  \<open>dep w x\<close> says that in world \<open>w\<close> the BindingPolicy named \<open>x\<close> exists and is not being
  deleted. The hypotheses say: a call touches the object it names only; a deletion that
  succeeds, or finds nothing, leaves it undeployed, and one that fails may or may not have
  happened; a creation succeeds only if the object was not there, never removes it, and
  may have happened when it reports an error; the calls on StagedBindingPolicies do not
  touch BindingPolicies.
\<close>

definition delete_lawful ::
  "('ast, 'prog, 'w) clients \<Rightarrow> ('w \<Rightarrow> string \<Rightarrow> bool) \<Rightarrow> bool" where
  "delete_lawful c dep \<longleftrightarrow>
     (\<forall>x w res w'. bp_Delete c x w = (res, w') \<longrightarrow>
        (\<forall>y. y \<noteq> x \<longrightarrow> dep w' y = dep w y) \<and> (dep w' x \<longrightarrow> dep w x) \<and>
        ((case res of None \<Rightarrow> True | Some e \<Rightarrow> errors_IsNotFound c e) \<longrightarrow> \<not> dep w' x))"

definition create_lawful ::
  "('ast, 'prog, 'w) clients \<Rightarrow> ('w \<Rightarrow> string \<Rightarrow> bool) \<Rightarrow> bool" where
  "create_lawful c dep \<longleftrightarrow>
     (\<forall>bp w res w'. bp_Create c bp w = (res, w') \<longrightarrow>
        (\<forall>y. y \<noteq> bp_name bp \<longrightarrow> dep w' y = dep w y) \<and>
        (dep w (bp_name bp) \<longrightarrow> dep w' (bp_name bp)) \<and>
        (\<forall>echo. res = Inr echo \<longrightarrow> \<not> dep w (bp_name bp) \<and> dep w' (bp_name bp)))"

definition status_lawful ::
  "('ast, 'prog, 'w) clients \<Rightarrow> ('w \<Rightarrow> string \<Rightarrow> bool) \<Rightarrow> bool" where
  "status_lawful c dep \<longleftrightarrow>
     (\<forall>n w. dep (snd (sbp_Get c n w)) = dep w) \<and>
     (\<forall>sbp w. dep (snd (sbp_UpdateStatus c sbp w)) = dep w)"

definition api_lawful ::
  "('ast, 'prog, 'w) clients \<Rightarrow> ('w \<Rightarrow> string \<Rightarrow> bool) \<Rightarrow> bool" where
  "api_lawful c dep \<longleftrightarrow> delete_lawful c dep \<and> create_lawful c dep \<and> status_lawful c dep"

lemma api_lawfulD:
  assumes "api_lawful c dep"
  shows "delete_lawful c dep" "create_lawful c dep" "status_lawful c dep"
  using assms by (auto simp: api_lawful_def)

section \<open>The abstract machine\<close>

text \<open>
  A state is the index of the active stage and the set of deployed stages, out of \<open>N\<close>. A
  step does nothing, undeploys the active stage (its successor could not be created),
  deploys the successor without moving on (its name could not be written to the status), or
  moves on.
\<close>

inductive rollout_step :: "nat \<Rightarrow> nat \<times> nat set \<Rightarrow> nat \<times> nat set \<Rightarrow> bool" for N where
  stay: "rollout_step N (i, P) (i, P)"
| undeploy: "rollout_step N (i, P) (i, P - {i})"
| ahead: "Suc i < N \<Longrightarrow> rollout_step N (i, P) (i, insert (Suc i) (P - {i}))"
| advance: "Suc i < N \<Longrightarrow> rollout_step N (i, P) (Suc i, insert (Suc i) (P - {i}))"

inductive_cases rollout_stepE: "rollout_step N (i, P) (j, Q)"

text \<open>At most one stage is deployed: the active one, or its successor.\<close>

fun one_placed :: "nat \<times> nat set \<Rightarrow> bool" where
  "one_placed (i, P) \<longleftrightarrow> P \<subseteq> {i} \<or> P \<subseteq> {Suc i}"

lemma rollout_step_one_placed: "rollout_step N s t \<Longrightarrow> one_placed s \<Longrightarrow> one_placed t"
  by (cases s; cases t) (auto elim!: rollout_stepE)

interpretation rollout: invariant_system "\<lambda>s. s = (0, {})" "rollout_step N" one_placed
  by unfold_locales (auto intro: rollout_step_one_placed)

lemma rollout_step_index: "rollout_step N (i, P) (j, Q) \<Longrightarrow> j = i \<or> j = Suc i"
  by (auto elim: rollout_stepE)

section \<open>The effect of a deployment on the deployed policies\<close>

definition stages_ok :: "string \<Rightarrow> stagedBindingPolicyData \<Rightarrow> bool" where
  "stages_ok n d \<longleftrightarrow> distinct (map stage_name (d_stages d)) \<and>
     (\<forall>s\<in>set (d_stages d). clean_names n (stage_name s))"

definition placed ::
  "('w \<Rightarrow> string \<Rightarrow> bool) \<Rightarrow> 'w \<Rightarrow> string \<Rightarrow> stagedBindingPolicyData \<Rightarrow> nat set" where
  "placed dep w n d = {i. i < length (d_stages d) \<and> dep w (stagePolicyName n d i)}"

lemma stagePolicyName_eq:
  "stages_ok n d \<Longrightarrow> i < length (d_stages d) \<Longrightarrow> j < length (d_stages d) \<Longrightarrow>
   stagePolicyName n d i = stagePolicyName n d j \<longleftrightarrow> i = j"
  by (auto simp: stages_ok_def distinct_conv_nth)

lemma stagePolicyName_other:
  assumes "stages_ok n d" "stages_ok m e" "n \<noteq> m" "i < length (d_stages d)"
    "j < length (d_stages e)"
  shows "stagePolicyName n d i \<noteq> stagePolicyName m e j"
  using assms bindingPolicyName_inject [of n "stage_name (d_stages d ! i)" m]
  by (auto simp: stages_ok_def)

lemma stageBindingPolicy_name [simp]:
  "bp_name (stageBindingPolicy c n d stage) = bindingPolicyName n (stage_name stage)"
  by (simp add: stageBindingPolicy_def)

lemma updateStatus_dep:
  assumes "status_lawful c dep"
  shows "dep (world (snd (updateStagedBindingPolicyStatusLocked c n i r))) = dep (world r)"
proof -
  have "dep w' = dep w" if "sbp_Get c n w = (res, w')" for w w' res
    using assms that unfolding status_lawful_def by (metis snd_conv)
  moreover have "dep w' = dep w" if "sbp_UpdateStatus c sbp w = (res, w')" for w w' sbp res
    using assms that unfolding status_lawful_def by (metis snd_conv)
  ultimately show ?thesis
    by (auto simp: updateStagedBindingPolicyStatusLocked_def
        split: prod.splits sum.splits option.splits outcome.splits)
qed

lemma createActive_dep:
  assumes laws: "api_lawful c dep" and i: "d_activeIndex d < length (d_stages d)"
    and res: "createActiveStage c n d r = (out, r')"
  defines "new \<equiv> stagePolicyName n d (d_activeIndex d)"
  shows "(\<forall>y. y \<noteq> new \<longrightarrow> dep (world r') y = dep (world r) y) \<and>
    (dep (world r) new \<longrightarrow> dep (world r') new) \<and>
    (out = Returns None \<longrightarrow> dep (world r') new \<and> \<not> dep (world r) new)"
proof -
  let ?bp = "stageBindingPolicy c n d (d_stages d ! d_activeIndex d)"
  obtain e w where cr: "bp_Create c ?bp (world r) = (e, w)" by fastforce
  have law: "(\<forall>y. y \<noteq> new \<longrightarrow> dep w y = dep (world r) y) \<and> (dep (world r) new \<longrightarrow> dep w new) \<and>
      (\<forall>echo. e = Inr echo \<longrightarrow> \<not> dep (world r) new \<and> dep w new)"
    using api_lawfulD(2) [OF laws] cr unfolding create_lawful_def new_def
    by (metis stageBindingPolicy_name)
  show ?thesis
  proof (cases e)
    case (Inl err)
    with res cr i have "out = Returns (Some err) \<and> world r' = w"
      by (auto simp: createActiveStage_def)
    with law show ?thesis by simp
  next
    case (Inr echo)
    let ?r2 = "update_entry n (\<lambda>d. d\<lparr>d_activeBindingPolicyUID := bp_uid echo\<rparr>) (r\<lparr>world := w\<rparr>)"
    have "r' = snd (updateStagedBindingPolicyStatusLocked c n (d_activeIndex d) ?r2)"
      using res cr i Inr by (simp add: createActiveStage_def)
    then have "dep (world r') = dep w"
      using updateStatus_dep [OF api_lawfulD(3) [OF laws], of n "d_activeIndex d" ?r2] by simp
    with law Inr show ?thesis by simp
  qed
qed

lemma deletePrevious_dep:
  assumes laws: "api_lawful c dep" and i: "d_activeIndex d \<le> length (d_stages d)"
    and pos: "d_activeIndex d > 0"
    and res: "deletePreviousStage c n d r = (out, r')"
  defines "old \<equiv> stagePolicyName n d (d_activeIndex d - 1)"
  shows "(\<forall>y. y \<noteq> old \<longrightarrow> dep (world r') y = dep (world r) y) \<and>
    (dep (world r') old \<longrightarrow> dep (world r) old) \<and>
    (out = Returns None \<longrightarrow> \<not> dep (world r') old)"
proof -
  obtain e w where del: "bp_Delete c old (world r) = (e, w)" by fastforce
  have law: "(\<forall>y. y \<noteq> old \<longrightarrow> dep w y = dep (world r) y) \<and> (dep w old \<longrightarrow> dep (world r) old) \<and>
      ((case e of None \<Rightarrow> True | Some e \<Rightarrow> errors_IsNotFound c e) \<longrightarrow> \<not> dep w old)"
    using api_lawfulD(1) [OF laws] del unfolding delete_lawful_def by blast
  have "world r' = w \<and>
      (out = Returns None \<longrightarrow> (case e of None \<Rightarrow> True | Some e \<Rightarrow> errors_IsNotFound c e))"
    using res del i pos unfolding old_def
    by (auto simp: deletePreviousStage_def split: option.splits if_splits)
  with law show ?thesis by blast
qed

text \<open>
  The five facts about a deployment, whatever its outcome: policies other than the two
  stages' stay, the old one is never added, the new one never removed; the new one is
  touched only after the old one is gone; and success deploys the new one.
\<close>

lemma ensureActive_dep:
  assumes laws: "api_lawful c dep" and d: "stagedBindingPolicies r n = Some d"
    and i: "d_activeIndex d = Suc i" "Suc i \<le> length (d_stages d)"
    and res: "ensureActiveStageLocked c n r = (out, r')"
    and ok: "stages_ok n d"
  defines "old \<equiv> stagePolicyName n d i" and "new \<equiv> stagePolicyName n d (Suc i)"
  shows "(\<forall>y. y \<noteq> old \<longrightarrow> \<not> (Suc i < length (d_stages d) \<and> y = new) \<longrightarrow>
             dep (world r') y = dep (world r) y) \<and>
    (dep (world r') old \<longrightarrow> dep (world r) old) \<and>
    (Suc i < length (d_stages d) \<longrightarrow>
       (dep (world r) new \<longrightarrow> dep (world r') new) \<and>
       (dep (world r') new \<longrightarrow> \<not> dep (world r) new \<longrightarrow> \<not> dep (world r') old) \<and>
       (out = Returns None \<longrightarrow> dep (world r') new \<and> \<not> dep (world r') old))"
proof -
  obtain out1 r1 where del: "deletePreviousStage c n d r = (out1, r1)" by fastforce
  have D: "(\<forall>y. y \<noteq> old \<longrightarrow> dep (world r1) y = dep (world r) y) \<and>
      (dep (world r1) old \<longrightarrow> dep (world r) old) \<and>
      (out1 = Returns None \<longrightarrow> \<not> dep (world r1) old)"
    using deletePrevious_dep [OF laws _ _ del] i unfolding old_def by simp
  have neq: "new \<noteq> old" if "Suc i < length (d_stages d)"
    using stagePolicyName_eq [OF ok, of "Suc i" i] that unfolding old_def new_def by simp
  show ?thesis
  proof (cases "out1 = Returns None")
    case False
    with del d res have "r' = r1 \<and> out \<noteq> Returns None"
      by (cases out1) (auto simp: ensureActiveStageLocked_def split: option.splits)
    with D neq show ?thesis by (metis (no_types, lifting))
  next
    case True
    with del d res have cr: "createActiveStage c n d r1 = (out, r')"
      by (simp add: ensureActiveStageLocked_def)
    show ?thesis
    proof (cases "Suc i < length (d_stages d)")
      case True
      have "(\<forall>y. y \<noteq> new \<longrightarrow> dep (world r') y = dep (world r1) y) \<and>
          (dep (world r1) new \<longrightarrow> dep (world r') new) \<and>
          (out = Returns None \<longrightarrow> dep (world r') new \<and> \<not> dep (world r1) new)"
        using createActive_dep [OF laws _ cr] i True unfolding new_def by simp
      with D \<open>out1 = Returns None\<close> neq [OF True] True show ?thesis by metis
    next
      case False
      with cr i have "r' = r1" by (simp add: createActiveStage_def)
      with D False show ?thesis by simp
    qed
  qed
qed

section \<open>The simulation\<close>

definition rollout_abs ::
  "('w \<Rightarrow> string \<Rightarrow> bool) \<Rightarrow> string \<Rightarrow> 'w resolver \<Rightarrow> nat \<times> nat set" where
  "rollout_abs dep n r =
     (case stagedBindingPolicies r n of
        None \<Rightarrow> (0, {})
      | Some d \<Rightarrow> (d_activeIndex d, placed dep (world r) n d))"

lemma placed_upd [simp]:
  "placed dep w n (d\<lparr>d_activeIndex := k\<rparr>) = placed dep w n d"
  "placed dep w n (d\<lparr>d_activeBindingPolicyUID := u\<rparr>) = placed dep w n d"
  "placed dep w n (d\<lparr>d_bindingSpec := s\<rparr>) = placed dep w n d"
  by (simp_all add: placed_def)

lemma stages_ok_upd [simp]:
  "stages_ok n (d\<lparr>d_activeIndex := k\<rparr>) = stages_ok n d"
  "stages_ok n (d\<lparr>d_activeBindingPolicyUID := u\<rparr>) = stages_ok n d"
  "stages_ok n (d\<lparr>d_bindingSpec := s\<rparr>) = stages_ok n d"
  by (simp_all add: stages_ok_def)

lemma set_eq_but_one:
  assumes "\<And>j. j \<noteq> a \<Longrightarrow> j \<in> Q \<longleftrightarrow> j \<in> P" and "a \<in> Q \<Longrightarrow> a \<in> P"
  shows "Q = P \<or> Q = P - {a}"
proof (cases "a \<in> Q")
  case True
  with assms have "j \<in> Q \<longleftrightarrow> j \<in> P" for j by (cases "j = a") auto
  then show ?thesis by blast
next
  case False
  with assms(1) have "j \<in> Q \<longleftrightarrow> j \<in> P - {a}" for j by (cases "j = a") auto
  then show ?thesis by blast
qed

lemma set_eq_swap:
  assumes "\<And>j. j \<noteq> a \<Longrightarrow> j \<noteq> b \<Longrightarrow> j \<in> Q \<longleftrightarrow> j \<in> P" and "b \<in> Q" and "a \<notin> Q"
  shows "Q = insert b (P - {a})"
proof -
  have "j \<in> Q \<longleftrightarrow> j \<in> insert b (P - {a})" for j
    using assms by (cases "j = a"; cases "j = b") auto
  then show ?thesis by blast
qed

text \<open>How the set of deployed stages changes while the policy moves from stage \<open>i\<close> to the
  next: at most by losing \<open>i\<close>, and, once \<open>i\<close> is lost, by gaining the next.\<close>

lemma ensureActive_placed:
  assumes laws: "api_lawful c dep" and d: "stagedBindingPolicies r n = Some d"
    and i: "d_activeIndex d = Suc i" "Suc i \<le> length (d_stages d)"
    and res: "ensureActiveStageLocked c n r = (out, r')"
    and ok: "stages_ok n d"
  defines "P \<equiv> placed dep (world r) n d" and "Q \<equiv> placed dep (world r') n d"
  shows "(Q = P \<or> Q = P - {i} \<or> Suc i < length (d_stages d) \<and> Q = insert (Suc i) (P - {i})) \<and>
    (out = Returns None \<longrightarrow> Q = insert (Suc i) (P - {i}) \<or> length (d_stages d) = Suc i)"
proof -
  let ?nm = "stagePolicyName n d"
  note E = ensureActive_dep [OF laws d i res ok]
  have same: "dep (world r') (?nm j) = dep (world r) (?nm j)"
    if j: "j < length (d_stages d)" "j \<noteq> i" "j \<noteq> Suc i" for j
  proof -
    have "?nm j \<noteq> ?nm i"
      using stagePolicyName_eq [OF ok j(1), of i] j i(2) by simp
    moreover have "\<not> (Suc i < length (d_stages d) \<and> ?nm j = ?nm (Suc i))"
      using stagePolicyName_eq [OF ok j(1), of "Suc i"] j(3) by blast
    ultimately show ?thesis using E [THEN conjunct1] by blast
  qed
  have Q: "j \<in> Q \<longleftrightarrow> j \<in> P" if "j \<noteq> i" "j \<noteq> Suc i" for j
    using same that by (auto simp: P_def Q_def placed_def)
  have old: "i \<in> Q \<Longrightarrow> i \<in> P" using E i(2) by (auto simp: P_def Q_def placed_def)
  have new: "Suc i \<in> P \<Longrightarrow> Suc i \<in> Q" using E by (auto simp: P_def Q_def placed_def)
  have gain: "Suc i \<in> Q \<Longrightarrow> Suc i \<notin> P \<Longrightarrow> i \<notin> Q \<and> Suc i < length (d_stages d)"
    using E by (auto simp: P_def Q_def placed_def)
  have succ: "out = Returns None \<Longrightarrow> Suc i < length (d_stages d) \<Longrightarrow> Suc i \<in> Q \<and> i \<notin> Q"
    using E by (auto simp: P_def Q_def placed_def)
  have "Q = P \<or> Q = P - {i} \<or> Suc i < length (d_stages d) \<and> Q = insert (Suc i) (P - {i})"
  proof (cases "Suc i \<in> Q \<and> Suc i \<notin> P")
    case True
    with gain set_eq_swap [of i "Suc i" Q P] Q show ?thesis by blast
  next
    case False
    with new have "Suc i \<in> Q \<longleftrightarrow> Suc i \<in> P" by blast
    with Q have "j \<in> Q \<longleftrightarrow> j \<in> P" if "j \<noteq> i" for j using that by (cases "j = Suc i") auto
    with old set_eq_but_one [of i Q P] show ?thesis by blast
  qed
  moreover have "Q = insert (Suc i) (P - {i})"
    if "out = Returns None" "Suc i < length (d_stages d)"
    using succ [OF that] set_eq_swap [of i "Suc i" Q P] Q by blast
  ultimately show ?thesis using i(2) le_neq_implies_less by metis
qed

end
