(* ===== verification/Rollout_System.thy ===== *)
theory Rollout_System
  imports Rollout
begin

text \<open>
  The resolver refines the abstract rollout (\<open>Rollout\<close>) step by step, and what follows for
  every run of it: no two stages of a policy deployed at once, as long as a policy is noted
  with a status that is in step with what is deployed. The last section is about the runs
  where it is not, and about a policy that is noted again.
\<close>

section \<open>One attempt refines one abstract step\<close>

lemma stageUp_simulates:
  assumes laws: "api_lawful c dep" and d: "stagedBindingPolicies r n = Some d"
    and ok: "stages_ok n d" and i: "d_activeIndex d < length (d_stages d)"
    and res: "stageUpLocked c n r = (Returns u, r')"
  shows "rollout_step (length (d_stages d)) (rollout_abs dep n r) (rollout_abs dep n r')"
proof -
  let ?i = "d_activeIndex d"
  let ?d = "d\<lparr>d_activeIndex := Suc ?i\<rparr>"
  let ?r = "r\<lparr>stagedBindingPolicies := (stagedBindingPolicies r)(n \<mapsto> ?d)\<rparr>"
  let ?P = "placed dep (world r) n d"
  obtain out r2 where ens: "ensureActiveStageLocked c n ?r = (out, r2)" by fastforce
  have dr: "stagedBindingPolicies ?r n = Some ?d" by simp
  have Q: "(placed dep (world r2) n ?d = ?P \<or> placed dep (world r2) n ?d = ?P - {?i} \<or>
      Suc ?i < length (d_stages d) \<and> placed dep (world r2) n ?d = insert (Suc ?i) (?P - {?i})) \<and>
    (out = Returns None \<longrightarrow>
      placed dep (world r2) n ?d = insert (Suc ?i) (?P - {?i}) \<or> length (d_stages d) = Suc ?i)"
    using ensureActive_placed [OF laws dr _ _ ens, of ?i] i ok
    by simp
  obtain u' where u: "stagedBindingPolicies r2 n = Some (?d\<lparr>d_activeBindingPolicyUID := u'\<rparr>)"
    using ensureActive_entries [OF dr, of c] ens by auto
  have absr: "rollout_abs dep n r = (?i, ?P)" using d by (simp add: rollout_abs_def)
  show ?thesis
  proof (cases "out = Returns None")
    case True
    then have "deployment c n ?d ?r r2" using ens ensureActive_ok [OF dr, of c r2] i by simp
    then have lt: "Suc ?i < length (d_stages d)" by (simp add: deployment_def)
    have "r' = r2" using res ens True by (simp add: stageUp_eq [OF d i])
    then have "rollout_abs dep n r' = (Suc ?i, insert (Suc ?i) (?P - {?i}))"
      using u Q True lt by (simp add: rollout_abs_def placed_def)
    with absr lt show ?thesis by (simp add: rollout_step.advance)
  next
    case False
    with res ens obtain e where "out = Returns (Some e)"
      by (cases out) (auto simp: stageUp_eq [OF d i] split: option.splits)
    then have "r' = update_entry n (\<lambda>d. d\<lparr>d_activeIndex := d_activeIndex d - 1\<rparr>) r2"
      using res ens by (simp add: stageUp_eq [OF d i])
    then have absr': "rollout_abs dep n r' = (?i, placed dep (world r2) n ?d)"
      using u by (simp add: rollout_abs_def placed_def)
    show ?thesis
      using Q [THEN conjunct1] unfolding absr absr'
      by (elim disjE conjE) (simp_all only: rollout_step.intros)
  qed
qed

lemma attempt_simulates:
  assumes laws: "api_lawful c dep" and d: "stagedBindingPolicies r n = Some d"
    and ok: "stages_ok n d"
    and res: "attemptConditionLocked c n r = (Returns u, r')"
  shows "rollout_step (length (d_stages d)) (rollout_abs dep n r) (rollout_abs dep n r')"
proof (cases "d_activeIndex d < length (d_stages d)")
  case True
  from attempt_cases [of c n r] show ?thesis
  proof
    assume "attemptConditionLocked c n r = stageUpLocked c n r"
    with res stageUp_simulates [OF laws d ok True] show ?thesis by metis
  next
    assume "\<exists>res. attemptConditionLocked c n r = (res, r)"
    with res show ?thesis by (cases "rollout_abs dep n r") (auto intro: rollout_step.stay)
  qed
next
  case False
  with d res show ?thesis
    by (cases "rollout_abs dep n r")
       (auto simp: attemptConditionLocked_def intro: rollout_step.stay)
qed

section \<open>Other policies\<close>

text \<open>An operation on \<open>n\<close> touches only BindingPolicies named after stages of \<open>n\<close>.\<close>

lemma deletePrevious_dep_other:
  assumes "delete_lawful c dep" and "\<forall>s\<in>set (d_stages d). y \<noteq> bindingPolicyName n (stage_name s)"
  shows "dep (world (snd (deletePreviousStage c n d r))) y = dep (world r) y"
proof (cases "0 < d_activeIndex d \<and> d_activeIndex d - 1 < length (d_stages d)")
  case True
  let ?x = "stagePolicyName n d (d_activeIndex d - 1)"
  obtain res w where del: "bp_Delete c ?x (world r) = (res, w)" by fastforce
  have "y \<noteq> ?x" using assms(2) True by simp
  with assms(1) del have "dep w y = dep (world r) y" unfolding delete_lawful_def by blast
  with True del show ?thesis by (auto simp: deletePreviousStage_def split: option.splits)
qed (auto simp: deletePreviousStage_def)

lemma createActive_dep_other:
  assumes "api_lawful c dep" and "\<forall>s\<in>set (d_stages d). y \<noteq> bindingPolicyName n (stage_name s)"
  shows "dep (world (snd (createActiveStage c n d r))) y = dep (world r) y"
proof (cases "d_activeIndex d < length (d_stages d)")
  case True
  then have "y \<noteq> stagePolicyName n d (d_activeIndex d)" using assms(2) by simp
  then show ?thesis
    using createActive_dep [OF assms(1) True]
    by (cases "createActiveStage c n d r") auto
qed (simp add: createActiveStage_def)

lemma ensureActive_dep_other:
  assumes "api_lawful c dep" and "stagedBindingPolicies r n = Some d"
    and "\<forall>s\<in>set (d_stages d). y \<noteq> bindingPolicyName n (stage_name s)"
  shows "dep (world (snd (ensureActiveStageLocked c n r))) y = dep (world r) y"
proof -
  obtain out r1 where del: "deletePreviousStage c n d r = (out, r1)" by fastforce
  with deletePrevious_dep_other [OF api_lawfulD(1) [OF assms(1)] assms(3), of r]
  have "dep (world r1) y = dep (world r) y" by simp
  with del assms(2) createActive_dep_other [OF assms(1,3), of r1] show ?thesis
    by (cases out) (auto simp: ensureActiveStageLocked_def split: option.splits)
qed

lemma attempt_dep_other:
  assumes laws: "api_lawful c dep" and d: "stagedBindingPolicies r n = Some d"
    and y: "\<forall>s\<in>set (d_stages d). y \<noteq> bindingPolicyName n (stage_name s)"
  shows "dep (world (snd (attemptConditionLocked c n r))) y = dep (world r) y"
proof (cases "d_activeIndex d < length (d_stages d)")
  case True
  let ?d = "d\<lparr>d_activeIndex := Suc (d_activeIndex d)\<rparr>"
  let ?r = "r\<lparr>stagedBindingPolicies := (stagedBindingPolicies r)(n \<mapsto> ?d)\<rparr>"
  obtain out r2 where ens: "ensureActiveStageLocked c n ?r = (out, r2)" by fastforce
  have "dep (world r2) y = dep (world r) y"
    using ensureActive_dep_other [OF laws, of ?r n ?d y] y ens by simp
  then have "dep (world (snd (stageUpLocked c n r))) y = dep (world r) y"
    using ens by (cases out) (auto simp: stageUp_eq [OF d True] split: option.splits)
  with attempt_cases [of c n r] show ?thesis by auto
next
  case False
  with d show ?thesis by (simp add: attemptConditionLocked_def)
qed

section \<open>The invariant of the whole resolver\<close>

definition single_placement :: "('w \<Rightarrow> string \<Rightarrow> bool) \<Rightarrow> 'w resolver \<Rightarrow> bool" where
  "single_placement dep r \<longleftrightarrow>
     tracked_ok r \<and>
     (\<forall>n d. stagedBindingPolicies r n = Some d \<longrightarrow>
        stages_ok n d \<and> one_placed (rollout_abs dep n r))"

lemma single_placementD:
  assumes "single_placement dep r" and "stagedBindingPolicies r n = Some d"
  shows "stages_ok n d" "one_placed (rollout_abs dep n r)"
  using assms by (auto simp: single_placement_def)

lemma rollout_abs_cong:
  assumes "stagedBindingPolicies r' n = Some d'" "stagedBindingPolicies r n = Some d"
    and "d_stages d' = d_stages d" "d_activeIndex d' = d_activeIndex d"
    and "\<And>i. i < length (d_stages d) \<Longrightarrow>
      dep (world r') (stagePolicyName n d i) = dep (world r) (stagePolicyName n d i)"
  shows "rollout_abs dep n r' = rollout_abs dep n r"
  using assms by (auto simp: rollout_abs_def placed_def)

lemma attempt_single_placement:
  assumes laws: "api_lawful c dep" and inv: "single_placement dep r"
    and res: "attemptConditionLocked c n r = (Returns u, r')"
  shows "single_placement dep r'"
proof (cases "stagedBindingPolicies r n")
  case None
  with res inv show ?thesis by (simp add: attempt_None)
next
  case (Some d)
  note d = this
  have adv: "advances n r r'" using attempt_advances [of n r c] res by simp
  have tok: "tracked_ok r'"
    using inv res attempt_tracked_ok by (auto simp: single_placement_def)
  have "stages_ok m e' \<and> one_placed (rollout_abs dep m r')"
    if e': "stagedBindingPolicies r' m = Some e'" for m e'
  proof -
    obtain e where e: "stagedBindingPolicies r m = Some e"
      using advances_dom [OF adv] e' by (auto simp: dom_def)
    from advances_Some [OF adv e] e' have st: "d_stages e' = d_stages e" by fastforce
    have ok: "stages_ok m e'"
      using single_placementD(1) [OF inv e] st by (simp add: stages_ok_def)
    show ?thesis
    proof (cases "m = n")
      case True
      with attempt_simulates [OF laws d single_placementD(1) [OF inv d] res]
        single_placementD(2) [OF inv d] ok
      show ?thesis by (auto intro: rollout_step_one_placed)
    next
      case False
      have "e' = e" using advances_other [OF adv False] e e' by simp
      have "dep (world r') (stagePolicyName m e i) = dep (world r) (stagePolicyName m e i)"
        if "i < length (d_stages e)" for i
      proof -
        have "\<forall>s\<in>set (d_stages d). stagePolicyName m e i \<noteq> bindingPolicyName n (stage_name s)"
        proof
          fix s assume "s \<in> set (d_stages d)"
          then obtain j where "j < length (d_stages d)" "s = d_stages d ! j"
            by (auto simp: in_set_conv_nth)
          then show "stagePolicyName m e i \<noteq> bindingPolicyName n (stage_name s)"
            using stagePolicyName_other [OF single_placementD(1) [OF inv e]
                single_placementD(1) [OF inv d] False that] by blast
        qed
        then show ?thesis using attempt_dep_other [OF laws d] res by (metis snd_conv)
      qed
      then have "rollout_abs dep m r' = rollout_abs dep m r"
        using e e' \<open>e' = e\<close> by (intro rollout_abs_cong) auto
      with ok single_placementD(2) [OF inv e] show ?thesis by simp
    qed
  qed
  with tok show ?thesis by (simp add: single_placement_def)
qed

lemma binding_single_placement:
  assumes laws: "api_lawful c dep" and inv: "single_placement dep r"
    and res: "NoteBinding c b r = (Returns u, r')"
  shows "single_placement dep r'"
  using res
proof (cases rule: NoteBinding_cases)
  case ignored
  with inv show ?thesis by simp
next
  case (attempt n d)
  let ?r = "update_entry n (\<lambda>d. d\<lparr>d_bindingSpec := b_spec b\<rparr>) r"
  have "rollout_abs dep m ?r = rollout_abs dep m r" for m
    using attempt(2) by (cases "m = n") (auto simp: rollout_abs_def split: option.splits)
  moreover have "tracked_ok ?r"
    using inv attempt(2) by (auto simp: single_placement_def intro: spec_tracked_ok)
  moreover have "stages_ok m e" if "stagedBindingPolicies ?r m = Some e" for m e
    using that inv by (cases "m = n") (auto simp: single_placement_def)
  ultimately have "single_placement dep ?r"
    using inv by (auto simp: single_placement_def update_entry_def split: if_splits)
  then show ?thesis using attempt(4) by (rule attempt_single_placement [OF laws])
qed

lemma combinedStatus_single_placement:
  assumes laws: "api_lawful c dep" and keys: "ranges_keys c" and inv: "single_placement dep r"
    and res: "NoteCombinedStatus c cs r = (Returns u, r')"
  shows "single_placement dep r'"
proof -
  have "finite (dom (stagedBindingPolicies r))"
    using inv by (simp add: single_placement_def tracked_ok_def)
  from NoteCombinedStatus_eq [OF keys this] res inv attempt_single_placement [OF laws inv]
  show ?thesis by (auto split: if_splits option.splits)
qed

lemma delete_single_placement:
  assumes inv: "single_placement dep r"
    and res: "DeleteStagedBindingPolicy n r = (Returns u, r')"
  shows "single_placement dep r'"
proof -
  have r': "r' = r\<lparr>stagedBindingPolicies := (stagedBindingPolicies r)(n := None)\<rparr>"
    using res by (simp add: DeleteStagedBindingPolicy_def)
  have "rollout_abs dep m r' = rollout_abs dep m r" if "m \<noteq> n" for m
    using that by (simp add: rollout_abs_def r' split: option.split)
  moreover have "tracked_ok r'"
    using inv r' tracked_ok_delete [of r r' n] by (simp add: single_placement_def)
  ultimately show ?thesis
    using inv r' by (auto simp: single_placement_def split: if_splits)
qed

section \<open>Noting a policy\<close>

text \<open>
  A policy is noted in step when no stage of it is deployed but, at most, the one its
  status names. This is so when it is new, and when it comes back with a status that was
  written after its last deployment.
\<close>

definition noted_in_step ::
  "('w \<Rightarrow> string \<Rightarrow> bool) \<Rightarrow> staged_binding_policy \<Rightarrow> 'w resolver \<Rightarrow> bool" where
  "noted_in_step dep sbp r \<longleftrightarrow>
     stages_ok (sbp_name sbp) (newPolicyData sbp) \<and>
     placed dep (world r) (sbp_name sbp) (newPolicyData sbp) \<subseteq> {activeStageIndex sbp}"

lemma ensureActive_placed_subset:
  assumes laws: "api_lawful c dep" and d: "stagedBindingPolicies r n = Some d"
    and ok: "stages_ok n d" and i: "d_activeIndex d < length (d_stages d)"
    and res: "ensureActiveStageLocked c n r = (out, r')"
    and P: "placed dep (world r) n d \<subseteq> {d_activeIndex d}"
  shows "placed dep (world r') n d \<subseteq> {d_activeIndex d}"
proof (cases "d_activeIndex d")
  case (Suc i)
  with ensureActive_placed [OF laws d Suc _ res ok] assms(4) P show ?thesis by auto
next
  case 0
  have "createActiveStage c n d r = (out, r')"
    using res d 0 by (simp add: ensureActiveStageLocked_def deletePreviousStage_def)
  from createActive_dep [OF laws i this]
  have "dep (world r') (stagePolicyName n d j) = dep (world r) (stagePolicyName n d j)"
    if "j < length (d_stages d)" "j \<noteq> d_activeIndex d" for j
    using that stagePolicyName_eq [OF ok that(1) i] by blast
  with P show ?thesis by (auto simp: placed_def)
qed

lemma note_single_placement:
  assumes laws: "api_lawful c dep" and inv: "single_placement dep r"
    and step: "noted_in_step dep sbp r"
    and res: "NoteStagedBindingPolicy c sbp r = (Returns err, r')"
  shows "single_placement dep r'"
proof -
  let ?n = "sbp_name sbp" and ?d = "newPolicyData sbp"
  have st: "spec_stages (sbp_spec sbp) \<noteq> []" using res by (auto simp: note_no_stages)
  note i = activeStageIndex_bound [OF st]
  have ok: "stages_ok ?n ?d" using step by (simp add: noted_in_step_def)
  have ens: "ensureActiveStageLocked c ?n (noted sbp r) = (Returns err, r')"
    using res by (simp add: NoteStagedBindingPolicy_eq)
  have d: "stagedBindingPolicies (noted sbp r) ?n = Some ?d" by simp
  obtain u where r': "stagedBindingPolicies r' =
      (stagedBindingPolicies r)(?n \<mapsto> ?d\<lparr>d_activeBindingPolicyUID := u\<rparr>)"
    using note_entries [OF res] by blast
  have "placed dep (world r') ?n ?d \<subseteq> {activeStageIndex sbp}"
    using ensureActive_placed_subset [OF laws d ok _ ens] i step by (simp add: noted_in_step_def)
  then have own: "one_placed (rollout_abs dep ?n r')" by (simp add: rollout_abs_def r')
  have other: "one_placed (rollout_abs dep m r')"
    if m: "m \<noteq> ?n" and e: "stagedBindingPolicies r m = Some e" for m e
  proof -
    have "dep (world r') (stagePolicyName m e j) = dep (world r) (stagePolicyName m e j)"
      if j: "j < length (d_stages e)" for j
    proof -
      have "\<forall>s\<in>set (d_stages ?d). stagePolicyName m e j \<noteq> bindingPolicyName ?n (stage_name s)"
      proof
        fix s assume "s \<in> set (d_stages ?d)"
        then obtain k where "k < length (d_stages ?d)" "s = d_stages ?d ! k"
          by (auto simp: in_set_conv_nth)
        then show "stagePolicyName m e j \<noteq> bindingPolicyName ?n (stage_name s)"
          using stagePolicyName_other [OF single_placementD(1) [OF inv e] ok m j] by blast
      qed
      then show ?thesis using ensureActive_dep_other [OF laws d] ens by (metis resolver.select_convs(2)
            resolver.surjective resolver.update_convs(1) snd_conv)
    qed
    then have "rollout_abs dep m r' = rollout_abs dep m r"
      using e m r' by (intro rollout_abs_cong) auto
    with single_placementD(2) [OF inv e] show ?thesis by simp
  qed
  show ?thesis
    using note_tracked_ok [OF _ res] inv r' own other ok
    by (auto simp: single_placement_def split: if_splits)
qed

section \<open>Runs\<close>

text \<open>
  The runs of the resolver among other actors: an operation that returns, or any change of
  the world. A panic ends the process, so it has no step.
\<close>

inductive resolver_step ::
  "('ast, 'prog, 'w) clients \<Rightarrow> 'w resolver \<Rightarrow> 'w resolver \<Rightarrow> bool" for c where
  note_sbp: "NoteStagedBindingPolicy c sbp r = (Returns err, r') \<Longrightarrow> resolver_step c r r'"
| delete_sbp: "DeleteStagedBindingPolicy n r = (Returns (), r') \<Longrightarrow> resolver_step c r r'"
| note_binding: "NoteBinding c b r = (Returns (), r') \<Longrightarrow> resolver_step c r r'"
| note_cs: "NoteCombinedStatus c cs r = (Returns (), r') \<Longrightarrow> resolver_step c r r'"
| environment: "resolver_step c r (r\<lparr>world := w\<rparr>)"

interpretation tracked: invariant_system "\<lambda>r. \<exists>w. r = new_resolver w" "resolver_step c" tracked_ok
proof
  show "tracked_ok r" if "\<exists>w. r = new_resolver w" for r :: "'w resolver"
    using that by (auto simp: tracked_ok_new)
  show "tracked_ok t" if "resolver_step c s t" "tracked_ok s" for s t
    using that
    by cases (auto simp: DeleteStagedBindingPolicy_def
        intro: note_tracked_ok binding_tracked_ok combinedStatus_tracked_ok tracked_ok_delete
          tracked_ok_cong)
qed

text \<open>
  The managed runs: policies are noted in step, and the other actors may remove the
  BindingPolicies of the stages but not create them.
\<close>

inductive managed_step ::
  "('ast, 'prog, 'w) clients \<Rightarrow> ('w \<Rightarrow> string \<Rightarrow> bool) \<Rightarrow> 'w resolver \<Rightarrow> 'w resolver \<Rightarrow> bool"
  for c dep where
  note_sbp: "noted_in_step dep sbp r \<Longrightarrow>
     NoteStagedBindingPolicy c sbp r = (Returns err, r') \<Longrightarrow> managed_step c dep r r'"
| delete_sbp: "DeleteStagedBindingPolicy n r = (Returns (), r') \<Longrightarrow> managed_step c dep r r'"
| note_binding: "NoteBinding c b r = (Returns (), r') \<Longrightarrow> managed_step c dep r r'"
| note_cs: "NoteCombinedStatus c cs r = (Returns (), r') \<Longrightarrow> managed_step c dep r r'"
| environment: "(\<And>x. dep w x \<Longrightarrow> dep (world r) x) \<Longrightarrow> managed_step c dep r (r\<lparr>world := w\<rparr>)"

lemma one_placed_mono: "one_placed (i, P) \<Longrightarrow> Q \<subseteq> P \<Longrightarrow> one_placed (i, Q)"
  by auto

lemma environment_single_placement:
  assumes "single_placement dep r" and "\<And>x. dep w x \<Longrightarrow> dep (world r) x"
  shows "single_placement dep (r\<lparr>world := w\<rparr>)"
proof -
  have "one_placed (rollout_abs dep n (r\<lparr>world := w\<rparr>))"
    if d: "stagedBindingPolicies r n = Some d" for n d
  proof -
    have "placed dep w n d \<subseteq> placed dep (world r) n d"
      using assms(2) by (auto simp: placed_def)
    with single_placementD(2) [OF assms(1) d] d show ?thesis
      by (simp add: rollout_abs_def del: one_placed.simps) (erule one_placed_mono)
  qed
  with assms(1) show ?thesis by (auto simp: single_placement_def tracked_ok_def)
qed

interpretation managed: invariant_system
  "\<lambda>r. \<exists>w. r = new_resolver w" "managed_step c dep"
  "\<lambda>r. api_lawful c dep \<longrightarrow> ranges_keys c \<longrightarrow> single_placement dep r"
proof
  show "api_lawful c dep \<longrightarrow> ranges_keys c \<longrightarrow> single_placement dep r"
    if "\<exists>w. r = new_resolver w" for r
    using that by (auto simp: single_placement_def new_resolver_def tracked_ok_def)
  show "api_lawful c dep \<longrightarrow> ranges_keys c \<longrightarrow> single_placement dep t"
    if "managed_step c dep s t" "api_lawful c dep \<longrightarrow> ranges_keys c \<longrightarrow> single_placement dep s"
    for s t
    using that
    by cases (auto intro: note_single_placement delete_single_placement
        binding_single_placement combinedStatus_single_placement environment_single_placement)
qed

end
