(* ===== verification/Rollout_Faults.thy ===== *)
theory Rollout_Faults
  imports Rollout_System
begin

text \<open>
  What the resolver's error paths lead to: the state an error leaves at each call of a
  deployment; the two stages that end up deployed when a status could not be written and
  the policy is noted again; the policy that is blocked when it is noted while its active
  stage is deployed already.
\<close>

section \<open>Errors in the middle of staging up\<close>

text \<open>The successor of the active stage, as \<open>stageUpLocked\<close> hands it to the deployment.\<close>

abbreviation next_stage :: "stagedBindingPolicyData \<Rightarrow> stagedBindingPolicyData" where
  "next_stage d \<equiv> d\<lparr>d_activeIndex := Suc (d_activeIndex d)\<rparr>"

lemma stageUp_create_error:
  assumes d: "stagedBindingPolicies r n = Some d" and i: "Suc (d_activeIndex d) < length (d_stages d)"
    and del: "previousDeleted c n (next_stage d) (world r) w1"
    and cr: "bp_Create c (stageBindingPolicy c n (next_stage d)
        (d_stages d ! Suc (d_activeIndex d))) w1 = (Inl e, w2)"
  shows "stageUpLocked c n r = (Returns (), r\<lparr>world := w2\<rparr>)"
proof -
  let ?r = "r\<lparr>stagedBindingPolicies := (stagedBindingPolicies r)(n \<mapsto> next_stage d)\<rparr>"
  have "deletePreviousStage c n (next_stage d) ?r = (Returns None, ?r\<lparr>world := w1\<rparr>)"
    using deletePrevious_ok [of "next_stage d" c n ?r] del i by fastforce
  with i cr have "ensureActiveStageLocked c n ?r = (Returns (Some e), ?r\<lparr>world := w2\<rparr>)"
    by (simp add: ensureActiveStageLocked_def createActiveStage_def)
  with d i show ?thesis by (simp add: stageUp_eq update_entry_def fun_upd_idem)
qed

text \<open>
  When only the status cannot be written the index is reverted, but the new BindingPolicy
  stays, and its UID is recorded with the old index.
\<close>

lemma stageUp_status_error:
  assumes d: "stagedBindingPolicies r n = Some d" and i: "Suc (d_activeIndex d) < length (d_stages d)"
    and del: "previousDeleted c n (next_stage d) (world r) w1"
    and cr: "bp_Create c (stageBindingPolicy c n (next_stage d)
        (d_stages d ! Suc (d_activeIndex d))) w1 = (Inr echo, w2)"
    and get: "sbp_Get c n w2 = (Inr sbp, w3)"
    and upd: "sbp_UpdateStatus c
        (set_activeStage (stage_name (d_stages d ! Suc (d_activeIndex d))) sbp) w3 = (Inl e, w4)"
  shows "stageUpLocked c n r =
    (Returns (),
     \<lparr>stagedBindingPolicies = (stagedBindingPolicies r)
        (n \<mapsto> d\<lparr>d_activeBindingPolicyUID := bp_uid echo\<rparr>), world = w4\<rparr>)"
proof -
  let ?r = "r\<lparr>stagedBindingPolicies := (stagedBindingPolicies r)(n \<mapsto> next_stage d)\<rparr>"
  have "deletePreviousStage c n (next_stage d) ?r = (Returns None, ?r\<lparr>world := w1\<rparr>)"
    using deletePrevious_ok [of "next_stage d" c n ?r] del i by fastforce
  with i cr get upd have "ensureActiveStageLocked c n ?r = (Returns (Some e),
      \<lparr>stagedBindingPolicies = (stagedBindingPolicies r)
         (n \<mapsto> (next_stage d)\<lparr>d_activeBindingPolicyUID := bp_uid echo\<rparr>), world = w4\<rparr>)"
    by (simp add: ensureActiveStageLocked_def createActiveStage_def
        updateStagedBindingPolicyStatusLocked_def update_entry_def)
  with d i show ?thesis by (simp add: stageUp_eq update_entry_def)
qed

section \<open>A status that lags behind\<close>

lemma note_success_dep:
  assumes laws: "api_lawful c dep" and ok: "stages_ok (sbp_name sbp) (newPolicyData sbp)"
    and res: "NoteStagedBindingPolicy c sbp r = (Returns None, r')"
    and i: "Suc (activeStageIndex sbp) < length (spec_stages (sbp_spec sbp))"
  defines "nm \<equiv> stagePolicyName (sbp_name sbp) (newPolicyData sbp)"
  shows "dep (world r') (nm (activeStageIndex sbp))"
    and "dep (world r') (nm (Suc (activeStageIndex sbp))) =
      dep (world r) (nm (Suc (activeStageIndex sbp)))"
proof -
  let ?n = "sbp_name sbp" and ?d = "newPolicyData sbp" and ?i = "activeStageIndex sbp"
  have ens: "ensureActiveStageLocked c ?n (noted sbp r) = (Returns None, r')"
    using res by (simp add: NoteStagedBindingPolicy_eq)
  have d: "stagedBindingPolicies (noted sbp r) ?n = Some ?d" by simp
  have neq: "nm (Suc ?i) \<noteq> nm ?i"
    using stagePolicyName_eq [OF ok, of "Suc ?i" ?i] i unfolding nm_def by simp
  have "dep (world r') (nm ?i) \<and> dep (world r') (nm (Suc ?i)) = dep (world r) (nm (Suc ?i))"
  proof (cases ?i)
    case 0
    then have "createActiveStage c ?n ?d (noted sbp r) = (Returns None, r')"
      using ens by (simp add: ensureActiveStageLocked_def deletePreviousStage_def)
    from createActive_dep [OF laws _ this] i neq show ?thesis by (simp add: nm_def)
  next
    case (Suc k)
    have "nm (Suc ?i) \<noteq> nm k"
      using stagePolicyName_eq [OF ok, of "Suc ?i" k] i Suc unfolding nm_def by simp
    with ensureActive_dep [OF laws d _ _ ens ok, of k] Suc i neq show ?thesis
      by (simp add: nm_def)
  qed
  then show "dep (world r') (nm ?i)"
    and "dep (world r') (nm (Suc ?i)) = dep (world r) (nm (Suc ?i))" by auto
qed

section \<open>A policy noted while its stage is deployed\<close>

lemma create_existing:
  assumes "create_lawful c dep" and "dep w (bp_name bp)"
  obtains e w' where "bp_Create c bp w = (Inl e, w')" and "dep w' (bp_name bp)"
proof -
  obtain res w' where cr: "bp_Create c bp w = (res, w')" by fastforce
  with assms obtain e where "res = Inl e" unfolding create_lawful_def by (cases res) blast+
  moreover have "dep w' (bp_name bp)" using assms cr unfolding create_lawful_def by blast
  ultimately show thesis using cr that by blast
qed

lemma note_existing:
  assumes laws: "api_lawful c dep" and ok: "stages_ok (sbp_name sbp) (newPolicyData sbp)"
    and st: "spec_stages (sbp_spec sbp) \<noteq> []"
    and dep: "dep (world r)
      (stagePolicyName (sbp_name sbp) (newPolicyData sbp) (activeStageIndex sbp))"
  shows "\<exists>e w. NoteStagedBindingPolicy c sbp r = (Returns (Some e), (noted sbp r)\<lparr>world := w\<rparr>) \<and>
    dep w (stagePolicyName (sbp_name sbp) (newPolicyData sbp) (activeStageIndex sbp))"
proof -
  let ?n = "sbp_name sbp" and ?d = "newPolicyData sbp" and ?i = "activeStageIndex sbp"
  let ?x = "stagePolicyName ?n ?d ?i"
  note i = activeStageIndex_bound [OF st]
  obtain err w1 where del:
      "deletePreviousStage c ?n ?d (noted sbp r) = (Returns err, (noted sbp r)\<lparr>world := w1\<rparr>)"
    using deletePrevious_no_panic [of ?d c ?n "noted sbp r"] i by auto
  have w1: "dep w1 ?x"
  proof (cases "?i > 0")
    case False
    with del dep show ?thesis by (auto simp: deletePreviousStage_def dest: arg_cong [of _ _ world])
  next
    case True
    then have "?x \<noteq> stagePolicyName ?n ?d (?i - 1)"
      using stagePolicyName_eq [OF ok, of ?i "?i - 1"] i by simp
    with deletePrevious_dep [OF laws _ _ del] True i dep show ?thesis by simp
  qed
  show ?thesis
  proof (cases err)
    case (Some e)
    with del w1 show ?thesis by (simp add: NoteStagedBindingPolicy_eq ensureActiveStageLocked_def)
  next
    case None
    obtain e w2 where
      "bp_Create c (stageBindingPolicy c ?n ?d (d_stages ?d ! ?i)) w1 = (Inl e, w2)" "dep w2 ?x"
      using create_existing [OF api_lawfulD(2) [OF laws],
          of w1 "stageBindingPolicy c ?n ?d (d_stages ?d ! ?i)"] w1 by auto
    with None del i show ?thesis
      by (simp add: NoteStagedBindingPolicy_eq ensureActiveStageLocked_def createActiveStage_def)
  qed
qed

text \<open>
  The entry such a note leaves has no UID and no workload. Bindings owned by a
  BindingPolicy do not match it, and combined statuses find nothing to check. \<open>notified c dep sbp\<close>
  are the steps that can follow: every operation of the resolver but those that may get the
  policy out of it, which are its deletion, a note of it in another version or after its
  BindingPolicy was removed, and a Binding of its name that has no owner, whose empty UID is
  the one of the entry.
\<close>

inductive notified ::
  "('ast, 'prog, 'w) clients \<Rightarrow> ('w \<Rightarrow> string \<Rightarrow> bool) \<Rightarrow> staged_binding_policy \<Rightarrow>
   'w resolver \<Rightarrow> 'w resolver \<Rightarrow> bool" for c dep sbp where
  binding: "\<not> (ownerUID b = [] \<and> associatedName (om_name (b_meta b)) = Some (sbp_name sbp)) \<Longrightarrow>
    NoteBinding c b r = (out, r') \<Longrightarrow> notified c dep sbp r r'"
| combined_status: "NoteCombinedStatus c cs r = (out, r') \<Longrightarrow> notified c dep sbp r r'"
| other_policy: "sbp_name other \<noteq> sbp_name sbp \<Longrightarrow>
    NoteStagedBindingPolicy c other r = (res, r') \<Longrightarrow> notified c dep sbp r r'"
| other_deleted: "m \<noteq> sbp_name sbp \<Longrightarrow>
    DeleteStagedBindingPolicy m r = (out, r') \<Longrightarrow> notified c dep sbp r r'"
| retry: "activeStageIndex sbp \<in> placed dep (world r) (sbp_name sbp) (newPolicyData sbp) \<Longrightarrow>
    NoteStagedBindingPolicy c sbp r = (res, r') \<Longrightarrow> notified c dep sbp r r'"
| other_actor: "notified c dep sbp r (r\<lparr>world := w\<rparr>)"

definition blocked :: "string \<Rightarrow> stagedBindingPolicyData \<Rightarrow> 'w resolver \<Rightarrow> bool" where
  "blocked n d r \<longleftrightarrow> finite (dom (stagedBindingPolicies r)) \<and>
     stagedBindingPolicies r n = Some d \<and> d_activeBindingPolicyUID d = [] \<and>
     d_bindingSpec d = zero_bindingSpec"

lemma blocked_attempt:
  assumes "blocked n d r"
  shows "blocked n d (snd (attemptConditionLocked c m r))"
proof (cases "m = n")
  case True
  with assms attempt_empty_workload [of r n d c] show ?thesis by (simp add: blocked_def)
next
  case False
  with assms advances_other [OF attempt_advances [of m r c], of n]
    advances_dom [OF attempt_advances [of m r c]]
  show ?thesis by (simp add: blocked_def)
qed

lemma blocked_other_note:
  assumes "blocked n d r" and "sbp_name other \<noteq> n"
    and "NoteStagedBindingPolicy c other r = (res, r')"
  shows "blocked n d r'"
proof -
  have "stagedBindingPolicies (noted other r) (sbp_name other) = Some (newPolicyData other)" by simp
  from ensureActive_entries [OF this, of c] obtain u where
    "stagedBindingPolicies r' = (stagedBindingPolicies (noted other r))
      (sbp_name other \<mapsto> (newPolicyData other)\<lparr>d_activeBindingPolicyUID := u\<rparr>)"
    using assms(3) by (auto simp: NoteStagedBindingPolicy_eq)
  with assms(1,2) show ?thesis by (simp add: blocked_def)
qed

text \<open>What is assumed of the policy and the API server.\<close>

definition renoted ::
  "('ast, 'prog, 'w) clients \<Rightarrow> ('w \<Rightarrow> string \<Rightarrow> bool) \<Rightarrow> staged_binding_policy \<Rightarrow> bool" where
  "renoted c dep sbp \<longleftrightarrow> api_lawful c dep \<and> ranges_keys c \<and>
     stages_ok (sbp_name sbp) (newPolicyData sbp) \<and> spec_stages (sbp_spec sbp) \<noteq> []"

lemma blocked_notified:
  assumes ok: "renoted c dep sbp" and step: "notified c dep sbp r r'"
    and bl: "blocked (sbp_name sbp) (newPolicyData sbp) r"
  shows "blocked (sbp_name sbp) (newPolicyData sbp) r'"
  using step
proof cases
  case (binding b out)
  from binding(2) show ?thesis
  proof (cases rule: NoteBinding_cases)
    case ignored
    with bl show ?thesis by simp
  next
    case (attempt m e)
    with binding(1) bl have "m \<noteq> sbp_name sbp" by (auto simp: blocked_def)
    with bl attempt(2) have "blocked (sbp_name sbp) (newPolicyData sbp)
        (update_entry m (\<lambda>d. d\<lparr>d_bindingSpec := b_spec b\<rparr>) r)"
      by (auto simp: blocked_def update_entry_def)
    from blocked_attempt [OF this, of c m] attempt(4) show ?thesis by simp
  qed
next
  case (combined_status cs out)
  have keys: "ranges_keys c" using ok by (simp add: renoted_def)
  have "finite (dom (stagedBindingPolicies r))" using bl by (simp add: blocked_def)
  note eq = NoteCombinedStatus_eq [OF keys this, of cs]
  have "r' = r \<or> (\<exists>m. r' = snd (attemptConditionLocked c m r))"
    using combined_status unfolding eq
    by (auto split: if_splits option.splits) (metis snd_conv)
  with bl blocked_attempt [OF bl] show ?thesis by auto
next
  case (other_policy other res)
  from blocked_other_note [OF bl this] show ?thesis .
next
  case (other_deleted m out)
  with bl show ?thesis by (auto simp: blocked_def DeleteStagedBindingPolicy_def)
next
  case (retry res)
  with ok obtain e w where "r' = (noted sbp r)\<lparr>world := w\<rparr>"
    using note_existing [of c dep sbp r] unfolding renoted_def placed_def by auto
  with bl show ?thesis by (simp add: blocked_def)
next
  case (other_actor w)
  with bl show ?thesis by (simp add: blocked_def)
qed

interpretation blocked: invariant_system
  "blocked (sbp_name sbp) (newPolicyData sbp)" "notified c dep sbp"
  "\<lambda>r. renoted c dep sbp \<longrightarrow> blocked (sbp_name sbp) (newPolicyData sbp) r"
  by unfold_locales (auto intro: blocked_notified)

end
