(* ===== verification/Rollout_Liveness.thy ===== *)
theory Rollout_Liveness
  imports Rollout_System
begin

text \<open>
  Progress of a rollout: as long as each stage's condition comes to hold and the API server
  does what it is asked, every combined status that is noted moves the policy on by one stage, up to the last.
\<close>

section \<open>One round\<close>

text \<open>
  The stage is fulfilled, the labels are valid, and the calls that move the policy on would
  all succeed.
\<close>

definition ready_to_move :: "('ast, 'prog, 'w) clients \<Rightarrow> string \<Rightarrow> 'w resolver \<Rightarrow> bool" where
  "ready_to_move c n r \<longleftrightarrow>
     (\<exists>d r'. stagedBindingPolicies r n = Some d \<and> workloadLabelsValid c n d \<and>
        stageFulfilled c (world r) n d \<and>
        deployment c n (d\<lparr>d_activeIndex := Suc (d_activeIndex d)\<rparr>)
          (r\<lparr>stagedBindingPolicies := (stagedBindingPolicies r)
               (n \<mapsto> d\<lparr>d_activeIndex := Suc (d_activeIndex d)\<rparr>)\<rparr>) r')"

lemma ready_attempt:
  assumes objs: "ranges_objs c" and cel: "cel_bools_native (celEvaluator c)"
    and laws: "api_lawful c dep" and d: "stagedBindingPolicies r n = Some d"
    and ok: "stages_ok n d" and ready: "ready_to_move c n r"
  shows "\<exists>r' u. attemptConditionLocked c n r = (Returns (), r') \<and>
    Suc (d_activeIndex d) < length (d_stages d) \<and>
    stagedBindingPolicies r' n =
      Some (d\<lparr>d_activeIndex := Suc (d_activeIndex d), d_activeBindingPolicyUID := u\<rparr>) \<and>
    placed dep (world r') n d =
      insert (Suc (d_activeIndex d)) (placed dep (world r) n d - {d_activeIndex d})"
proof -
  let ?i = "d_activeIndex d"
  let ?d = "d\<lparr>d_activeIndex := Suc ?i\<rparr>"
  let ?r = "r\<lparr>stagedBindingPolicies := (stagedBindingPolicies r)(n \<mapsto> ?d)\<rparr>"
  from ready d obtain r' where lab: "workloadLabelsValid c n d"
    and ful: "stageFulfilled c (world r) n d" and dep: "deployment c n ?d ?r r'"
    by (auto simp: ready_to_move_def)
  have lt: "Suc ?i < length (d_stages d)" using dep by (simp add: deployment_def)
  have at: "attemptConditionLocked c n r = (Returns (), r')"
    using attempt_eq [OF objs cel d lab] ful stageUp_ok [OF d dep] by simp
  obtain u where u: "stagedBindingPolicies r' n = Some (?d\<lparr>d_activeBindingPolicyUID := u\<rparr>)"
    using dep by (auto simp: deployment_def Let_def)
  have "ensureActiveStageLocked c n ?r = (Returns None, r')"
    using ensureActive_ok [of ?r n ?d c r'] dep lt by simp
  from ensureActive_placed [OF laws _ _ _ this, of ?d ?i] ok lt
  have "placed dep (world r') n d = insert (Suc ?i) (placed dep (world r) n d - {?i})" by simp
  with at lt u show ?thesis by auto
qed

section \<open>All rounds\<close>

text \<open>
  A round: the world changes, and a combined status is noted, both as \<open>env\<close> says. A panic would
  end the rounds.
\<close>

fun rounds ::
  "('ast, 'prog, 'w) clients \<Rightarrow> ('w resolver \<Rightarrow> 'w \<times> combined_status) \<Rightarrow> nat \<Rightarrow> 'w resolver \<Rightarrow>
   unit outcome \<times> 'w resolver" where
  "rounds c env 0 r = (Returns (), r)"
| "rounds c env (Suc k) r =
     st_bind (NoteCombinedStatus c (snd (env r)) (r\<lparr>world := fst (env r)\<rparr>)) (\<lambda>_. rounds c env k)"

lemma rounds_Suc:
  assumes "NoteCombinedStatus c (snd (env r)) (r\<lparr>world := fst (env r)\<rparr>) = (Returns (), r1)"
  shows "rounds c env (Suc k) r = rounds c env k r1"
  using assms by simp

text \<open>The label of a combined status names a BindingPolicy of a stage of \<open>n\<close>.\<close>

definition status_of_policy :: "string \<Rightarrow> combined_status \<Rightarrow> bool" where
  "status_of_policy n cs \<longleftrightarrow>
     bindingPolicyLabel cs \<noteq> [] \<and> associatedName (bindingPolicyLabel cs) = Some n"

lemma status_attempts:
  assumes "ranges_keys c" and "finite (dom (stagedBindingPolicies r))" and "status_of_policy n cs"
  shows "NoteCombinedStatus c cs r = attemptConditionLocked c n r"
  using assms by (simp add: NoteCombinedStatus_eq status_of_policy_def)

text \<open>
  What the environment gives in every state the rounds come to: the policy is ready, the others
  have removed stages' BindingPolicies at most, and the status is one of the policy.
\<close>

definition env_ready ::
  "('ast, 'prog, 'w) clients \<Rightarrow> ('w \<Rightarrow> string \<Rightarrow> bool) \<Rightarrow> string \<Rightarrow>
   ('w resolver \<Rightarrow> 'w \<times> combined_status) \<Rightarrow> nat \<Rightarrow> 'w resolver \<Rightarrow> bool" where
  "env_ready c dep n env k r \<longleftrightarrow>
     (\<forall>i<k. \<forall>r'. rounds c env i r = (Returns (), r') \<longrightarrow>
        ready_to_move c n (r'\<lparr>world := fst (env r')\<rparr>) \<and> status_of_policy n (snd (env r')) \<and>
        (\<forall>x. dep (fst (env r')) x \<longrightarrow> dep (world r') x))"

lemma env_readyD:
  assumes "env_ready c dep n env (Suc k) r"
  shows "ready_to_move c n (r\<lparr>world := fst (env r)\<rparr>)" "status_of_policy n (snd (env r))"
    "dep (fst (env r)) x \<Longrightarrow> dep (world r) x"
    "NoteCombinedStatus c (snd (env r)) (r\<lparr>world := fst (env r)\<rparr>) = (Returns (), r1) \<Longrightarrow>
     env_ready c dep n env k r1"
proof -
  have now: "ready_to_move c n (r\<lparr>world := fst (env r)\<rparr>) \<and> status_of_policy n (snd (env r)) \<and>
      (\<forall>x. dep (fst (env r)) x \<longrightarrow> dep (world r) x)"
    using assms unfolding env_ready_def
    by (elim allE [of _ 0] impE [OF _ zero_less_Suc] allE [of _ r] impE) simp_all
  then show "ready_to_move c n (r\<lparr>world := fst (env r)\<rparr>)" "status_of_policy n (snd (env r))"
    "dep (fst (env r)) x \<Longrightarrow> dep (world r) x" by simp_all
  show "env_ready c dep n env k r1"
    if at: "NoteCombinedStatus c (snd (env r)) (r\<lparr>world := fst (env r)\<rparr>) = (Returns (), r1)"
    unfolding env_ready_def
  proof (intro allI impI)
    fix i r' assume "i < k" "rounds c env i r1 = (Returns (), r')"
    then have "Suc i < Suc k" "rounds c env (Suc i) r = (Returns (), r')"
      using rounds_Suc [where env = env, OF at] by simp_all
    with assms show "ready_to_move c n (r'\<lparr>world := fst (env r')\<rparr>) \<and>
        status_of_policy n (snd (env r')) \<and> (\<forall>x. dep (fst (env r')) x \<longrightarrow> dep (world r') x)"
      unfolding env_ready_def by blast
  qed
qed

lemma rounds_advance:
  assumes objs: "ranges_objs c" and cel: "cel_bools_native (celEvaluator c)"
    and laws: "api_lawful c dep" and keys: "ranges_keys c"
  shows "stagedBindingPolicies r n = Some d \<Longrightarrow> stages_ok n d \<Longrightarrow>
    env_ready c dep n env k r \<Longrightarrow> placed dep (world r) n d \<subseteq> {d_activeIndex d} \<Longrightarrow>
    finite (dom (stagedBindingPolicies r)) \<Longrightarrow>
    \<exists>r' u. rounds c env k r = (Returns (), r') \<and>
      (0 < k \<longrightarrow> stagedBindingPolicies r' n =
         Some (d\<lparr>d_activeIndex := d_activeIndex d + k, d_activeBindingPolicyUID := u\<rparr>) \<and>
       placed dep (world r') n d = {d_activeIndex d + k} \<and>
       d_activeIndex d + k < length (d_stages d))"
proof (induction k arbitrary: r d)
  case 0
  then show ?case by simp
next
  case (Suc k)
  let ?i = "d_activeIndex d" and ?r = "r\<lparr>world := fst (env r)\<rparr>"
  note env = env_readyD [OF Suc.prems(3)]
  have d: "stagedBindingPolicies ?r n = Some d" using Suc.prems(1) by simp
  have sub: "placed dep (world ?r) n d \<subseteq> {?i}"
    using Suc.prems(4) env(3) by (auto simp: placed_def)
  from ready_attempt [OF objs cel laws d Suc.prems(2) env(1)] obtain r1 u where
    attempt: "attemptConditionLocked c n ?r = (Returns (), r1)"
    and lt: "Suc ?i < length (d_stages d)"
    and d1: "stagedBindingPolicies r1 n =
      Some (d\<lparr>d_activeIndex := Suc ?i, d_activeBindingPolicyUID := u\<rparr>)"
    and pl: "placed dep (world r1) n d = insert (Suc ?i) (placed dep (world ?r) n d - {?i})"
    by auto
  have at: "NoteCombinedStatus c (snd (env r)) ?r = (Returns (), r1)"
    using status_attempts [OF keys _ env(2), of ?r] Suc.prems(5) attempt by simp
  have fin: "finite (dom (stagedBindingPolicies r1))"
    using advances_dom [OF attempt_advances [of n ?r c]] attempt Suc.prems(5) by simp
  have pl1: "placed dep (world r1) n d = {Suc ?i}" using pl sub by blast
  show ?case
  proof (cases "k = 0")
    case True
    with rounds_Suc [where env = env and k = k, OF at] d1 pl1 lt show ?thesis by auto
  next
    case False
    let ?d1 = "d\<lparr>d_activeIndex := Suc ?i, d_activeBindingPolicyUID := u\<rparr>"
    have "stages_ok n ?d1" "placed dep (world r1) n ?d1 \<subseteq> {d_activeIndex ?d1}"
      using Suc.prems(2) pl1 by simp_all
    from Suc.IH [OF d1 this(1) env(4) [OF at] this(2) fin] False obtain r2 u2 where
      "rounds c env k r1 = (Returns (), r2)"
      "stagedBindingPolicies r2 n =
         Some (?d1\<lparr>d_activeIndex := Suc ?i + k, d_activeBindingPolicyUID := u2\<rparr>)"
      "placed dep (world r2) n ?d1 = {Suc ?i + k}" "Suc ?i + k < length (d_stages d)"
      by auto
    then show ?thesis
      unfolding rounds_Suc [where env = env, OF at] by (intro exI [of _ r2] exI [of _ u2]) simp
  qed
qed

end
