(* ===== verification/Demo_Cluster.thy ===== *)
theory Demo_Cluster
  imports Rollout_Faults Rollout_Liveness "HOL-Library.Char_ord" "HOL-Library.List_Lexorder"
begin

text \<open>
  A concrete instance of everything the resolver is built over, for the witnesses: a small
  API server that stores the names of BindingPolicies, StagedBindingPolicies and combined
  statuses, and a CEL library with three expressions. It keeps every promise the theorems
  assume of the real ones, which is proved here.
\<close>

section \<open>An API server\<close>

text \<open>\<open>dw_conflict\<close> makes the next status update fail, as a concurrent write would.\<close>

record demo_world =
  dw_policies :: "string list"
  dw_sbps :: "(string \<times> staged_binding_policy) list"
  dw_statuses :: "combined_status list"
  dw_conflict :: bool

definition demo_cel :: "(string, string) cel_env" where
  "demo_cel =
     \<lparr>cel_Parse = (\<lambda>x. (x, if x = ''('' then Some (Some (LibError ''syntax error'')) else None)),
      cel_Check = (\<lambda>ast. (ast, Some None)),
      cel_Program = Inr,
      cel_Eval = (\<lambda>prog m.
         if prog = ''true'' then Inr \<lparr>val_TypeName = ''bool'', val_Value = GoBool True\<rparr>
         else if prog = ''ready'' then
           (case map_of m ''combinedStatus'' of
              Some (GoMap u) \<Rightarrow>
                (case map_of u ''results'' of
                   Some (GoBool b) \<Rightarrow> Inr \<lparr>val_TypeName = ''bool'', val_Value = GoBool b\<rparr>
                 | _ \<Rightarrow> Inl (LibError ''no such key''))
            | _ \<Rightarrow> Inl (LibError ''no such attribute''))
         else if prog = ''apps'' then
           (case map_of m ''downsyncClause'' of
              Some (GoMap u) \<Rightarrow> Inr \<lparr>val_TypeName = ''bool'',
                val_Value = GoBool (map_of u ''group'' = Some (GoString ''apps''))\<rparr>
            | _ \<Rightarrow> Inl (LibError ''no such attribute''))
         else Inr \<lparr>val_TypeName = ''int'', val_Value = GoInt 1\<rparr>)\<rparr>"

definition demo_clients :: "(string, string, demo_world) clients" where
  "demo_clients =
     \<lparr>celEvaluator = \<lparr>ce_env = demo_cel\<rparr>,
      bp_Delete = (\<lambda>x w.
         if x \<in> set (dw_policies w) then (None, w\<lparr>dw_policies := removeAll x (dw_policies w)\<rparr>)
         else (Some (LibError ''not found''), w)),
      bp_Create = (\<lambda>bp w.
         if bp_name bp \<in> set (dw_policies w) then (Inl (LibError ''already exists''), w)
         else (Inr (bp\<lparr>bp_meta := (bp_meta bp)\<lparr>om_uid := ''uid-'' @ bp_name bp\<rparr>\<rparr>),
               w\<lparr>dw_policies := bp_name bp # dw_policies w\<rparr>)),
      sbp_Get = (\<lambda>n w.
         (case map_of (dw_sbps w) n of
            None \<Rightarrow> (Inl (LibError ''not found''), w)
          | Some sbp \<Rightarrow> (Inr sbp, w))),
      sbp_UpdateStatus = (\<lambda>sbp w.
         if dw_conflict w then (Inl (LibError ''conflict''), w\<lparr>dw_conflict := False\<rparr>)
         else (Inr sbp, w\<lparr>dw_sbps := (sbp_name sbp, sbp) # dw_sbps w\<rparr>)),
      combinedStatus_List = (\<lambda>sel w.
         Inr (filter (\<lambda>cs. list_all (\<lambda>q. case q of Requirement k v \<Rightarrow>
                om_labels (cs_meta cs) k = Some v) sel) (dw_statuses w))),
      errors_IsNotFound = (\<lambda>e. e = LibError ''not found''),
      labels_NewRequirement = (\<lambda>k v. if length v \<le> 63 then Some (Requirement k v) else None),
      toUnstructured = (\<lambda>cs. Inr (Some [(''results'', cs_results cs)])),
      groupVersion_String = (\<lambda>(g, v). g @ ''/'' @ v),
      range_objs = (\<lambda>w os. rev os),
      range_keys = (\<lambda>w ks. sorted_list_of_set ks)\<rparr>"

definition demo_deployed :: "demo_world \<Rightarrow> string \<Rightarrow> bool" where
  "demo_deployed w x \<longleftrightarrow> x \<in> set (dw_policies w)"

section \<open>It keeps the promises\<close>

lemma demo_clients_sel [simp]:
  "celEvaluator demo_clients = \<lparr>ce_env = demo_cel\<rparr>"
  "errors_IsNotFound demo_clients e \<longleftrightarrow> e = LibError ''not found''"
  "toUnstructured demo_clients cs = Inr (Some [(''results'', cs_results cs)])"
  "labels_NewRequirement demo_clients k v =
     (if length v \<le> 63 then Some (Requirement k v) else None)"
  by (simp_all add: demo_clients_def)

lemma demo_ranges_keys: "ranges_keys demo_clients"
  by (simp add: ranges_keys_def demo_clients_def)

lemma demo_ranges_objs: "ranges_objs demo_clients"
  by (simp add: ranges_objs_def demo_clients_def)

lemma demo_cel_bools: "cel_bools_native \<lparr>ce_env = demo_cel\<rparr>"
  by (auto simp: cel_bools_native_def demo_cel_def
      split: if_splits option.splits go_any.splits)

lemma demo_api_lawful: "api_lawful demo_clients demo_deployed"
proof -
  have "delete_lawful demo_clients demo_deployed"
    by (auto simp: delete_lawful_def demo_clients_def demo_deployed_def split: if_splits)
  moreover have "create_lawful demo_clients demo_deployed"
    by (auto simp: create_lawful_def demo_clients_def demo_deployed_def split: if_splits)
  moreover have "status_lawful demo_clients demo_deployed"
    by (auto simp: status_lawful_def demo_clients_def demo_deployed_def fun_eq_iff
        split: if_splits option.splits)
  ultimately show ?thesis by (simp add: api_lawful_def)
qed

section \<open>A policy with two stages\<close>

definition demo_dev :: stage where
  "demo_dev = \<lparr>stage_name = ''dev'', stage_clusterSelectors = [GoString ''env=dev''],
     stage_filter = None, stage_condition = Some ''ready''\<rparr>"

definition demo_prod :: stage where
  "demo_prod = \<lparr>stage_name = ''prod'', stage_clusterSelectors = [GoString ''env=prod''],
     stage_filter = None, stage_condition = None\<rparr>"

definition demo_sbp :: "stage list \<Rightarrow> string \<Rightarrow> staged_binding_policy" where
  "demo_sbp stages active =
     \<lparr>sbp_typeMeta = \<lparr>tm_kind = ''StagedBindingPolicy'',
        tm_apiVersion = ''community.kubestellar.io/v1alpha1''\<rparr>,
      sbp_meta = zero_meta\<lparr>om_name := ''web'', om_uid := ''u1''\<rparr>,
      sbp_spec = \<lparr>spec_downsync = [GoString ''nginx''], spec_stages = stages\<rparr>,
      sbp_status = \<lparr>status_activeStage = active\<rparr>\<rparr>"

definition demo_policy :: staged_binding_policy where
  "demo_policy = demo_sbp [demo_dev, demo_prod] []"

definition demo_clause :: namespace_scope_clause where
  "demo_clause = \<lparr>nc_group = ''apps'', nc_version = ''v1'', nc_resource = ''deployments'',
     nc_name = ''nginx'', nc_namespace = ''default'', nc_resourceVersion = ''7''\<rparr>"

definition demo_workload :: binding_spec where
  "demo_workload = \<lparr>bs_workload = \<lparr>clusterScope = [], namespaceScope = [demo_clause]\<rparr>\<rparr>"

text \<open>The combined status of the clause's object for the BindingPolicy of a stage.\<close>

definition demo_status :: "string \<Rightarrow> bool \<Rightarrow> combined_status" where
  "demo_status stage b =
     \<lparr>cs_meta = zero_meta\<lparr>
        om_name := ''cs.uid-web.stage.'' @ stage,
        om_labels := [CombinedStatusLabelGroup \<mapsto> ''apps'',
          CombinedStatusLabelResource \<mapsto> ''deployments'',
          CombinedStatusLabelNamespace \<mapsto> ''default'',
          CombinedStatusLabelName \<mapsto> ''nginx'',
          CombinedStatusLabelBindingPolicy \<mapsto> ''web.stage.'' @ stage]\<rparr>,
      cs_results = GoBool b\<rparr>"

text \<open>The entry of a policy in a given stage, its Binding seen, and the world around it.\<close>

definition demo_data :: "stage list \<Rightarrow> nat \<Rightarrow> stagedBindingPolicyData" where
  "demo_data stages i =
     \<lparr>d_uid = ''u1'', d_downsync = [GoString ''nginx''], d_stages = stages,
      d_activeIndex = i,
      d_activeBindingPolicyUID = ''uid-web.stage.'' @ stage_name (stages ! i),
      d_bindingSpec = demo_workload\<rparr>"

definition demo_cluster :: "string list \<Rightarrow> combined_status list \<Rightarrow> demo_world" where
  "demo_cluster policies statuses =
     \<lparr>dw_policies = policies, dw_sbps = [(''web'', demo_policy)], dw_statuses = statuses,
      dw_conflict = False\<rparr>"

definition demo_resolver :: "stage list \<Rightarrow> nat \<Rightarrow> demo_world \<Rightarrow> demo_world resolver" where
  "demo_resolver stages i w =
     \<lparr>stagedBindingPolicies = [''web'' \<mapsto> demo_data stages i], world = w\<rparr>"

lemmas demo_defs =
  demo_dev_def demo_prod_def demo_sbp_def demo_policy_def demo_clause_def demo_workload_def
  demo_status_def demo_data_def demo_cluster_def demo_resolver_def zero_meta_def
  CombinedStatusLabelBindingPolicy_def CombinedStatusLabelGroup_def
  CombinedStatusLabelResource_def CombinedStatusLabelName_def CombinedStatusLabelNamespace_def

lemma demo_data_sel [simp]:
  "d_uid (demo_data stages i) = ''u1''"
  "d_downsync (demo_data stages i) = [GoString ''nginx'']"
  "d_stages (demo_data stages i) = stages"
  "d_activeIndex (demo_data stages i) = i"
  "d_activeBindingPolicyUID (demo_data stages i) = ''uid-web.stage.'' @ stage_name (stages ! i)"
  "d_bindingSpec (demo_data stages i) = demo_workload"
  by (simp_all add: demo_data_def)

lemma demo_stage_sel [simp]:
  "stage_name demo_dev = ''dev''" "stage_filter demo_dev = None"
  "stage_condition demo_dev = Some ''ready''"
  "stage_name demo_prod = ''prod''" "stage_filter demo_prod = None"
  "stage_condition demo_prod = None"
  by (simp_all add: demo_dev_def demo_prod_def)

lemma demo_resolver_sel [simp]:
  "stagedBindingPolicies (demo_resolver stages i w) = [''web'' \<mapsto> demo_data stages i]"
  "world (demo_resolver stages i w) = w"
  by (simp_all add: demo_resolver_def)

lemma demo_sbp_sel [simp]:
  "sbp_name (demo_sbp stages active) = ''web''"
  "sbp_uid (demo_sbp stages active) = ''u1''"
  "spec_stages (sbp_spec (demo_sbp stages active)) = stages"
  "status_activeStage (sbp_status (demo_sbp stages active)) = active"
  by (simp_all add: demo_sbp_def zero_meta_def)

text \<open>The one object of the workload, its selector, and the condition tested on it.\<close>

lemma demo_filter:
  "filterWorkloadForSBP e (bs_workload demo_workload) None =
   Returns [namespaceScope_identifier demo_clause]"
  by (simp add: filterWorkloadForSBP_def demo_workload_def filter_passes_def)

lemma demo_fulfilled_dev:
  assumes w: "dw_statuses w = [demo_status ''dev'' True]"
  shows "stageFulfilled demo_clients w ''web'' (demo_data (demo_dev # stages) 0)"
proof -
  let ?c = "demo_clients" and ?d = "demo_data (demo_dev # stages) 0" and ?w = w
  let ?obj = "namespaceScope_identifier demo_clause"
  let ?sel = "[Requirement CombinedStatusLabelGroup ''apps'',
    Requirement CombinedStatusLabelResource ''deployments'',
    Requirement CombinedStatusLabelNamespace ''default'',
    Requirement CombinedStatusLabelName ''nginx'',
    Requirement CombinedStatusLabelBindingPolicy ''web.stage.dev'']"
  have sel: "objectSelector ?c ''web'' ?d ?obj = Returns ?sel"
    by (simp add: objectSelector_def objectLabels_def demo_clients_def demo_data_def
        demo_dev_def namespaceScope_identifier_def demo_clause_def bindingPolicyName_def
        stage_suffix_def)
  have list: "combinedStatus_List ?c ?sel ?w = Inr [demo_status ''dev'' True]"
    using w by (simp add: demo_clients_def demo_status_def CombinedStatusLabelBindingPolicy_def
        CombinedStatusLabelGroup_def CombinedStatusLabelResource_def
        CombinedStatusLabelName_def CombinedStatusLabelNamespace_def)
  have rel: "relevantStatuses (d_activeBindingPolicyUID ?d) [demo_status ''dev'' True] =
      [demo_status ''dev'' True]"
    by (simp add: relevantStatuses_def demo_defs)
  have test: "testExpression (celEvaluator ?c) ''ready''
      [(''combinedStatus'', GoMap [(''results'', GoBool True)])] = Returns True"
    by (simp add: testExpression_def Evaluate_def issues_Err_def demo_cel_def)
  have "objectFulfilled ?c ?w ''web'' ?d ''ready'' ?obj"
    using sel list rel test unfolding objectFulfilled_def
    by (intro exI conjI) (auto simp: demo_status_def)
  then show ?thesis unfolding stageFulfilled_def Let_def by (simp add: demo_filter)
qed

lemma demo_labels:
  "workloadLabelsValid demo_clients ''web'' (demo_data (demo_dev # stages) 0)"
  by (simp add: workloadLabelsValid_def demo_filter labelsValid_def objectLabels_def
      demo_clients_def namespaceScope_identifier_def demo_clause_def bindingPolicyName_def
      stage_suffix_def)

text \<open>The policy in its first stage, deployed, its Binding seen and its condition true.\<close>

definition demo_ready :: "demo_world resolver" where
  "demo_ready = demo_resolver [demo_dev, demo_prod] 0
     (demo_cluster [''web.stage.dev''] [demo_status ''dev'' True])"

lemma demo_ready_sel [simp]:
  "stagedBindingPolicies demo_ready = [''web'' \<mapsto> demo_data [demo_dev, demo_prod] 0]"
  "world demo_ready = demo_cluster [''web.stage.dev''] [demo_status ''dev'' True]"
  by (simp_all add: demo_ready_def)

lemma demo_cluster_sel [simp]:
  "dw_policies (demo_cluster ps css) = ps" "dw_statuses (demo_cluster ps css) = css"
  "dw_sbps (demo_cluster ps css) = [(''web'', demo_policy)]"
  "dw_conflict (demo_cluster ps css) = False"
  by (simp_all add: demo_cluster_def)

lemma demo_stages_ok: "stages_ok ''web'' (demo_data [demo_dev, demo_prod] i)"
  by (simp add: stages_ok_def clean_names_def stage_suffix_def)

lemma demo_policy_stages_ok: "stages_ok ''web'' (newPolicyData demo_policy)"
  by (simp add: stages_ok_def clean_names_def stage_suffix_def demo_policy_def)

end
