(* ===== verification/Resolver_Properties.thy ===== *)
theory Resolver_Properties
  imports Demo_Cluster
begin

text \<open>
  The properties of the resolver, each over the definitions of \<open>Resolver\<close>, with a witness
  on the cluster of \<open>Demo_Cluster\<close> where it has hypotheses.
\<close>

section \<open>The condition of a stage\<close>

text \<open>
  C11: An attempt on a tracked policy is equivalent to its declarative reading: if the active
  stage has a condition, the stage's filter keeps at least one object of the Binding's
  workload and every object kept has a relevant combined status on which the condition tests
  true, the policy is staged up; otherwise nothing changes. The order in which the runtime
  ranges over the objects does not matter.
\<close>

theorem attempt_equivalence:
  assumes "ranges_objs c" and "cel_bools_native (celEvaluator c)"
    and "stagedBindingPolicies r n = Some d" and "workloadLabelsValid c n d"
  shows "attemptConditionLocked c n r =
    (if stageFulfilled c (world r) n d then stageUpLocked c n r else (Returns (), r))"
  by (rule attempt_eq [OF assms])

theorem attempt_equivalence_witness:
  "attemptConditionLocked demo_clients ''web'' demo_ready =
   stageUpLocked demo_clients ''web'' demo_ready"
  using attempt_equivalence [OF demo_ranges_objs, of demo_ready "''web''"
      "demo_data [demo_dev, demo_prod] 0"]
  by (simp add: demo_labels demo_fulfilled_dev demo_cel_bools)

text \<open>
  C15: Whatever the labels and the CEL library do, an attempt that changes the resolver's
  state found the active stage fulfilled: a stage is never left on an unsatisfied, missing
  or failing condition.
\<close>

theorem attempt_only_when_fulfilled:
  assumes "ranges_objs c" and "stagedBindingPolicies r n = Some d"
    and "snd (attemptConditionLocked c n r) \<noteq> r"
  shows "stageFulfilled c (world r) n d"
  using attempt_sound [OF assms(1,2)] assms(3) by auto

lemma demo_stageUp:
  "stageUpLocked demo_clients ''web'' demo_ready =
   (Returns (), \<lparr>stagedBindingPolicies = [''web'' \<mapsto> demo_data [demo_dev, demo_prod] 1],
      world = (demo_cluster [''web.stage.prod''] [demo_status ''dev'' True])
        \<lparr>dw_sbps := [(''web'', demo_sbp [demo_dev, demo_prod] ''prod''), (''web'', demo_policy)]\<rparr>\<rparr>)"
  by (simp add: stageUpLocked_def ensureActiveStageLocked_def deletePreviousStage_def
      createActiveStage_def updateStagedBindingPolicyStatusLocked_def update_entry_def
      stageBindingPolicy_def bindingPolicyName_def stage_suffix_def demo_clients_def demo_data_def
      demo_ready_def demo_resolver_def demo_policy_def demo_sbp_def set_activeStage_def
      demo_cluster_def zero_meta_def demo_dev_def demo_prod_def)

theorem attempt_only_when_fulfilled_witness:
  "stageFulfilled demo_clients (world demo_ready) ''web'' (demo_data [demo_dev, demo_prod] 0)"
proof (rule attempt_only_when_fulfilled [OF demo_ranges_objs])
  show "stagedBindingPolicies demo_ready ''web'' = Some (demo_data [demo_dev, demo_prod] 0)"
    by simp
  have prod: "dw_policies (world (snd (attemptConditionLocked demo_clients ''web'' demo_ready))) =
      [''web.stage.prod'']"
    using attempt_eq [OF demo_ranges_objs, of demo_ready "''web''"
        "demo_data [demo_dev, demo_prod] 0"]
    by (simp add: demo_labels demo_fulfilled_dev demo_cel_bools demo_stageUp)
  show "snd (attemptConditionLocked demo_clients ''web'' demo_ready) \<noteq> demo_ready"
  proof
    assume "snd (attemptConditionLocked demo_clients ''web'' demo_ready) = demo_ready"
    with prod show False by simp
  qed
qed


definition demo_long :: stage where
  "demo_long = demo_dev\<lparr>stage_name := replicate 60 CHR ''a''\<rparr>"


section \<open>The rollout\<close>

text \<open>
  C2: The resolver refines the abstract rollout: on an API server that keeps its promises,
  every attempt that returns is one step of the machine (do nothing, lose the active stage's
  BindingPolicy, deploy the next stage without moving on, or move on to it).
\<close>

theorem attempt_refines_rollout:
  assumes "api_lawful c dep" and "stagedBindingPolicies r n = Some d" and "stages_ok n d"
    and "attemptConditionLocked c n r = (Returns u, r')"
  shows "rollout_step (length (d_stages d)) (rollout_abs dep n r) (rollout_abs dep n r')"
  by (rule attempt_simulates [OF assms])

lemma demo_attempt:
  "attemptConditionLocked demo_clients ''web'' demo_ready =
   (Returns (), snd (stageUpLocked demo_clients ''web'' demo_ready))"
  using attempt_eq [OF demo_ranges_objs, of demo_ready "''web''"
      "demo_data [demo_dev, demo_prod] 0"]
  by (simp add: demo_labels demo_fulfilled_dev demo_cel_bools demo_stageUp)

theorem attempt_refines_rollout_witness:
  "rollout_step 2 (0, placed demo_deployed (world demo_ready) ''web''
       (demo_data [demo_dev, demo_prod] 0))
     (rollout_abs demo_deployed ''web'' (snd (stageUpLocked demo_clients ''web'' demo_ready)))"
  using attempt_refines_rollout [OF demo_api_lawful _ demo_stages_ok [of 0] demo_attempt]
  by (simp add: rollout_abs_def numeral_2_eq_2)

text \<open>
  C10: A rollout makes progress: on an API server that keeps its promises, as long as each
  stage's condition comes to hold and the calls that move on succeed, \<open>k\<close> combined statuses of
  the policy move it on by \<open>k\<close> stages without an error or a panic, and then exactly the stage it is in is
  deployed. With as many rounds as there are stages ahead it reaches the last one.
\<close>

theorem rollout_progresses:
  assumes "ranges_objs c" and "cel_bools_native (celEvaluator c)" and "api_lawful c dep"
    and "stagedBindingPolicies r n = Some d" and "stages_ok n d"
    and "placed dep (world r) n d \<subseteq> {d_activeIndex d}"
    and "env_ready c dep n env k r" and "0 < k"
    and "ranges_keys c" and "finite (dom (stagedBindingPolicies r))"
  shows "\<exists>r' u. rounds c env k r = (Returns (), r') \<and>
    stagedBindingPolicies r' n =
      Some (d\<lparr>d_activeIndex := d_activeIndex d + k, d_activeBindingPolicyUID := u\<rparr>) \<and>
    d_activeIndex d + k < length (d_stages d) \<and>
    placed dep (world r') n d = {d_activeIndex d + k}"
  using rounds_advance [OF assms(1-3,9,4,5,7,6,10)] assms(8) by blast

lemma demo_ready_to_move: "ready_to_move demo_clients ''web'' demo_ready"
proof -
  let ?d = "demo_data [demo_dev, demo_prod] 0"
  have "ensureActiveStageLocked demo_clients ''web'' (demo_ready\<lparr>stagedBindingPolicies :=
      (stagedBindingPolicies demo_ready)(''web'' \<mapsto> ?d\<lparr>d_activeIndex := Suc 0\<rparr>)\<rparr>) =
      (Returns None, snd (stageUpLocked demo_clients ''web'' demo_ready))"
    unfolding demo_stageUp
    by (simp add: ensureActiveStageLocked_def deletePreviousStage_def
        createActiveStage_def updateStagedBindingPolicyStatusLocked_def update_entry_def
        stageBindingPolicy_def bindingPolicyName_def stage_suffix_def demo_clients_def demo_data_def
        demo_ready_def demo_resolver_def demo_policy_def demo_sbp_def set_activeStage_def
        demo_cluster_def zero_meta_def demo_dev_def demo_prod_def)
  then show ?thesis
    using demo_fulfilled_dev [of "world demo_ready" "[demo_prod]"] demo_labels [of "[demo_prod]"]
      ensureActive_ok [of "demo_ready\<lparr>stagedBindingPolicies :=
        (stagedBindingPolicies demo_ready)(''web'' \<mapsto> ?d\<lparr>d_activeIndex := Suc 0\<rparr>)\<rparr>" "''web''"
        "?d\<lparr>d_activeIndex := Suc 0\<rparr>" demo_clients]
    by (auto simp: ready_to_move_def)
qed

lemma demo_status_label: "bindingPolicyLabel (demo_status s b) = ''web.stage.'' @ s"
  by (simp add: bindingPolicyLabel_def demo_defs)

lemma demo_associated: "associatedName ''web.stage.dev'' = Some ''web''"
  using associatedName_iff [of "''web''" "''dev''"]
  by (simp add: clean_names_def stage_suffix_def bindingPolicyName_def)

definition demo_env :: "demo_world resolver \<Rightarrow> demo_world \<times> combined_status" where
  "demo_env r = (world r, demo_status ''dev'' True)"

theorem rollout_progresses_witness:
  "\<exists>r'. rounds demo_clients demo_env 1 demo_ready = (Returns (), r') \<and>
     placed demo_deployed (world r') ''web'' (demo_data [demo_dev, demo_prod] 0) = {1}"
proof -
  have same: "r\<lparr>world := world r\<rparr> = r" for r :: "demo_world resolver" by simp
  have "env_ready demo_clients demo_deployed ''web'' demo_env 1 demo_ready"
    using demo_ready_to_move
    by (simp add: env_ready_def demo_env_def same status_of_policy_def demo_status_label
        demo_associated del: demo_ready_sel)
  moreover have "placed demo_deployed (world demo_ready) ''web''
      (demo_data [demo_dev, demo_prod] 0) \<subseteq> {d_activeIndex (demo_data [demo_dev, demo_prod] 0)}"
    by (auto simp: placed_def demo_deployed_def bindingPolicyName_def stage_suffix_def
        less_Suc_eq)
  ultimately show ?thesis
    using rollout_progresses [OF demo_ranges_objs _ demo_api_lawful _ demo_stages_ok [of 0],
        of demo_ready demo_env 1] demo_cel_bools demo_ranges_keys by simp blast
qed

text \<open>
  C1: In every state a managed run reaches (policies noted in step with what is deployed, the
  other actors only removing BindingPolicies of stages), at most one stage of a tracked
  policy is deployed: its active stage, or, while the status lags behind, the next.
\<close>

theorem managed_runs_deploy_one_stage:
  assumes "api_lawful c dep" and "ranges_keys c"
    and "(managed_step c dep)\<^sup>*\<^sup>* (new_resolver w) r"
    and "stagedBindingPolicies r n = Some d"
  shows "placed dep (world r) n d \<subseteq> {d_activeIndex d} \<or>
    placed dep (world r) n d \<subseteq> {Suc (d_activeIndex d)}"
proof -
  have "single_placement dep r"
    using managed.reachable_inv [OF _ assms(3)] assms(1,2) by blast
  from single_placementD(2) [OF this assms(4)] assms(4) show ?thesis
    by (simp add: rollout_abs_def)
qed

definition demo_start :: demo_world where
  "demo_start = demo_cluster [] []"

definition demo_started :: "demo_world resolver" where
  "demo_started = \<lparr>stagedBindingPolicies = [''web'' \<mapsto>
       (newPolicyData demo_policy)\<lparr>d_activeBindingPolicyUID := ''uid-web.stage.dev''\<rparr>],
     world = (demo_cluster [''web.stage.dev''] [])
       \<lparr>dw_sbps := [(''web'', demo_sbp [demo_dev, demo_prod] ''dev''), (''web'', demo_policy)]\<rparr>\<rparr>"

lemma demo_note:
  "NoteStagedBindingPolicy demo_clients demo_policy (new_resolver demo_start) =
   (Returns None, demo_started)"
  by (simp add: NoteStagedBindingPolicy_eq ensureActiveStageLocked_def deletePreviousStage_def
      createActiveStage_def updateStagedBindingPolicyStatusLocked_def update_entry_def
      stageBindingPolicy_def bindingPolicyName_def stage_suffix_def demo_clients_def
      demo_policy_def demo_sbp_def set_activeStage_def demo_started_def demo_start_def
      new_resolver_def newPolicyData_def activeStageIndex_def
      demo_cluster_def zero_meta_def demo_dev_def demo_prod_def)

definition demo_binding :: binding where
  "demo_binding = \<lparr>b_meta = zero_meta\<lparr>om_name := ''web.stage.dev'',
       om_ownerReferences := [\<lparr>or_apiVersion = [], or_kind = ''BindingPolicy'',
         or_name = ''web.stage.dev'', or_uid = ''uid-web.stage.dev''\<rparr>]\<rparr>,
     b_spec = demo_workload\<rparr>"

lemma demo_binding_sel [simp]:
  "om_name (b_meta demo_binding) = ''web.stage.dev''"
  "ownerUID demo_binding = ''uid-web.stage.dev''"
  "b_spec demo_binding = demo_workload"
  by (simp_all add: demo_binding_def zero_meta_def ownerUID_def)

text \<open>The combined status appears, then the Binding is noted: the policy moves on.\<close>

definition demo_observed :: "demo_world resolver" where
  "demo_observed = demo_started\<lparr>world := (world demo_started)
     \<lparr>dw_statuses := [demo_status ''dev'' True]\<rparr>\<rparr>"

lemma demo_data_eq:
  "(newPolicyData demo_policy)\<lparr>d_activeBindingPolicyUID := ''uid-web.stage.dev'',
     d_bindingSpec := demo_workload\<rparr> = demo_data [demo_dev, demo_prod] 0"
  by (simp add: newPolicyData_def demo_policy_def demo_sbp_def demo_data_def
      activeStageIndex_def zero_meta_def)

lemma demo_bind:
  "\<exists>r. NoteBinding demo_clients demo_binding demo_observed = (Returns (), r) \<and>
     stagedBindingPolicies r ''web'' = Some (demo_data [demo_dev, demo_prod] 1) \<and>
     dw_policies (world r) = [''web.stage.prod'']"
proof -
  let ?r = "demo_observed\<lparr>stagedBindingPolicies :=
      [''web'' \<mapsto> demo_data [demo_dev, demo_prod] 0]\<rparr>"
  have upd: "update_entry ''web'' (\<lambda>d. d\<lparr>d_bindingSpec := demo_workload\<rparr>) demo_observed = ?r"
    by (simp add: update_entry_def demo_observed_def demo_started_def demo_data_eq)
  have "NoteBinding demo_clients demo_binding demo_observed =
      attemptConditionLocked demo_clients ''web'' ?r"
    using upd by (simp add: NoteBinding_def demo_associated)
       (simp add: demo_observed_def demo_started_def)
  also have "\<dots> = stageUpLocked demo_clients ''web'' ?r"
    using attempt_eq [OF demo_ranges_objs, of ?r "''web''" "demo_data [demo_dev, demo_prod] 0"]
    by (simp add: demo_labels demo_fulfilled_dev demo_cel_bools demo_observed_def)
  finally show ?thesis
    by (simp add: stageUpLocked_def ensureActiveStageLocked_def deletePreviousStage_def
        createActiveStage_def updateStagedBindingPolicyStatusLocked_def update_entry_def
        stageBindingPolicy_def bindingPolicyName_def stage_suffix_def demo_clients_def
        demo_data_def demo_observed_def demo_started_def demo_policy_def demo_sbp_def
        set_activeStage_def demo_cluster_def zero_meta_def demo_dev_def demo_prod_def)
qed

lemma demo_noted_in_step: "noted_in_step demo_deployed demo_policy (new_resolver demo_start)"
  by (simp add: noted_in_step_def placed_def demo_deployed_def demo_start_def new_resolver_def
      demo_policy_def [symmetric])
     (simp add: demo_policy_def demo_policy_stages_ok [unfolded demo_policy_def])

lemma demo_run:
  "\<exists>r. (managed_step demo_clients demo_deployed)\<^sup>*\<^sup>* (new_resolver demo_start) r \<and>
     stagedBindingPolicies r ''web'' = Some (demo_data [demo_dev, demo_prod] 1) \<and>
     dw_policies (world r) = [''web.stage.prod'']"
proof -
  have n: "managed_step demo_clients demo_deployed (new_resolver demo_start) demo_started"
    by (rule managed_step.note_sbp [OF demo_noted_in_step demo_note])
  have e: "managed_step demo_clients demo_deployed demo_started demo_observed"
    unfolding demo_observed_def by (rule managed_step.environment) (simp add: demo_deployed_def)
  from demo_bind obtain r where b: "managed_step demo_clients demo_deployed demo_observed r"
    "stagedBindingPolicies r ''web'' = Some (demo_data [demo_dev, demo_prod] 1)"
    "dw_policies (world r) = [''web.stage.prod'']"
    by (auto intro: managed_step.note_binding)
  with n e show ?thesis by (meson rtranclp.rtrancl_into_rtrancl rtranclp.rtrancl_refl)
qed

theorem managed_runs_deploy_one_stage_witness:
  "\<exists>r :: demo_world resolver. stagedBindingPolicies r ''web'' = Some (demo_data [demo_dev, demo_prod] 1) \<and>
     (placed demo_deployed (world r) ''web'' (demo_data [demo_dev, demo_prod] 1) \<subseteq> {1} \<or>
      placed demo_deployed (world r) ''web'' (demo_data [demo_dev, demo_prod] 1) \<subseteq> {2})"
proof -
  obtain r where r: "(managed_step demo_clients demo_deployed)\<^sup>*\<^sup>* (new_resolver demo_start) r"
    "stagedBindingPolicies r ''web'' = Some (demo_data [demo_dev, demo_prod] 1)"
    using demo_run by blast
  from managed_runs_deploy_one_stage [OF demo_api_lawful demo_ranges_keys r] r(2)
  show ?thesis by (intro exI [of _ r]) (simp add: numeral_2_eq_2)
qed

text \<open>
  C16: Staging up a policy that has a next stage, on every branch: it returns, and either the
  whole deployment of that stage went through (previous BindingPolicy deleted, next created,
  status written) and the policy is in that stage, or one of the four calls failed after those
  before it went through, and then the policy is in its old stage with nothing of its entry
  changed but the UID, which is the new one from the creation on.
\<close>

theorem stage_up_outcomes:
  assumes d: "stagedBindingPolicies r n = Some d"
    and i: "Suc (d_activeIndex d) < length (d_stages d)"
  shows "stageUpLocked c n r = (out, r') \<longleftrightarrow> out = Returns () \<and>
    (deployment c n (next_stage d) r r' \<or>
     (\<exists>u w. failed_deployment c n (next_stage d) (world r) u w \<and>
        r' = \<lparr>stagedBindingPolicies = (stagedBindingPolicies r)
                (n \<mapsto> d\<lparr>d_activeBindingPolicyUID := u\<rparr>), world = w\<rparr>))"
proof -
  let ?r = "r\<lparr>stagedBindingPolicies := (stagedBindingPolicies r)(n \<mapsto> next_stage d)\<rparr>"
  have dr: "stagedBindingPolicies ?r n = Some (next_stage d)" by simp
  have here: "deployment c n (next_stage d) ?r r' \<longleftrightarrow> deployment c n (next_stage d) r r'" for r'
    by (simp add: deployment_def)
  have ok: "ensureActiveStageLocked c n ?r = (Returns None, r') \<longleftrightarrow>
      deployment c n (next_stage d) r r'" for r'
    unfolding here [symmetric] by (rule ensureActive_ok [OF dr]) (use i in simp)
  have failed: "(\<exists>e. ensureActiveStageLocked c n ?r = (Returns (Some e), r')) \<longleftrightarrow>
      (\<exists>u w. failed_deployment c n (next_stage d) (world r) u w \<and>
        r' = \<lparr>stagedBindingPolicies = (stagedBindingPolicies r)
                (n \<mapsto> (next_stage d)\<lparr>d_activeBindingPolicyUID := u\<rparr>), world = w\<rparr>)" for r'
    using ensureActive_failed [OF dr] i by simp
  obtain res r2 where ens: "ensureActiveStageLocked c n ?r = (res, r2)" by fastforce
  have "res \<noteq> Panics p" for p using ensureActive_panics [OF dr, of c p r2] ens i by auto
  then obtain err where err: "res = Returns err" by (cases res) auto
  show ?thesis
  proof (cases err)
    case None
    with ok failed ens err i show ?thesis by (auto simp: stageUp_eq [OF d])
  next
    case (Some e)
    with ok ens err have "\<not> deployment c n (next_stage d) r r''" for r'' by (metis prod.inject
        outcome.inject(1) option.distinct(1))
    moreover from failed [of r2] ens err Some obtain u w where
      u: "failed_deployment c n (next_stage d) (world r) u w"
      and r2: "r2 = \<lparr>stagedBindingPolicies = (stagedBindingPolicies r)
        (n \<mapsto> (next_stage d)\<lparr>d_activeBindingPolicyUID := u\<rparr>), world = w\<rparr>" by auto
    moreover from u have "failed_deployment c n (next_stage d) (world r) u' w' \<longleftrightarrow> u' = u \<and> w' = w"
      for u' w' using failed_deployment_unique [OF u, of u' w'] by blast
    moreover have "stageUpLocked c n r = (Returns (), \<lparr>stagedBindingPolicies =
        (stagedBindingPolicies r)(n \<mapsto> d\<lparr>d_activeBindingPolicyUID := u\<rparr>), world = w\<rparr>)"
      using ens err Some i r2 by (simp add: stageUp_eq [OF d] update_entry_def)
    ultimately show ?thesis using \<open>\<And>r''. \<not> deployment c n (next_stage d) r r''\<close> by auto
  qed
qed

theorem stage_up_outcomes_witness:
  "deployment demo_clients ''web'' (demo_data [demo_dev, demo_prod] 0\<lparr>d_activeIndex := 1\<rparr>) demo_ready
     (snd (stageUpLocked demo_clients ''web'' demo_ready))"
proof -
  let ?r = "snd (stageUpLocked demo_clients ''web'' demo_ready)"
  have "stageUpLocked demo_clients ''web'' demo_ready = (Returns (), ?r)"
    "\<not> (\<exists>u w. ?r = \<lparr>stagedBindingPolicies = (stagedBindingPolicies demo_ready)
        (''web'' \<mapsto> demo_data [demo_dev, demo_prod] 0\<lparr>d_activeBindingPolicyUID := u\<rparr>), world = w\<rparr>)"
    by (auto simp: demo_stageUp dest!: fun_cong [of _ _ "''web''"]
        arg_cong [of _ "demo_data _ 0\<lparr>d_activeBindingPolicyUID := _\<rparr>" d_activeIndex])
  with stage_up_outcomes [of demo_ready "''web''" "demo_data [demo_dev, demo_prod] 0"
      demo_clients "Returns ()" ?r] show ?thesis by auto
qed

text \<open>
  C17: When the last stage of a policy has a condition and it is fulfilled, the attempt deletes
  that stage's BindingPolicy and then panics: on an API server that keeps its promises the
  workload has lost its last placement, and the index is left out of bounds.
\<close>

theorem fulfilled_last_stage_is_undeployed:
  assumes "ranges_objs c" and "cel_bools_native (celEvaluator c)" and "delete_lawful c dep"
    and "stagedBindingPolicies r n = Some d" and "workloadLabelsValid c n d"
    and "Suc (d_activeIndex d) = length (d_stages d)" and "stageFulfilled c (world r) n d"
    and "previousDeleted c n (next_stage d) (world r) w"
  shows "attemptConditionLocked c n r =
      (Panics IndexOutOfRange,
       \<lparr>stagedBindingPolicies = (stagedBindingPolicies r)
          (n \<mapsto> d\<lparr>d_activeIndex := length (d_stages d)\<rparr>), world = w\<rparr>) \<and>
    \<not> dep w (stagePolicyName n d (d_activeIndex d))"
proof
  show "attemptConditionLocked c n r =
      (Panics IndexOutOfRange,
       \<lparr>stagedBindingPolicies = (stagedBindingPolicies r)
          (n \<mapsto> d\<lparr>d_activeIndex := length (d_stages d)\<rparr>), world = w\<rparr>)"
    using attempt_eq [OF assms(1,2,4,5)] assms(7) stageUp_panic_state [OF assms(4,6,8)] by simp
  show "\<not> dep w (stagePolicyName n d (d_activeIndex d))"
    using assms(3,8) unfolding delete_lawful_def previousDeleted_def
    by (auto split: prod.splits)
qed

theorem fulfilled_last_stage_is_undeployed_witness:
  "\<exists>r. attemptConditionLocked demo_clients ''web''
     (demo_resolver [demo_dev] 0 (demo_cluster [''web.stage.dev''] [demo_status ''dev'' True])) =
     (Panics IndexOutOfRange, r)"
  using fulfilled_last_stage_is_undeployed [OF demo_ranges_objs _
      api_lawfulD(1) [OF demo_api_lawful], of
      "demo_resolver [demo_dev] 0 (demo_cluster [''web.stage.dev''] [demo_status ''dev'' True])"
      "''web''" "demo_data [demo_dev] 0" "demo_cluster [] [demo_status ''dev'' True]"]
    demo_labels [of "[]"] demo_fulfilled_dev [of _ "[]"]
  by (simp add: demo_cel_bools previousDeleted_def demo_clients_def bindingPolicyName_def
      stage_suffix_def demo_cluster_def)

end
