(* ===== verification/Notification_Properties.thy ===== *)
theory Notification_Properties
  imports Resolver_Properties
begin

text \<open>
  Properties of the resolver's public operations: noting a policy, the names that connect a
  Binding to its policy, which notifications can change what, and what the error paths lead
  to. The witnesses use the cluster of \<open>Demo_Cluster\<close>.
\<close>

section \<open>Noting a policy\<close>

text \<open>
  C18: What noting a policy does. One without stages, which the API schema allows, panics, since the
  code reads the name of the stage at index 0; no call is made, and the entry stays in the map.
  Any other returns; it returns nil exactly when the deployment of its active stage went
  through, call by call, and the resolver is then in the state that deployment leaves. (The
  attempt at the end of the code never does anything, since the entry holds no workload yet.)
\<close>

theorem note_policy_deploys:
  "if spec_stages (sbp_spec sbp) = []
   then NoteStagedBindingPolicy c sbp r = (Panics IndexOutOfRange, noted sbp r)
   else (\<exists>err r'. NoteStagedBindingPolicy c sbp r = (Returns err, r')) \<and>
     (NoteStagedBindingPolicy c sbp r = (Returns None, r') \<longleftrightarrow>
      deployment c (sbp_name sbp) (newPolicyData sbp) (noted sbp r) r')"
  using note_no_stages [of sbp c r] note_no_panic [of sbp c r] note_ok [of sbp c r r']
  by simp

theorem note_policy_deploys_witness:
  "deployment demo_clients ''web'' (newPolicyData demo_policy)
     (noted demo_policy (new_resolver demo_start)) demo_started \<and>
   NoteStagedBindingPolicy demo_clients (demo_sbp [] []) demo_ready =
     (Panics IndexOutOfRange, noted (demo_sbp [] []) demo_ready)"
  using note_policy_deploys [of demo_policy demo_clients "new_resolver demo_start" demo_started]
    note_policy_deploys [of "demo_sbp [] []" demo_clients demo_ready]
    demo_note by (simp add: demo_policy_def)

text \<open>
  A policy comes back in the stage its status names: the first stage with that name, or
  the first stage of all when no stage has it.
\<close>

lemma active_stage_from_status:
  assumes "spec_stages (sbp_spec sbp) = stages" and "status_activeStage (sbp_status sbp) = s"
    and "s \<noteq> []"
  shows "if \<exists>j<length stages. stage_name (stages ! j) = s
    then activeStageIndex sbp < length stages \<and>
      stage_name (stages ! activeStageIndex sbp) = s \<and>
      (\<forall>k<activeStageIndex sbp. stage_name (stages ! k) \<noteq> s)
    else activeStageIndex sbp = 0"
proof (cases "\<exists>j<length stages. stage_name (stages ! j) = s")
  case True
  from findActiveStage_first [OF this, of 0] True assms show ?thesis
    by (simp add: activeStageIndex_def)
next
  case False
  then have "findActiveStage s 0 stages = 0" by (intro findActiveStage_missing) blast
  with False assms show ?thesis by (simp only: activeStageIndex_def) simp
qed

text \<open>
  In every state the resolver reaches, among any actors and as long as it has not
  panicked, the map is finite and every tracked policy is in one of its stages.
\<close>

lemma tracked_policies_in_range:
  assumes "(resolver_step c)\<^sup>*\<^sup>* (new_resolver w) r"
    and "stagedBindingPolicies r n = Some d"
  shows "d_activeIndex d < length (d_stages d) \<and> finite (dom (stagedBindingPolicies r))"
proof -
  have "tracked_ok r" using tracked.reachable_inv [OF _ assms(1)] by blast
  with assms(2) show ?thesis by (auto simp: tracked_ok_def)
qed

section \<open>Names\<close>


text \<open>
  C33: Where the name leads back to another policy, or to none, the Bindings of the stage never
  reach the policy: noting one leaves the policy's entry as it is, so it stays in its stage
  for ever. Policies whose name ends in \<open>.stage\<close> are of this kind.
\<close>

theorem unclean_name_never_noted:
  assumes "om_name (b_meta b) = bindingPolicyName n s" and "\<not> clean_names n s"
    and "NoteBinding c b r = (out, r')"
  shows "stagedBindingPolicies r' n = stagedBindingPolicies r n"
  using assms(3)
proof (cases rule: NoteBinding_cases)
  case ignored
  then show ?thesis by simp
next
  case (attempt m d)
  then have "m \<noteq> n" using assms(1,2) associatedName_iff [of n s] by auto
  with advances_other [OF attempt_advances] attempt(4) show ?thesis
    by (metis snd_conv update_entry_other)
qed

theorem unclean_name_never_noted_witness:
  "stagedBindingPolicies (snd (NoteBinding demo_clients
       (demo_binding\<lparr>b_meta := zero_meta\<lparr>om_name := ''web.stage.stage.dev''\<rparr>\<rparr>) demo_ready))
     ''web.stage'' = None"
  using unclean_name_never_noted [of
      "demo_binding\<lparr>b_meta := zero_meta\<lparr>om_name := ''web.stage.stage.dev''\<rparr>\<rparr>" "''web.stage''"
      "''dev''" demo_clients demo_ready]
  by (cases "NoteBinding demo_clients
        (demo_binding\<lparr>b_meta := zero_meta\<lparr>om_name := ''web.stage.stage.dev''\<rparr>\<rparr>) demo_ready")
     (simp add: zero_meta_def bindingPolicyName_def stage_suffix_def clean_names_def)

section \<open>Notifications\<close>

text \<open>
  An attempt on one policy, whatever its outcome, leaves every other policy alone, never
  changes what the policy was noted with, and moves its index by at most one.
\<close>

lemma attempt_touches_one_policy:
  assumes "attemptConditionLocked c n r = (out, r')" and "stagedBindingPolicies r m = Some d"
  shows "\<exists>d'. stagedBindingPolicies r' m = Some d' \<and> (m \<noteq> n \<longrightarrow> d' = d) \<and>
    d_uid d' = d_uid d \<and> d_downsync d' = d_downsync d \<and> d_stages d' = d_stages d \<and>
    d_bindingSpec d' = d_bindingSpec d \<and>
    (d_activeIndex d' = d_activeIndex d \<or> d_activeIndex d' = Suc (d_activeIndex d))"
proof -
  have adv: "advances n r r'" using attempt_advances [of n r c] assms(1) by simp
  obtain d' where d': "stagedBindingPolicies r' m = Some d'" "d_uid d' = d_uid d"
    "d_downsync d' = d_downsync d" "d_stages d' = d_stages d" "d_bindingSpec d' = d_bindingSpec d"
    "d_activeIndex d \<le> d_activeIndex d'" "d_activeIndex d' \<le> Suc (d_activeIndex d)"
    using advances_Some [OF adv assms(2)] .
  moreover have "d' = d" if "m \<noteq> n" using advances_other [OF adv that] assms(2) d'(1) by simp
  ultimately show ?thesis by auto
qed

section \<open>Error paths\<close>

text \<open>
  C31: When the next stage's BindingPolicy is created but its name cannot be written to the
  status, the index is reverted while the BindingPolicy stays: the entry pairs the old stage
  with the new stage's UID.
\<close>

theorem status_failure_keeps_new_stage:
  assumes "stagedBindingPolicies r n = Some d"
    and "Suc (d_activeIndex d) < length (d_stages d)"
    and "previousDeleted c n (next_stage d) (world r) w1"
    and "bp_Create c (stageBindingPolicy c n (next_stage d)
        (d_stages d ! Suc (d_activeIndex d))) w1 = (Inr echo, w2)"
    and "sbp_Get c n w2 = (Inr sbp, w3)"
    and "sbp_UpdateStatus c
        (set_activeStage (stage_name (d_stages d ! Suc (d_activeIndex d))) sbp) w3 = (Inl e, w4)"
  shows "stageUpLocked c n r =
    (Returns (),
     \<lparr>stagedBindingPolicies = (stagedBindingPolicies r)
        (n \<mapsto> d\<lparr>d_activeBindingPolicyUID := bp_uid echo\<rparr>), world = w4\<rparr>)"
  by (rule stageUp_status_error [OF assms])

theorem status_failure_keeps_new_stage_witness:
  "\<exists>u w. stageUpLocked demo_clients ''web''
     (demo_ready\<lparr>world := (demo_cluster [''web.stage.dev''] [])\<lparr>dw_conflict := True\<rparr>\<rparr>) =
   (Returns (), \<lparr>stagedBindingPolicies = [''web'' \<mapsto>
      (demo_data [demo_dev, demo_prod] 0)\<lparr>d_activeBindingPolicyUID := u\<rparr>], world = w\<rparr>)"
  by (intro exI, subst status_failure_keeps_new_stage [where d = "demo_data [demo_dev, demo_prod] 0"])
     (auto simp: previousDeleted_def demo_clients_def bindingPolicyName_def stage_suffix_def
       demo_cluster_def)

text \<open>
  C30: A policy that is noted with a status that lags one stage behind (because the status
  could not be written) ends up with two stages deployed at once.
\<close>

theorem stale_status_deploys_two_stages:
  assumes "api_lawful c dep" and "stages_ok (sbp_name sbp) (newPolicyData sbp)"
    and "Suc (activeStageIndex sbp) < length (spec_stages (sbp_spec sbp))"
    and "Suc (activeStageIndex sbp) \<in> placed dep (world r) (sbp_name sbp) (newPolicyData sbp)"
    and "NoteStagedBindingPolicy c sbp r = (Returns None, r')"
  shows "{activeStageIndex sbp, Suc (activeStageIndex sbp)} \<subseteq>
    placed dep (world r') (sbp_name sbp) (newPolicyData sbp)"
  using note_success_dep [OF assms(1,2,5,3)] assms(3,4) by (auto simp: placed_def)

text \<open>The cluster after the status failure of the witness above, and the policy noted again.\<close>

definition demo_lagging :: "demo_world resolver" where
  "demo_lagging = demo_resolver [demo_dev, demo_prod] 0 (demo_cluster [''web.stage.prod''] [])"

lemma demo_note_lagging:
  "NoteStagedBindingPolicy demo_clients demo_policy demo_lagging =
   (Returns None, \<lparr>stagedBindingPolicies = [''web'' \<mapsto>
       (newPolicyData demo_policy)\<lparr>d_activeBindingPolicyUID := ''uid-web.stage.dev''\<rparr>],
     world = (demo_cluster [''web.stage.dev'', ''web.stage.prod''] [])
       \<lparr>dw_sbps := [(''web'', demo_sbp [demo_dev, demo_prod] ''dev''), (''web'', demo_policy)]\<rparr>\<rparr>)"
  by (simp add: NoteStagedBindingPolicy_eq ensureActiveStageLocked_def deletePreviousStage_def
      createActiveStage_def updateStagedBindingPolicyStatusLocked_def update_entry_def
      stageBindingPolicy_def bindingPolicyName_def stage_suffix_def demo_clients_def
      demo_policy_def demo_sbp_def set_activeStage_def demo_lagging_def demo_resolver_def
      newPolicyData_def activeStageIndex_def
      demo_cluster_def zero_meta_def demo_dev_def demo_prod_def)

theorem stale_status_deploys_two_stages_witness:
  "{0, 1} \<subseteq> placed demo_deployed
     (world (snd (NoteStagedBindingPolicy demo_clients demo_policy demo_lagging))) ''web''
     (newPolicyData demo_policy)"
proof -
  have "activeStageIndex demo_policy = 0" "sbp_name demo_policy = ''web''"
    "spec_stages (sbp_spec demo_policy) = [demo_dev, demo_prod]"
    by (simp_all add: demo_policy_def activeStageIndex_def)
  then show ?thesis
    using stale_status_deploys_two_stages [OF demo_api_lawful, of demo_policy demo_lagging]
      demo_note_lagging demo_policy_stages_ok
    by (simp add: placed_def demo_deployed_def demo_lagging_def bindingPolicyName_def
        stage_suffix_def)
qed

text \<open>
  C29: A policy that is noted while the BindingPolicy of its active stage exists (after a
  restart of the controller, or an edit of its spec) gets an error, and the entry it leaves
  blocks it: no combined status, no Binding but one of its name without an owner, nothing that
  is noted of other policies, no change of the API server and no retry while that BindingPolicy
  exists ever changes the entry; and whenever it exists a retry gets an error again.
\<close>

theorem renoted_policy_is_blocked:
  assumes "api_lawful c dep" and "ranges_keys c"
    and "stages_ok (sbp_name sbp) (newPolicyData sbp)" and "spec_stages (sbp_spec sbp) \<noteq> []"
    and "finite (dom (stagedBindingPolicies r))"
    and "activeStageIndex sbp \<in> placed dep (world r) (sbp_name sbp) (newPolicyData sbp)"
  shows "\<exists>e r'. NoteStagedBindingPolicy c sbp r = (Returns (Some e), r') \<and>
    (\<forall>r''. (notified c dep sbp)\<^sup>*\<^sup>* r' r'' \<longrightarrow>
       stagedBindingPolicies r'' (sbp_name sbp) = Some (newPolicyData sbp) \<and>
       (activeStageIndex sbp \<in> placed dep (world r'') (sbp_name sbp) (newPolicyData sbp) \<longrightarrow>
         (\<exists>e s. NoteStagedBindingPolicy c sbp r'' = (Returns (Some e), s))))"
proof -
  let ?n = "sbp_name sbp" and ?d = "newPolicyData sbp"
  have again: "\<exists>e w. NoteStagedBindingPolicy c sbp s = (Returns (Some e), (noted sbp s)\<lparr>world := w\<rparr>)"
    if "activeStageIndex sbp \<in> placed dep (world s) ?n ?d" for s
    using note_existing [OF assms(1,3,4), of s] that unfolding placed_def by blast
  then obtain e w where noted: "NoteStagedBindingPolicy c sbp r =
      (Returns (Some e), (noted sbp r)\<lparr>world := w\<rparr>)" using assms(6) by blast
  have start: "blocked ?n ?d ((noted sbp r)\<lparr>world := w\<rparr>)"
    using assms(5) by (simp add: blocked_def)
  have "stagedBindingPolicies r'' ?n = Some ?d"
    if "(notified c dep sbp)\<^sup>*\<^sup>* ((noted sbp r)\<lparr>world := w\<rparr>) r''" for r''
    using blocked.reachable_inv [OF start that] assms(1-4) by (simp add: blocked_def renoted_def)
  with noted again show ?thesis by blast
qed

text \<open>The retry of the demo's policy fails as the note before it.\<close>

theorem renoted_policy_is_blocked_witness:
  "\<exists>e r' e' s. NoteStagedBindingPolicy demo_clients demo_policy demo_ready = (Returns (Some e), r') \<and>
     NoteStagedBindingPolicy demo_clients demo_policy (r'\<lparr>world := world demo_ready\<rparr>) =
       (Returns (Some e'), s)"
proof -
  have "activeStageIndex demo_policy = 0" "sbp_name demo_policy = ''web''"
    "spec_stages (sbp_spec demo_policy) = [demo_dev, demo_prod]"
    by (simp_all add: demo_policy_def activeStageIndex_def)
  moreover from this have placed: "activeStageIndex demo_policy \<in>
      placed demo_deployed (world demo_ready) (sbp_name demo_policy) (newPolicyData demo_policy)"
    by (auto simp: placed_def demo_deployed_def bindingPolicyName_def stage_suffix_def)
  ultimately obtain e r' where r': "NoteStagedBindingPolicy demo_clients demo_policy demo_ready =
      (Returns (Some e), r')"
    and later: "\<And>r''. (notified demo_clients demo_deployed demo_policy)\<^sup>*\<^sup>* r' r'' \<Longrightarrow>
      activeStageIndex demo_policy \<in>
        placed demo_deployed (world r'') (sbp_name demo_policy) (newPolicyData demo_policy) \<Longrightarrow>
      \<exists>e s. NoteStagedBindingPolicy demo_clients demo_policy r'' = (Returns (Some e), s)"
    using renoted_policy_is_blocked [OF demo_api_lawful demo_ranges_keys, of demo_policy demo_ready]
      demo_policy_stages_ok by auto
  have "(notified demo_clients demo_deployed demo_policy)\<^sup>*\<^sup>* r' (r'\<lparr>world := world demo_ready\<rparr>)"
    by (rule r_into_rtranclp) (rule notified.other_actor)
  from later [OF this] placed r' show ?thesis by auto
qed

end
