(* ===== verification/Filter_Properties.thy ===== *)
theory Filter_Properties
  imports Demo_Cluster
begin

text \<open>
  Properties of the workload filter and of the CEL evaluator (\<open>Workload_Filter\<close>,
  \<open>Cel_Evaluator\<close>), with witnesses on the CEL library of \<open>Demo_Cluster\<close>.
\<close>

section \<open>A workload of two objects of the same API group\<close>

definition demo_crd :: cluster_scope_clause where
  "demo_crd = \<lparr>cc_group = ''apps'', cc_version = ''v1'', cc_resource = ''profiles'',
     cc_name = ''base'', cc_resourceVersion = ''3''\<rparr>"

definition demo_mixed :: downsync_object_clauses where
  "demo_mixed = \<lparr>clusterScope = [demo_crd], namespaceScope = [demo_clause]\<rparr>"

lemma demo_mixed_sel:
  "clusterScope demo_mixed = [demo_crd]" "namespaceScope demo_mixed = [demo_clause]"
  by (simp_all add: demo_mixed_def)

text \<open>The expression compares \<open>group\<close> with \<open>apps\<close>, which is the group of both.\<close>

lemma demo_apps_cluster:
  "filter_passes \<lparr>ce_env = demo_cel\<rparr> (Some ''apps'') (clusterScopeDownsyncObjectToMap demo_crd) =
     Returns True"
  by (simp add: filter_passes_def testExpression_def Evaluate_def issues_Err_def demo_cel_def
      clusterScopeDownsyncObjectToMap_def demo_crd_def)

lemma demo_apps_namespaced:
  "filter_passes \<lparr>ce_env = demo_cel\<rparr> (Some ''apps'')
     (namespaceScopeDownsyncObjectToMap demo_clause) = Returns False"
  by (simp add: filter_passes_def testExpression_def Evaluate_def issues_Err_def demo_cel_def
      namespaceScopeDownsyncObjectToMap_def demo_clause_def)

section \<open>The filter\<close>

text \<open>
  C37: The filter returns, without repetitions, exactly the identifiers of the cluster-scoped
  and namespaced clauses whose variable passes the filter expression.
\<close>

theorem filter_keeps_passing_clauses:
  assumes "cel_bools_native e"
  shows "\<exists>F. filterWorkloadForSBP e w x = Returns F \<and> distinct F \<and>
    set F =
      clusterScope_identifier ` {c \<in> set (clusterScope w).
         filter_passes e x (clusterScopeDownsyncObjectToMap c) = Returns True} \<union>
      namespaceScope_identifier ` {c \<in> set (namespaceScope w).
         filter_passes e x (namespaceScopeDownsyncObjectToMap c) = Returns True}"
proof -
  obtain F where F: "filterWorkloadForSBP e w x = Returns F"
    using filterWorkload_total [OF assms] by blast
  from filterWorkload_distinct [OF F] filterWorkload_set [OF F] F show ?thesis by blast
qed

theorem filter_keeps_passing_clauses_witness:
  "\<exists>F. filterWorkloadForSBP \<lparr>ce_env = demo_cel\<rparr> demo_mixed (Some ''apps'') = Returns F \<and>
     F = [clusterScope_identifier demo_crd]"
proof -
  obtain F where F: "filterWorkloadForSBP \<lparr>ce_env = demo_cel\<rparr> demo_mixed (Some ''apps'') = Returns F"
    and d: "distinct F"
    and s: "set F = clusterScope_identifier ` {c \<in> set (clusterScope demo_mixed).
        filter_passes \<lparr>ce_env = demo_cel\<rparr> (Some ''apps'')
          (clusterScopeDownsyncObjectToMap c) = Returns True} \<union>
      namespaceScope_identifier ` {c \<in> set (namespaceScope demo_mixed).
        filter_passes \<lparr>ce_env = demo_cel\<rparr> (Some ''apps'')
          (namespaceScopeDownsyncObjectToMap c) = Returns True}"
    using filter_keeps_passing_clauses [OF demo_cel_bools, of demo_mixed "Some ''apps''"] by blast
  from s have "set F = {clusterScope_identifier demo_crd}"
    unfolding demo_mixed_sel using demo_apps_cluster demo_apps_namespaced by auto
  with d have "F = [clusterScope_identifier demo_crd]"
    by (cases F) (auto simp: insert_eq_iff subset_singleton_iff)
  with F show ?thesis by blast
qed

text \<open>Without a filter every clause is kept, whatever the CEL library does.\<close>

lemma no_filter_keeps_all:
  "\<exists>F. filterWorkloadForSBP e w None = Returns F \<and>
     set F = clusterScope_identifier ` set (clusterScope w) \<union>
       namespaceScope_identifier ` set (namespaceScope w)"
proof -
  obtain F where F: "filterWorkloadForSBP e w None = Returns F"
    using filter_loop_None unfolding filterWorkloadForSBP_def out_bind_Returns_iff by meson
  from filterWorkload_set [OF F] F show ?thesis by (simp add: filter_passes_def)
qed

text \<open>
  A filter cannot tell namespaced objects of different API groups apart: the variable it
  is evaluated on holds the clause's version under \<open>group\<close>, so clauses that differ in
  their group only always pass or fail together.
\<close>

lemma filter_blind_to_namespaced_group:
  "filter_passes e x (namespaceScopeDownsyncObjectToMap (clause\<lparr>nc_group := g\<rparr>)) =
     filter_passes e x (namespaceScopeDownsyncObjectToMap clause) \<and>
   map_of (namespaceScopeDownsyncObjectToMap clause) ''group'' =
     Some (GoString (nc_version clause))"
  by (simp add: namespaceScopeDownsyncObjectToMap_def)

section \<open>The CEL evaluator\<close>

text \<open>
  Checking an expression and evaluating it agree: an expression that does not pass
  \<open>CheckExpression\<close> evaluates to the same error on every input, and one that passes can only
  fail when its program is built or run.
\<close>

lemma check_agrees_with_evaluate:
  "(case CheckExpression e (Some x) of
      Some err \<Rightarrow> Evaluate e x m = Inl err
    | None \<Rightarrow>
        (case Evaluate e x m of
           Inl err \<Rightarrow> (\<exists>err'. err = Errorf ''failed to create program'' err' \<or>
                              err = Errorf ''failed to evaluate expression'' err')
         | Inr v \<Rightarrow> True))"
proof (cases "CheckExpression e (Some x)")
  case None
  then show ?thesis
    using CheckExpression_None_Evaluate [OF None, of m]
    by (cases "Evaluate e x m") (simp_all, metis)
next
  case (Some err)
  then show ?thesis using CheckExpression_error_Evaluate by (simp)
qed

text \<open>
  C38: A test never panics and is true exactly when the expression evaluates to the value true
  of type bool; errors and values of other types count as false.
\<close>

theorem test_expression_total:
  assumes "cel_bools_native e"
  shows "\<exists>b. testExpression e x m = Returns b \<and>
    (b \<longleftrightarrow> (\<exists>v. Evaluate e x m = Inr v \<and> val_TypeName v = ''bool'' \<and> val_Value v = GoBool True))"
  using testExpression_total [OF assms, of x m] testExpression_True [of e x m] by auto

theorem test_expression_total_witness:
  "testExpression \<lparr>ce_env = demo_cel\<rparr> ''number'' [] = Returns False"
  using test_expression_total [OF demo_cel_bools, of "''number''" "[]"]
  by (auto simp: Evaluate_def issues_Err_def demo_cel_def)

end
