(* ===== verification/Lister.thy ===== *)
theory Lister
  imports Api_Types
begin

text \<open>
  Objects as the informer machinery hands them over (an untyped value that holds a pointer
  to an API object), the indexer of an informer, and the generated lister over it
  (\<open>pkg/generated/listers/community/v1alpha1/stagedbindingpolicy.go\<close>).
\<close>

section \<open>Untyped objects\<close>

text \<open>
  The dynamic types the code distinguishes: the three API types it watches, the tombstone
  \<open>cache.DeletedFinalStateUnknown\<close> with a key and an object, an object of any other API type,
  and a value that is no API object at all.
\<close>

datatype api_object =
    SBPObject staged_binding_policy
  | BindingObject binding
  | CombinedStatusObject combined_status
  | DeletedFinalStateUnknown string api_object
  | OtherObject object_meta
  | NotAnObject

text \<open>The three type assertions \<open>obj.(*T)\<close> of the code.\<close>

fun as_StagedBindingPolicy :: "api_object \<Rightarrow> staged_binding_policy outcome" where
  "as_StagedBindingPolicy (SBPObject sbp) = Returns sbp"
| "as_StagedBindingPolicy _ = Panics TypeAssertion"

fun as_Binding :: "api_object \<Rightarrow> binding outcome" where
  "as_Binding (BindingObject b) = Returns b"
| "as_Binding _ = Panics TypeAssertion"

fun as_CombinedStatus :: "api_object \<Rightarrow> combined_status outcome" where
  "as_CombinedStatus (CombinedStatusObject cs) = Returns cs"
| "as_CombinedStatus _ = Panics TypeAssertion"

text \<open>\<open>obj.(metav1.Object)\<close>: the metadata of an API object; a tombstone is not one.\<close>

fun as_metav1_Object :: "api_object \<Rightarrow> object_meta outcome" where
  "as_metav1_Object (SBPObject sbp) = Returns (sbp_meta sbp)"
| "as_metav1_Object (BindingObject b) = Returns (b_meta b)"
| "as_metav1_Object (CombinedStatusObject cs) = Returns (cs_meta cs)"
| "as_metav1_Object (OtherObject m) = Returns m"
| "as_metav1_Object (DeletedFinalStateUnknown k x) = Panics TypeAssertion"
| "as_metav1_Object NotAnObject = Panics TypeAssertion"

lemma as_StagedBindingPolicy_Returns [simp]:
  "as_StagedBindingPolicy x = Returns sbp \<longleftrightarrow> x = SBPObject sbp"
  by (cases x) auto

lemma as_Binding_Returns [simp]: "as_Binding x = Returns b \<longleftrightarrow> x = BindingObject b"
  by (cases x) auto

lemma as_CombinedStatus_Returns [simp]:
  "as_CombinedStatus x = Returns cs \<longleftrightarrow> x = CombinedStatusObject cs"
  by (cases x) auto

lemma as_Panics:
  "as_StagedBindingPolicy x = Panics p \<longleftrightarrow> p = TypeAssertion \<and> (\<forall>sbp. x \<noteq> SBPObject sbp)"
  "as_Binding x = Panics p \<longleftrightarrow> p = TypeAssertion \<and> (\<forall>b. x \<noteq> BindingObject b)"
  "as_CombinedStatus x = Panics p \<longleftrightarrow> p = TypeAssertion \<and> (\<forall>cs. x \<noteq> CombinedStatusObject cs)"
  by (cases x; auto)+

section \<open>The lister\<close>

text \<open>
  An indexer over a cache \<open>'k\<close>, which is not in the repository: \<open>GetByKey\<close> returns an
  object, whether it exists, and an error; \<open>cache.ListAll\<close> calls a function on each object
  that matches the selector and returns an error, so it is the list of those objects.
\<close>

record ('sel, 'k) indexer =
  idx_GetByKey :: "string \<Rightarrow> 'k \<Rightarrow> api_object \<times> bool \<times> go_error option"
  idx_ListAll :: "'sel \<Rightarrow> 'k \<Rightarrow> api_object list \<times> go_error option"

text \<open>\<open>schema.GroupResource\<close>, as group and resource; \<open>v1alpha1.Resource(resource)\<close>.\<close>

type_synonym group_resource = "string \<times> string"

definition Resource :: "string \<Rightarrow> group_resource" where
  "Resource resource = (fst SchemeGroupVersion, resource)"

text \<open>A lister is the indexer it was made over; \<open>errors.NewNotFound\<close> is a parameter.\<close>

record ('sel, 'k) stagedBindingPolicyLister =
  l_indexer :: "('sel, 'k) indexer"

definition NewStagedBindingPolicyLister ::
  "('sel, 'k) indexer \<Rightarrow> ('sel, 'k) stagedBindingPolicyLister" where
  "NewStagedBindingPolicyLister indexer = \<lparr>l_indexer = indexer\<rparr>"

text \<open>The callback of \<open>List\<close> appends each object to \<open>ret\<close> after its type assertion.\<close>

fun lister_append ::
  "api_object list \<Rightarrow> staged_binding_policy list \<Rightarrow> staged_binding_policy list outcome" where
  "lister_append [] ret = Returns ret"
| "lister_append (m # ms) ret =
     out_bind (as_StagedBindingPolicy m) (\<lambda>sbp. lister_append ms (ret @ [sbp]))"

definition lister_List ::
  "('sel, 'k) stagedBindingPolicyLister \<Rightarrow> 'sel \<Rightarrow> 'k \<Rightarrow>
   (staged_binding_policy list \<times> go_error option) outcome" where
  "lister_List s selector k =
     (case idx_ListAll (l_indexer s) selector k of
        (objs, err) \<Rightarrow> out_bind (lister_append objs []) (\<lambda>ret. Returns (ret, err)))"

definition lister_Get ::
  "(group_resource \<Rightarrow> string \<Rightarrow> go_error) \<Rightarrow> ('sel, 'k) stagedBindingPolicyLister \<Rightarrow> string \<Rightarrow>
   'k \<Rightarrow> (go_error + staged_binding_policy) outcome" where
  "lister_Get NewNotFound s name k =
     (case idx_GetByKey (l_indexer s) name k of
        (obj, exists, err) \<Rightarrow>
          (case err of
             Some e \<Rightarrow> Returns (Inl e)
           | None \<Rightarrow>
               (if \<not> exists then Returns (Inl (NewNotFound (Resource ''stagedbindingpolicy'') name))
                else out_bind (as_StagedBindingPolicy obj) (\<lambda>sbp. Returns (Inr sbp)))))"

section \<open>What the lister returns\<close>

lemma lister_append_typed: "lister_append (map SBPObject xs) ret = Returns (ret @ xs)"
  by (induction xs arbitrary: ret) auto

lemma lister_append_untyped:
  assumes "m \<in> set objs" and "\<And>sbp. m \<noteq> SBPObject sbp"
  shows "lister_append objs ret = Panics TypeAssertion"
  using assms(1)
proof (induction objs arbitrary: ret)
  case Nil
  then show ?case by simp
next
  case (Cons x objs)
  show ?case
  proof (cases "as_StagedBindingPolicy x")
    case (Returns sbp)
    then have "m \<in> set objs" using Cons.prems assms(2) by auto
    from Cons.IH [OF this] Returns show ?thesis by simp
  next
    case (Panics p)
    then have "p = TypeAssertion" using as_Panics(1) by blast
    with Panics show ?thesis by simp
  qed
qed

text \<open>An informer's cache holds objects of its type only.\<close>

definition typed_indexer :: "('sel, 'k) indexer \<Rightarrow> bool" where
  "typed_indexer idx \<longleftrightarrow>
     (\<forall>key k obj err. idx_GetByKey idx key k = (obj, True, err) \<longrightarrow>
        (\<exists>sbp. obj = SBPObject sbp \<and> sbp_name sbp = key)) \<and>
     (\<forall>sel k. \<forall>obj\<in>set (fst (idx_ListAll idx sel k)). \<exists>sbp. obj = SBPObject sbp)"

lemma lister_Get_total:
  assumes "typed_indexer (l_indexer s)"
  shows "\<exists>res. lister_Get NewNotFound s name k = Returns res"
proof (cases "idx_GetByKey (l_indexer s) name k")
  case (fields obj exists err)
  show ?thesis
  proof (cases "exists \<and> err = None")
    case True
    with fields have "idx_GetByKey (l_indexer s) name k = (obj, True, err)" by simp
    with assms obtain sbp where "obj = SBPObject sbp" unfolding typed_indexer_def by blast
    with fields True show ?thesis by (simp add: lister_Get_def)
  qed (use fields in \<open>auto simp: lister_Get_def split: option.splits\<close>)
qed

lemma lister_Get_name:
  assumes "typed_indexer (l_indexer s)" "lister_Get NewNotFound s name k = Returns (Inr sbp)"
  shows "sbp_name sbp = name"
proof -
  from assms(2) have "idx_GetByKey (l_indexer s) name k = (SBPObject sbp, True, None)"
    by (auto simp: lister_Get_def out_bind_Returns_iff split: prod.splits option.splits if_splits)
  with assms(1) show ?thesis unfolding typed_indexer_def by blast
qed

lemma lister_List_total:
  assumes "typed_indexer (l_indexer s)"
  shows "\<exists>sbps. lister_List s sel k = Returns (sbps, snd (idx_ListAll (l_indexer s) sel k)) \<and>
    map SBPObject sbps = fst (idx_ListAll (l_indexer s) sel k)"
proof -
  obtain objs err where l: "idx_ListAll (l_indexer s) sel k = (objs, err)" by fastforce
  with assms have "\<forall>obj\<in>set objs. \<exists>sbp. obj = SBPObject sbp"
    unfolding typed_indexer_def by (metis fst_conv)
  then obtain xs where "objs = map SBPObject xs" by (metis ex_map_conv)
  with l show ?thesis by (auto simp: lister_List_def lister_append_typed)
qed

end
