(* ===== verification/Work_Queue.thy ===== *)
theory Work_Queue
  imports Api_Types
begin

text \<open>
  The work queue of the controller. Its items are the reference types of \<open>controller.go\<close>; the
  queue itself is client-go's rate limiting queue, which is not in the repository, so its
  operations are a record of functions on any type of queues, and \<open>queue_lawful\<close> says what
  client-go documents of them.
\<close>

section \<open>Items and operations\<close>

text \<open>
  The three reference types, and the object identifiers \<open>enqueueObjectIdentifier\<close> adds, which
  no case of \<open>reconcile\<close> handles.
\<close>

datatype work_item =
    StagedBindingPolicyRef string
  | BindingRef string
  | CombinedStatusRef string
  | ObjectItem object_identifier

text \<open>
  \<open>Get\<close> blocks while there is nothing to do (\<open>None\<close>), and otherwise returns an item, or
  the shutdown flag (\<open>None\<close> in the place of the item).
\<close>

record 'q work_queue =
  wq_Get :: "'q \<Rightarrow> (work_item option \<times> 'q) option"
  wq_Add :: "work_item \<Rightarrow> 'q \<Rightarrow> 'q"
  wq_AddRateLimited :: "work_item \<Rightarrow> 'q \<Rightarrow> 'q"
  wq_Forget :: "work_item \<Rightarrow> 'q \<Rightarrow> 'q"
  wq_Done :: "work_item \<Rightarrow> 'q \<Rightarrow> 'q"

section \<open>What client-go documents\<close>

text \<open>
  A queue is read through four views: the items that are to be processed, those being
  processed, those that wait for their back-off period to end, and whether it shuts down.
  Equal items are held once; an item being processed is not handed out again before \<open>Done\<close>;
  a queue that shuts down takes no more items but hands out those it has.
\<close>

record 'q queue_view =
  pend :: "'q \<Rightarrow> work_item set"
  busy :: "'q \<Rightarrow> work_item set"
  waits :: "'q \<Rightarrow> work_item set"
  shut :: "'q \<Rightarrow> bool"

definition get_lawful :: "'q work_queue \<Rightarrow> 'q queue_view \<Rightarrow> bool" where
  "get_lawful Q v \<longleftrightarrow>
     (\<forall>q. wq_Get Q q = None \<longrightarrow> \<not> shut v q \<and> pend v q \<subseteq> busy v q) \<and>
     (\<forall>q q'. wq_Get Q q = Some (None, q') \<longrightarrow>
        shut v q \<and> pend v q \<subseteq> busy v q \<and>
        pend v q' = pend v q \<and> busy v q' = busy v q \<and> waits v q' = waits v q \<and>
        shut v q' = shut v q) \<and>
     (\<forall>q q' i. wq_Get Q q = Some (Some i, q') \<longrightarrow>
        i \<in> pend v q \<and> i \<notin> busy v q \<and>
        pend v q' = pend v q - {i} \<and> busy v q' = insert i (busy v q) \<and>
        waits v q' = waits v q \<and> shut v q' = shut v q)"

definition add_lawful :: "'q work_queue \<Rightarrow> 'q queue_view \<Rightarrow> bool" where
  "add_lawful Q v \<longleftrightarrow>
     (\<forall>q i. let q' = wq_Add Q i q in
        pend v q' = (if shut v q then pend v q else insert i (pend v q)) \<and>
        busy v q' = busy v q \<and> waits v q' = waits v q \<and> shut v q' = shut v q)"

text \<open>
  \<open>AddRateLimited\<close> adds the item at once, or lets it wait for its back-off period to end; a queue
  that shuts down takes it neither way.
\<close>

definition retry_lawful :: "'q work_queue \<Rightarrow> 'q queue_view \<Rightarrow> bool" where
  "retry_lawful Q v \<longleftrightarrow>
     (\<forall>q i. let q' = wq_AddRateLimited Q i q in
        (if shut v q then pend v q' = pend v q \<and> waits v q' = waits v q
         else pend v q' = insert i (pend v q) \<and> waits v q' = waits v q \<or>
           pend v q' = pend v q \<and> waits v q' = insert i (waits v q)) \<and>
        busy v q' = busy v q \<and> shut v q' = shut v q)"

definition done_lawful :: "'q work_queue \<Rightarrow> 'q queue_view \<Rightarrow> bool" where
  "done_lawful Q v \<longleftrightarrow>
     (\<forall>q i. let q' = wq_Done Q i q in
        pend v q' = pend v q \<and> busy v q' = busy v q - {i} \<and> waits v q' = waits v q \<and>
        shut v q' = shut v q) \<and>
     (\<forall>q i. let q' = wq_Forget Q i q in
        pend v q' = pend v q \<and> busy v q' = busy v q \<and> waits v q' = waits v q \<and>
        shut v q' = shut v q)"

definition queue_lawful :: "'q work_queue \<Rightarrow> 'q queue_view \<Rightarrow> bool" where
  "queue_lawful Q v \<longleftrightarrow>
     get_lawful Q v \<and> add_lawful Q v \<and> retry_lawful Q v \<and> done_lawful Q v"

lemma Get_blocks:
  assumes "queue_lawful Q v" "wq_Get Q q = None"
  shows "\<not> shut v q" "pend v q \<subseteq> busy v q"
  using assms unfolding queue_lawful_def get_lawful_def by blast+

lemma Get_shutdown:
  assumes "queue_lawful Q v" "wq_Get Q q = Some (None, q')"
  shows "shut v q" "pend v q \<subseteq> busy v q" "pend v q' = pend v q" "busy v q' = busy v q"
    "waits v q' = waits v q" "shut v q'"
  using assms unfolding queue_lawful_def get_lawful_def by blast+

lemma Get_item:
  assumes "queue_lawful Q v" "wq_Get Q q = Some (Some i, q')"
  shows "i \<in> pend v q" "i \<notin> busy v q" "pend v q' = pend v q - {i}"
    "busy v q' = insert i (busy v q)" "waits v q' = waits v q" "shut v q' = shut v q"
  using assms unfolding queue_lawful_def get_lawful_def by blast+

lemma Add_views:
  assumes "queue_lawful Q v"
  shows "pend v (wq_Add Q i q) = (if shut v q then pend v q else insert i (pend v q))"
    "busy v (wq_Add Q i q) = busy v q" "waits v (wq_Add Q i q) = waits v q"
    "shut v (wq_Add Q i q) = shut v q"
  using assms by (simp_all add: queue_lawful_def add_lawful_def Let_def)

lemma AddRateLimited_views:
  assumes "queue_lawful Q v"
  shows "busy v (wq_AddRateLimited Q i q) = busy v q"
    "shut v (wq_AddRateLimited Q i q) = shut v q"
    "pend v (wq_AddRateLimited Q i q) \<union> waits v (wq_AddRateLimited Q i q) =
      (if shut v q then pend v q \<union> waits v q else insert i (pend v q \<union> waits v q))"
    "shut v q \<Longrightarrow> pend v (wq_AddRateLimited Q i q) = pend v q"
    "pend v q \<subseteq> pend v (wq_AddRateLimited Q i q)"
    "pend v (wq_AddRateLimited Q i q) = pend v q \<and> waits v (wq_AddRateLimited Q i q) = waits v q \<or>
     pend v (wq_AddRateLimited Q i q) = insert i (pend v q) \<and>
       waits v (wq_AddRateLimited Q i q) = waits v q \<or>
     pend v (wq_AddRateLimited Q i q) = pend v q \<and>
       waits v (wq_AddRateLimited Q i q) = insert i (waits v q)"
proof -
  have law: "let q' = wq_AddRateLimited Q i q in
        (if shut v q then pend v q' = pend v q \<and> waits v q' = waits v q
         else pend v q' = insert i (pend v q) \<and> waits v q' = waits v q \<or>
           pend v q' = pend v q \<and> waits v q' = insert i (waits v q)) \<and>
        busy v q' = busy v q \<and> shut v q' = shut v q"
    using assms unfolding queue_lawful_def retry_lawful_def by blast
  then show "busy v (wq_AddRateLimited Q i q) = busy v q"
    "shut v (wq_AddRateLimited Q i q) = shut v q"
    "pend v (wq_AddRateLimited Q i q) \<union> waits v (wq_AddRateLimited Q i q) =
      (if shut v q then pend v q \<union> waits v q else insert i (pend v q \<union> waits v q))"
    "shut v q \<Longrightarrow> pend v (wq_AddRateLimited Q i q) = pend v q"
    "pend v q \<subseteq> pend v (wq_AddRateLimited Q i q)"
    "pend v (wq_AddRateLimited Q i q) = pend v q \<and> waits v (wq_AddRateLimited Q i q) = waits v q \<or>
     pend v (wq_AddRateLimited Q i q) = insert i (pend v q) \<and>
       waits v (wq_AddRateLimited Q i q) = waits v q \<or>
     pend v (wq_AddRateLimited Q i q) = pend v q \<and>
       waits v (wq_AddRateLimited Q i q) = insert i (waits v q)"
    unfolding Let_def by (auto split: if_splits)
qed

lemma Done_views:
  assumes "queue_lawful Q v"
  shows "pend v (wq_Done Q i q) = pend v q" "busy v (wq_Done Q i q) = busy v q - {i}"
    "waits v (wq_Done Q i q) = waits v q" "shut v (wq_Done Q i q) = shut v q"
  using assms by (simp_all add: queue_lawful_def done_lawful_def Let_def)

lemma Forget_views:
  assumes "queue_lawful Q v"
  shows "pend v (wq_Forget Q i q) = pend v q" "busy v (wq_Forget Q i q) = busy v q"
    "waits v (wq_Forget Q i q) = waits v q" "shut v (wq_Forget Q i q) = shut v q"
  using assms by (simp_all add: queue_lawful_def done_lawful_def Let_def)

end
