(* ===== verification/Controller.thy ===== *)
theory Controller
  imports Lister Work_Queue Resolver_Ops
begin

text \<open>
  \<open>controller.go\<close>, \<open>binding.go\<close>, \<open>stagedbindingpolicy.go\<close> and \<open>combinedstatus.go\<close>: taking an
  item off the work queue, reconciling it, and what becomes of the item. The controller
  uses the resolver through the interface \<open>resolver_if\<close> only; what it can rely on is
  \<open>resolver_contract\<close>.
\<close>

section \<open>State\<close>

text \<open>
  What the controller is made of, apart from what changes: the queue's operations, the
  listers over the informers' caches (\<open>'k\<close>), library functions, and the resolver. The
  resolver has its own view of the API server; the caches are another view, and nothing is
  assumed of how far they agree.
\<close>

record ('sel, 'k, 'q, 's) controller_deps =
  queue :: "'q work_queue"
  bindingLister_Get :: "string \<Rightarrow> 'k \<Rightarrow> go_error + binding"
  combinedStatusLister_Get :: "string \<Rightarrow> string \<Rightarrow> 'k \<Rightarrow> go_error + combined_status"
  sbpLister :: "('sel, 'k) stagedBindingPolicyLister"
  api_IsNotFound :: "go_error \<Rightarrow> bool"
  api_NewNotFound :: "group_resource \<Rightarrow> string \<Rightarrow> go_error"
  SplitMetaNamespaceKey :: "string \<Rightarrow> go_error + string \<times> string"
  MetaNamespaceKeyFunc :: "api_object \<Rightarrow> go_error + string"
  the_resolver :: "'s resolver_if"

record ('k, 'q, 's) controller =
  c_cache :: 'k
  c_queue :: 'q
  c_resolver :: 's

definition call_resolver ::
  "('s \<Rightarrow> 'a outcome \<times> 's) \<Rightarrow> ('k, 'q, 's) controller \<Rightarrow>
   'a outcome \<times> ('k, 'q, 's) controller" where
  "call_resolver f st = (case f (c_resolver st) of (out, s) \<Rightarrow> (out, st\<lparr>c_resolver := s\<rparr>))"

definition on_queue :: "('q \<Rightarrow> 'q) \<Rightarrow> ('k, 'q, 's) controller \<Rightarrow> ('k, 'q, 's) controller" where
  "on_queue f st = st\<lparr>c_queue := f (c_queue st)\<rparr>"

lemma on_queue_sel [simp]:
  "c_cache (on_queue f st) = c_cache st" "c_queue (on_queue f st) = f (c_queue st)"
  "c_resolver (on_queue f st) = c_resolver st"
  by (simp_all add: on_queue_def)

section \<open>Reconciling an item\<close>

definition processBinding ::
  "('sel, 'k, 'q, 's) controller_deps \<Rightarrow> string \<Rightarrow> ('k, 'q, 's) controller \<Rightarrow>
   go_error option outcome \<times> ('k, 'q, 's) controller" where
  "processBinding D ref st =
     (case bindingLister_Get D ref (c_cache st) of
        Inl err \<Rightarrow>
          (if api_IsNotFound D err then (Returns None, st)
           else (Returns (Some (Errorf ''failed to get Binding from informer cache'' err)), st))
      | Inr b \<Rightarrow>
          st_bind (call_resolver (if_NoteBinding (the_resolver D) b) st)
            (\<lambda>_ st'. (Returns None, st')))"

definition processCombinedStatus ::
  "('sel, 'k, 'q, 's) controller_deps \<Rightarrow> string \<Rightarrow> ('k, 'q, 's) controller \<Rightarrow>
   go_error option outcome \<times> ('k, 'q, 's) controller" where
  "processCombinedStatus D ref st =
     (case SplitMetaNamespaceKey D ref of
        Inl err \<Rightarrow> (Returns (Some err), st)
      | Inr (ns, name) \<Rightarrow>
          (case combinedStatusLister_Get D ns name (c_cache st) of
             Inl err \<Rightarrow>
               (if api_IsNotFound D err then (Returns None, st)
                else (Returns (Some
                        (Errorf ''failed to get CombinedStatus from informer cache'' err)), st))
           | Inr cs \<Rightarrow>
               st_bind (call_resolver (if_NoteCombinedStatus (the_resolver D) cs) st)
                 (\<lambda>_ st'. (Returns None, st'))))"

definition syncStagedBindingPolicy ::
  "('sel, 'k, 'q, 's) controller_deps \<Rightarrow> string \<Rightarrow> ('k, 'q, 's) controller \<Rightarrow>
   go_error option outcome \<times> ('k, 'q, 's) controller" where
  "syncStagedBindingPolicy D ref st =
     (case lister_Get (api_NewNotFound D) (sbpLister D) ref (c_cache st) of
        Panics p \<Rightarrow> (Panics p, st)
      | Returns (Inl err) \<Rightarrow>
          (if api_IsNotFound D err then
             st_bind (call_resolver (if_DeleteStagedBindingPolicy (the_resolver D) ref) st)
               (\<lambda>_ st'. (Returns None, st'))
           else (Returns (Some
                   (Errorf ''failed to get StagedBindingPolicy from informer cache'' err)), st))
      | Returns (Inr sbp) \<Rightarrow>
          st_bind (call_resolver (if_NoteStagedBindingPolicy (the_resolver D) sbp) st)
            (\<lambda>res st'. case res of
               Some err \<Rightarrow>
                 (Returns (Some (Errorf ''failed to note StagedBindingPolicy'' err)), st')
             | None \<Rightarrow> (Returns None, st')))"

definition reconcile ::
  "('sel, 'k, 'q, 's) controller_deps \<Rightarrow> work_item \<Rightarrow> ('k, 'q, 's) controller \<Rightarrow>
   go_error option outcome \<times> ('k, 'q, 's) controller" where
  "reconcile D item st =
     (case item of
        StagedBindingPolicyRef ref \<Rightarrow> syncStagedBindingPolicy D ref st
      | BindingRef ref \<Rightarrow> processBinding D ref st
      | CombinedStatusRef ref \<Rightarrow> processCombinedStatus D ref st
      | ObjectItem _ \<Rightarrow> (Returns None, st))"

section \<open>The worker\<close>

text \<open>
  \<open>reconcileItem\<close> is the body of the function literal before its deferred call: an error puts
  the item back for a retry, no error forgets it. \<open>processNextWorkItem\<close> is \<open>None\<close> when
  \<open>Get\<close> blocks; the deferred \<open>Done\<close> runs on a panic as well.
\<close>

definition reconcileItem ::
  "('sel, 'k, 'q, 's) controller_deps \<Rightarrow> work_item \<Rightarrow> ('k, 'q, 's) controller \<Rightarrow>
   go_error option outcome \<times> ('k, 'q, 's) controller" where
  "reconcileItem D item st =
     st_bind (reconcile D item st)
       (\<lambda>res st'. case res of
          Some err \<Rightarrow>
            (Returns (Some (Errorf ''error reconciling object'' err)),
             on_queue (wq_AddRateLimited (queue D) item) st')
        | None \<Rightarrow> (Returns None, on_queue (wq_Forget (queue D) item) st'))"

definition processNextWorkItem ::
  "('sel, 'k, 'q, 's) controller_deps \<Rightarrow> ('k, 'q, 's) controller \<Rightarrow>
   (bool outcome \<times> ('k, 'q, 's) controller) option" where
  "processNextWorkItem D st =
     (case wq_Get (queue D) (c_queue st) of
        None \<Rightarrow> None
      | Some (None, q) \<Rightarrow> Some (Returns False, st\<lparr>c_queue := q\<rparr>)
      | Some (Some item, q) \<Rightarrow>
          (case reconcileItem D item (st\<lparr>c_queue := q\<rparr>) of
             (out, st') \<Rightarrow>
               (let st'' = on_queue (wq_Done (queue D) item) st' in
                case out of
                  Panics p \<Rightarrow> Some (Panics p, st'')
                | Returns _ \<Rightarrow> Some (Returns True, st''))))"

text \<open>\<open>None\<close>: a \<open>Get\<close> blocks, or the loop never ends.\<close>

partial_function (option) runWorker ::
  "('sel, 'k, 'q, 's) controller_deps \<Rightarrow> ('k, 'q, 's) controller \<Rightarrow>
   (unit outcome \<times> ('k, 'q, 's) controller) option" where
  "runWorker D st =
     Option.bind (processNextWorkItem D st)
       (\<lambda>(out, st'). case out of
          Panics p \<Rightarrow> Some (Panics p, st')
        | Returns again \<Rightarrow> if again then runWorker D st' else Some (Returns (), st'))"

lemmas process_defs =
  processBinding_def processCombinedStatus_def syncStagedBindingPolicy_def call_resolver_def

section \<open>What a reconciliation touches\<close>

lemma call_resolver_frame:
  assumes "call_resolver f st = (out, st')"
  shows "c_cache st' = c_cache st" "c_queue st' = c_queue st"
  using assms by (auto simp: call_resolver_def split: prod.splits)

lemma bind_call_frame [frame_simps]:
  assumes "\<And>x s. snd (g x s) = s"
  shows "c_cache (snd (st_bind (call_resolver f st) g)) = c_cache st"
    "c_queue (snd (st_bind (call_resolver f st) g)) = c_queue st"
proof -
  obtain out s where "f (c_resolver st) = (out, s)" by fastforce
  then show "c_cache (snd (st_bind (call_resolver f st) g)) = c_cache st"
    "c_queue (snd (st_bind (call_resolver f st) g)) = c_queue st"
    using assms by (cases out; simp add: call_resolver_def)+
qed

lemma process_frame [frame_simps]:
  "c_cache (snd (processBinding D n st)) = c_cache st"
  "c_queue (snd (processBinding D n st)) = c_queue st"
  "c_cache (snd (processCombinedStatus D n st)) = c_cache st"
  "c_queue (snd (processCombinedStatus D n st)) = c_queue st"
  "c_cache (snd (syncStagedBindingPolicy D n st)) = c_cache st"
  "c_queue (snd (syncStagedBindingPolicy D n st)) = c_queue st"
  by (simp_all add: processBinding_def processCombinedStatus_def syncStagedBindingPolicy_def
      frame_simps split: sum.split outcome.split option.split prod.split)

lemma reconcile_frame [frame_simps]:
  "c_cache (snd (reconcile D item st)) = c_cache st"
  "c_queue (snd (reconcile D item st)) = c_queue st"
  by (simp_all add: reconcile_def frame_simps split: work_item.split)

section \<open>A reconciliation in two steps\<close>

text \<open>
  Between the read of an informer's cache and the call of the resolver other goroutines run.
  \<open>fetch\<close> is the first part of a reconciliation and \<open>apply_fetched\<close> the second.
\<close>

datatype fetched =
    FetchedPolicy staged_binding_policy
  | MissingPolicy string
  | FetchedBinding binding
  | FetchedStatus combined_status
  | Skipped
  | Failed go_error

definition fetch ::
  "('sel, 'k, 'q, 's) controller_deps \<Rightarrow> work_item \<Rightarrow> 'k \<Rightarrow> fetched outcome" where
  "fetch D item k =
     (case item of
        StagedBindingPolicyRef ref \<Rightarrow>
          out_bind (lister_Get (api_NewNotFound D) (sbpLister D) ref k)
            (\<lambda>res. Returns (case res of
               Inl err \<Rightarrow>
                 if api_IsNotFound D err then MissingPolicy ref
                 else Failed (Errorf ''failed to get StagedBindingPolicy from informer cache'' err)
             | Inr sbp \<Rightarrow> FetchedPolicy sbp))
      | BindingRef ref \<Rightarrow>
          Returns (case bindingLister_Get D ref k of
            Inl err \<Rightarrow>
              if api_IsNotFound D err then Skipped
              else Failed (Errorf ''failed to get Binding from informer cache'' err)
          | Inr b \<Rightarrow> FetchedBinding b)
      | CombinedStatusRef ref \<Rightarrow>
          Returns (case SplitMetaNamespaceKey D ref of
            Inl err \<Rightarrow> Failed err
          | Inr (ns, name) \<Rightarrow>
              (case combinedStatusLister_Get D ns name k of
                 Inl err \<Rightarrow>
                   if api_IsNotFound D err then Skipped
                   else Failed (Errorf ''failed to get CombinedStatus from informer cache'' err)
               | Inr cs \<Rightarrow> FetchedStatus cs))
      | ObjectItem _ \<Rightarrow> Returns Skipped)"

definition apply_fetched ::
  "('sel, 'k, 'q, 's) controller_deps \<Rightarrow> fetched \<Rightarrow> ('k, 'q, 's) controller \<Rightarrow>
   go_error option outcome \<times> ('k, 'q, 's) controller" where
  "apply_fetched D f st =
     (case f of
        FetchedPolicy sbp \<Rightarrow>
          st_bind (call_resolver (if_NoteStagedBindingPolicy (the_resolver D) sbp) st)
            (\<lambda>res st'. (Returns (map_option (Errorf ''failed to note StagedBindingPolicy'') res),
               st'))
      | MissingPolicy n \<Rightarrow>
          st_bind (call_resolver (if_DeleteStagedBindingPolicy (the_resolver D) n) st)
            (\<lambda>_ st'. (Returns None, st'))
      | FetchedBinding b \<Rightarrow>
          st_bind (call_resolver (if_NoteBinding (the_resolver D) b) st)
            (\<lambda>_ st'. (Returns None, st'))
      | FetchedStatus cs \<Rightarrow>
          st_bind (call_resolver (if_NoteCombinedStatus (the_resolver D) cs) st)
            (\<lambda>_ st'. (Returns None, st'))
      | Skipped \<Rightarrow> (Returns None, st)
      | Failed err \<Rightarrow> (Returns (Some err), st))"

lemma note_result_eq:
  "(\<lambda>res s. case res of
      Some err \<Rightarrow> (Returns (Some (Errorf ''failed to note StagedBindingPolicy'' err)), s)
    | None \<Rightarrow> (Returns None, s)) =
   (\<lambda>res s. (Returns (map_option (Errorf ''failed to note StagedBindingPolicy'') res), s))"
  by (simp add: fun_eq_iff split: option.split)

lemma reconcile_eq:
  "reconcile D item st =
   (case fetch D item (c_cache st) of
      Panics p \<Rightarrow> (Panics p, st)
    | Returns f \<Rightarrow> apply_fetched D f st)"
proof (cases item)
  case (StagedBindingPolicyRef ref)
  show ?thesis
    by (cases "lister_Get (api_NewNotFound D) (sbpLister D) ref (c_cache st)")
       (simp_all add: StagedBindingPolicyRef reconcile_def fetch_def apply_fetched_def
          syncStagedBindingPolicy_def note_result_eq split: sum.split)
next
  case (CombinedStatusRef ref)
  then show ?thesis
    by (simp add: reconcile_def fetch_def apply_fetched_def processCombinedStatus_def
        split: sum.split prod.split)
qed (simp_all add: reconcile_def fetch_def apply_fetched_def processBinding_def split: sum.split)

lemma apply_fetched_frame [frame_simps]:
  "c_cache (snd (apply_fetched D f st)) = c_cache st"
  "c_queue (snd (apply_fetched D f st)) = c_queue st"
  by (simp_all add: apply_fetched_def frame_simps split: fetched.split)

section \<open>Any resolver that keeps the contract\<close>

text \<open>What is tracked after a reconciliation, whatever its outcome.\<close>

fun contents_after :: "fetched \<Rightarrow> (string \<rightharpoonup> content) \<Rightarrow> string \<rightharpoonup> content" where
  "contents_after (FetchedPolicy sbp) A = A(sbp_name sbp \<mapsto> policy_content sbp)"
| "contents_after (MissingPolicy n) A = A(n := None)"
| "contents_after _ A = A"

context resolver_contract
begin

lemma call_inv:
  assumes "st_bind (call_resolver f st) (\<lambda>x s. (Returns (g x), s)) = (Returns err, st')"
    and "\<And>x s'. f (c_resolver st) = (Returns x, s') \<Longrightarrow> inv s'"
  shows "inv (c_resolver st')"
proof -
  obtain out s where f: "f (c_resolver st) = (out, s)" by fastforce
  with assms show ?thesis by (cases out) (auto simp: call_resolver_def)
qed

lemma call_contents:
  assumes "st_bind (call_resolver f st) (\<lambda>x s. (Returns (g x), s)) = (out, st')"
    and "\<And>x s'. f (c_resolver st) = (x, s') \<Longrightarrow> contents s' = A"
  shows "contents (c_resolver st') = A"
proof -
  obtain out s where f: "f (c_resolver st) = (out, s)" by fastforce
  with assms show ?thesis by (cases out) (auto simp: call_resolver_def)
qed

lemma apply_inv:
  assumes "the_resolver D = R" "inv (c_resolver st)" "apply_fetched D f st = (Returns err, st')"
  shows "inv (c_resolver st')"
  using assms(3) assms(2)
  by (cases f)
     (auto simp: apply_fetched_def assms(1) intro: note_inv delete_inv binding_inv
        combinedStatus_inv elim!: call_inv)

lemma apply_contents:
  assumes "the_resolver D = R" "apply_fetched D f st = (out, st')"
  shows "contents (c_resolver st') = contents_after f (contents (c_resolver st))"
  using assms(2)
  by (cases f)
     (auto simp: apply_fetched_def assms(1) note_contents delete_contents binding_contents
        combinedStatus_contents elim!: call_contents)

lemma reconcile_inv:
  assumes "the_resolver D = R" "inv (c_resolver st)" "reconcile D item st = (Returns err, st')"
  shows "inv (c_resolver st')"
  using assms(3) apply_inv [OF assms(1,2)] by (auto simp: reconcile_eq split: outcome.splits)

lemma processNextWorkItem_inv:
  assumes "the_resolver D = R" "inv (c_resolver st)"
    and "processNextWorkItem D st = Some (Returns again, st')"
  shows "inv (c_resolver st')"
proof -
  have "inv (c_resolver (on_queue f s))"
    if "reconcileItem D item (st\<lparr>c_queue := q\<rparr>) = (Returns err, s)" for item q err s f
  proof -
    from that obtain err' s' where "reconcile D item (st\<lparr>c_queue := q\<rparr>) = (Returns err', s')"
      "c_resolver s = c_resolver s'"
      by (cases "reconcile D item (st\<lparr>c_queue := q\<rparr>)";
          cases "fst (reconcile D item (st\<lparr>c_queue := q\<rparr>))")
         (auto simp: reconcileItem_def split: option.splits)
    with reconcile_inv [OF assms(1), of "st\<lparr>c_queue := q\<rparr>"] assms(2) show ?thesis by simp
  qed
  with assms(2,3) show ?thesis
    by (auto simp: processNextWorkItem_def Let_def split: option.splits prod.splits outcome.splits)
qed

end

end
