(* ===== verification/Worker_Pool.thy ===== *)
theory Worker_Pool
  imports Controller
begin

text \<open>
  The controller at run time: \<open>run\<close> starts several workers over one queue, the informers
  update their caches and notify the event handlers, items come back after their back-off
  period, other actors change the API server. A worker goes through one item in four
  steps, between which everything else may run: take an item, read the cache, call the
  resolver, and finish (retry or forget, then \<open>Done\<close>). A panic ends the process, so a run
  has none.
\<close>

section \<open>States and steps\<close>

datatype phase =
    Idle
  | Took work_item
  | Fetched work_item fetched
  | Applied work_item "go_error option"

text \<open>
  A crew is the controller and what each worker is doing. The pool adds \<open>p_notes\<close>, the
  references of the objects whose change the event handlers have not yet put on the queue;
  \<open>Event_System\<close> adds the events themselves instead.
\<close>

record ('k, 'q, 's) crew =
  p_ctrl :: "('k, 'q, 's) controller"
  p_workers :: "nat \<Rightarrow> phase"

record ('k, 'q, 's) pool = "('k, 'q, 's) crew" +
  p_notes :: "work_item set"

abbreviation p_queue :: "('k, 'q, 's, 'z) crew_scheme \<Rightarrow> 'q" where
  "p_queue p \<equiv> c_queue (p_ctrl p)"

abbreviation p_cache :: "('k, 'q, 's, 'z) crew_scheme \<Rightarrow> 'k" where
  "p_cache p \<equiv> c_cache (p_ctrl p)"

abbreviation p_resolver :: "('k, 'q, 's, 'z) crew_scheme \<Rightarrow> 's" where
  "p_resolver p \<equiv> c_resolver (p_ctrl p)"

text \<open>What the informer's cache holds of a policy, and whether it holds it.\<close>

definition cached_content ::
  "('sel, 'k, 'q, 's) controller_deps \<Rightarrow> 'k \<Rightarrow> string \<rightharpoonup> content" where
  "cached_content D k n =
     (case idx_GetByKey (l_indexer (sbpLister D)) n k of
        (obj, ex, err) \<Rightarrow>
          if ex then (case obj of SBPObject sbp \<Rightarrow> Some (policy_content sbp) | _ \<Rightarrow> None)
          else None)"

definition cached :: "('sel, 'k, 'q, 's) controller_deps \<Rightarrow> 'k \<Rightarrow> string \<Rightarrow> bool" where
  "cached D k n \<longleftrightarrow> cached_content D k n \<noteq> None"

definition finish_item ::
  "('sel, 'k, 'q, 's) controller_deps \<Rightarrow> work_item \<Rightarrow> go_error option \<Rightarrow>
   ('k, 'q, 's) controller \<Rightarrow> ('k, 'q, 's) controller" where
  "finish_item D i err c =
     on_queue (wq_Done (queue D) i)
       (on_queue (case err of Some e \<Rightarrow> wq_AddRateLimited (queue D) i
                  | None \<Rightarrow> wq_Forget (queue D) i) c)"

text \<open>The steps of a worker.\<close>

inductive worker_step ::
  "('sel, 'k, 'q, 's) controller_deps \<Rightarrow> nat \<Rightarrow> ('k, 'q, 's, 'z) crew_scheme \<Rightarrow>
   ('k, 'q, 's, 'z) crew_scheme \<Rightarrow> bool" for D w where
  take: "p_workers p w = Idle \<Longrightarrow> wq_Get (queue D) (p_queue p) = Some (Some i, q) \<Longrightarrow>
    worker_step D w p (p\<lparr>p_ctrl := (p_ctrl p)\<lparr>c_queue := q\<rparr>,
      p_workers := (p_workers p)(w := Took i)\<rparr>)"
| read: "p_workers p w = Took i \<Longrightarrow> fetch D i (p_cache p) = Returns f \<Longrightarrow>
    worker_step D w p (p\<lparr>p_workers := (p_workers p)(w := Fetched i f)\<rparr>)"
| act: "p_workers p w = Fetched i f \<Longrightarrow> apply_fetched D f (p_ctrl p) = (Returns err, c) \<Longrightarrow>
    worker_step D w p (p\<lparr>p_ctrl := c, p_workers := (p_workers p)(w := Applied i err)\<rparr>)"
| finish: "p_workers p w = Applied i err \<Longrightarrow>
    worker_step D w p (p\<lparr>p_ctrl := finish_item D i err (p_ctrl p),
      p_workers := (p_workers p)(w := Idle)\<rparr>)"

text \<open>
  Beside the workers, a back-off period may end, which moves items to those to be processed,
  and other actors change the API server.
\<close>

inductive crew_step ::
  "('sel, 'k, 'q, 's) controller_deps \<Rightarrow> 'q queue_view \<Rightarrow> ('s \<Rightarrow> 's \<Rightarrow> bool) \<Rightarrow>
   ('k, 'q, 's, 'z) crew_scheme \<Rightarrow> ('k, 'q, 's, 'z) crew_scheme \<Rightarrow> bool" for D v api where
  work: "worker_step D w p p' \<Longrightarrow> crew_step D v api p p'"
| backoff: "pend v q \<union> waits v q = pend v (p_queue p) \<union> waits v (p_queue p) \<Longrightarrow>
    pend v (p_queue p) \<subseteq> pend v q \<Longrightarrow>
    busy v q = busy v (p_queue p) \<Longrightarrow> shut v q = shut v (p_queue p) \<Longrightarrow>
    crew_step D v api p (p\<lparr>p_ctrl := (p_ctrl p)\<lparr>c_queue := q\<rparr>\<rparr>)"
| others: "api (p_resolver p) s \<Longrightarrow>
    crew_step D v api p (p\<lparr>p_ctrl := (p_ctrl p)\<lparr>c_resolver := s\<rparr>\<rparr>)"

text \<open>
  A change of the cache is followed by a notification for every policy that appears in it or
  disappears, and possibly for other objects. Several notifications may be of the same object.
\<close>

inductive pool_step ::
  "('sel, 'k, 'q, 's) controller_deps \<Rightarrow> 'q queue_view \<Rightarrow> ('s \<Rightarrow> 's \<Rightarrow> bool) \<Rightarrow>
   ('k, 'q, 's) pool \<Rightarrow> ('k, 'q, 's) pool \<Rightarrow> bool" for D v api where
  crew: "crew_step D v api p p' \<Longrightarrow> pool_step D v api p p'"
| informer: "(\<And>n. cached_content D k n \<noteq> cached_content D (p_cache p) n \<Longrightarrow> StagedBindingPolicyRef n \<in> N) \<Longrightarrow>
    pool_step D v api p (p\<lparr>p_ctrl := (p_ctrl p)\<lparr>c_cache := k\<rparr>, p_notes := p_notes p \<union> N\<rparr>)"
| handler: "i \<in> p_notes p \<Longrightarrow> p_notes p - {i} \<subseteq> N \<Longrightarrow> N \<subseteq> p_notes p \<Longrightarrow>
    pool_step D v api p (p\<lparr>p_ctrl := on_queue (wq_Add (queue D) i) (p_ctrl p), p_notes := N\<rparr>)"

lemmas pool_take = worker_step.take [THEN crew_step.work, THEN pool_step.crew]
lemmas pool_read = worker_step.read [THEN crew_step.work, THEN pool_step.crew]
lemmas pool_act = worker_step.act [THEN crew_step.work, THEN pool_step.crew]
lemmas pool_finish = worker_step.finish [THEN crew_step.work, THEN pool_step.crew]

text \<open>At the start nothing is tracked, cached, queued or under way.\<close>

definition pool_init ::
  "('sel, 'k, 'q, 's) controller_deps \<Rightarrow> 'q queue_view \<Rightarrow> ('s \<Rightarrow> bool) \<Rightarrow> ('k, 'q, 's) pool \<Rightarrow> bool"
  where
  "pool_init D v sinit p \<longleftrightarrow>
     sinit (p_resolver p) \<and> (\<forall>n. \<not> cached D (p_cache p) n) \<and> p_workers p = (\<lambda>w. Idle) \<and>
     p_notes p = {} \<and> pend v (p_queue p) = {} \<and> busy v (p_queue p) = {} \<and>
     waits v (p_queue p) = {} \<and> \<not> shut v (p_queue p)"

section \<open>The invariant\<close>

fun item_of :: "phase \<Rightarrow> work_item option" where
  "item_of Idle = None"
| "item_of (Took i) = Some i"
| "item_of (Fetched i f) = Some i"
| "item_of (Applied i err) = Some i"

text \<open>The busy items are those the workers have, and no two workers have the same one.\<close>

definition sole_holders :: "(nat \<Rightarrow> work_item option) \<Rightarrow> work_item set \<Rightarrow> bool" where
  "sole_holders held B \<longleftrightarrow>
     (\<forall>i. i \<in> B \<longleftrightarrow> (\<exists>w. held w = Some i)) \<and>
     (\<forall>w w' i. held w = Some i \<longrightarrow> held w' = Some i \<longrightarrow> w = w')"

definition exclusive :: "'q queue_view \<Rightarrow> ('k, 'q, 's, 'z) crew_scheme \<Rightarrow> bool" where
  "exclusive v p \<longleftrightarrow> sole_holders (\<lambda>w. item_of (p_workers p w)) (busy v (p_queue p))"

lemma sole_holders_take:
  assumes "sole_holders held B" "held w = None" "i \<notin> B"
  shows "sole_holders (held(w := Some i)) (insert i B)"
proof -
  have "j \<in> insert i B \<longleftrightarrow> (\<exists>x. (held(w := Some i)) x = Some j)" for j
  proof (cases "j = i")
    case True
    have "(held(w := Some i)) w = Some i" by simp
    with True show ?thesis by blast
  next
    case False
    with assms(1,2) show ?thesis unfolding sole_holders_def
      by (metis fun_upd_apply insert_iff option.distinct(1) option.inject)
  qed
  moreover have "held x \<noteq> Some i" for x using assms(1,3) unfolding sole_holders_def by blast
  ultimately show ?thesis using assms(1) by (auto simp: sole_holders_def split: if_splits)
qed

lemma sole_holders_give:
  assumes "sole_holders held B" "held w = Some i"
  shows "sole_holders (held(w := None)) (B - {i})"
proof -
  have "j \<in> B - {i} \<longleftrightarrow> (\<exists>x. (held(w := None)) x = Some j)" for j
    using assms unfolding sole_holders_def
    by (metis DiffE DiffI fun_upd_apply insertCI option.distinct(1) option.inject singletonD)
  with assms(1) show ?thesis by (auto simp: sole_holders_def split: if_splits)
qed

lemma held_update:
  "(\<lambda>x. item_of ((ws(w := ph)) x)) = (\<lambda>x. item_of (ws x))(w := item_of ph)"
  by (simp add: fun_eq_iff)

lemma exclusive_same:
  assumes "exclusive v p" "item_of ph = item_of (p_workers p w)"
    and "p_workers p' = (p_workers p)(w := ph)" "busy v (p_queue p') = busy v (p_queue p)"
  shows "exclusive v p'"
  unfolding exclusive_def assms(3,4) held_update assms(2)
  using assms(1) by (simp only: exclusive_def fun_upd_idem)

lemma exclusive_take:
  assumes "exclusive v p" "item_of (p_workers p w) = None" "i \<notin> busy v (p_queue p)"
    and "p_workers p' = (p_workers p)(w := ph)" "item_of ph = Some i"
    and "busy v (p_queue p') = insert i (busy v (p_queue p))"
  shows "exclusive v p'"
  unfolding exclusive_def assms(4,6) held_update assms(5)
  by (rule sole_holders_take) (use assms(1-3) in \<open>simp_all add: exclusive_def\<close>)

lemma exclusive_give:
  assumes "exclusive v p" "item_of (p_workers p w) = Some i"
    and "p_workers p' = (p_workers p)(w := ph)" "item_of ph = None"
    and "busy v (p_queue p') = busy v (p_queue p) - {i}"
  shows "exclusive v p'"
  unfolding exclusive_def assms(3,5) held_update assms(4)
  by (rule sole_holders_give) (use assms(1,2) in \<open>simp_all add: exclusive_def\<close>)

text \<open>An item that will be taken again whatever the workers do.\<close>

definition due :: "'q queue_view \<Rightarrow> ('k, 'q, 's) pool \<Rightarrow> work_item \<Rightarrow> bool" where
  "due v p i \<longleftrightarrow> i \<in> pend v (p_queue p) \<union> waits v (p_queue p) \<union> p_notes p"

text \<open>
  A worker that is about to bring the resolver in line with the cache for a policy, or to put
  its reference back.
\<close>

fun will_settle :: "content option \<Rightarrow> string \<Rightarrow> phase \<Rightarrow> bool" where
  "will_settle now n Idle = False"
| "will_settle now n (Took i) = (i = StagedBindingPolicyRef n)"
| "will_settle now n (Fetched i f) =
     (i = StagedBindingPolicyRef n \<and>
      (case f of
          FetchedPolicy sbp \<Rightarrow> now = Some (policy_content sbp)
        | MissingPolicy m \<Rightarrow> now = None
        | Failed e \<Rightarrow> True
        | _ \<Rightarrow> False))"
| "will_settle now n (Applied i err) = (i = StagedBindingPolicyRef n \<and> err \<noteq> None)"

text \<open>What a worker read is about its item.\<close>

fun fetched_for :: "phase \<Rightarrow> bool" where
  "fetched_for (Fetched i f) =
     (case f of
        FetchedPolicy sbp \<Rightarrow> i = StagedBindingPolicyRef (sbp_name sbp)
      | MissingPolicy n \<Rightarrow> i = StagedBindingPolicyRef n
      | Failed e \<Rightarrow> True
      | _ \<Rightarrow> \<forall>n. i \<noteq> StagedBindingPolicyRef n)"
| "fetched_for _ = True"

text \<open>
  A stale read (one that the cache contradicts by now) is of a policy whose reference is due.
\<close>

fun stale :: "(string \<rightharpoonup> content) \<Rightarrow> string \<Rightarrow> phase \<Rightarrow> bool" where
  "stale now n (Fetched i (FetchedPolicy sbp)) = 
     (i = StagedBindingPolicyRef n \<and> now n \<noteq> Some (policy_content sbp))"
| "stale now n (Fetched i (MissingPolicy m)) = 
     (i = StagedBindingPolicyRef n \<and> now n \<noteq> None)"
| "stale now n _ = False"

definition consistent ::
  "('sel, 'k, 'q, 's) controller_deps \<Rightarrow> 'q queue_view \<Rightarrow> ('s \<Rightarrow> string \<rightharpoonup> content) \<Rightarrow>
   ('k, 'q, 's) pool \<Rightarrow> bool" where
  "consistent D v contents p \<longleftrightarrow>
     \<not> shut v (p_queue p) \<and> exclusive v p \<and>
     (\<forall>w. fetched_for (p_workers p w)) \<and>
     (\<forall>w n. stale (cached_content D (p_cache p)) n (p_workers p w) \<longrightarrow> due v p (StagedBindingPolicyRef n)) \<and>
     (\<forall>n. contents (p_resolver p) n \<noteq> cached_content D (p_cache p) n \<longrightarrow>
        due v p (StagedBindingPolicyRef n) \<or>
        (\<exists>w. will_settle (cached_content D (p_cache p) n) n (p_workers p w)))"

text \<open>Nothing is left to do.\<close>

definition quiescent :: "'q queue_view \<Rightarrow> ('k, 'q, 's) pool \<Rightarrow> bool" where
  "quiescent v p \<longleftrightarrow> p_workers p = (\<lambda>w. Idle) \<and> p_notes p = {} \<and>
     pend v (p_queue p) = {} \<and> waits v (p_queue p) = {}"

lemma consistent_quiescent:
  assumes "consistent D v contents p" "quiescent v p"
  shows "contents (p_resolver p) n = cached_content D (p_cache p) n"
proof (rule ccontr)
  assume "\<not> ?thesis"
  with assms(1) have "due v p (StagedBindingPolicyRef n) \<or>
      (\<exists>w. will_settle (cached_content D (p_cache p) n) n (p_workers p w))"
    unfolding consistent_def by blast
  with assms(2) show False by (simp add: quiescent_def due_def)
qed

section \<open>What the laws give for one fetch\<close>

text \<open>
  The index of policies holds only policies, under their names; a missing one is reported
  by \<open>NewNotFound\<close>, which alone \<open>IsNotFound\<close> recognises among the errors of the index.
\<close>

definition index_lawful :: "('sel, 'k, 'q, 's) controller_deps \<Rightarrow> bool" where
  "index_lawful D \<longleftrightarrow> typed_indexer (l_indexer (sbpLister D)) \<and>
     (\<forall>gr n. api_IsNotFound D (api_NewNotFound D gr n)) \<and>
     (\<forall>n k e. snd (snd (idx_GetByKey (l_indexer (sbpLister D)) n k)) = Some e \<longrightarrow>
        \<not> api_IsNotFound D e)"

lemma fetch_policy:
  assumes laws: "index_lawful D" and f: "fetch D (StagedBindingPolicyRef n) k = Returns f"
  shows "(\<exists>sbp. f = FetchedPolicy sbp \<and> sbp_name sbp = n \<and>
      cached_content D k n = Some (policy_content sbp)) \<or>
    (f = MissingPolicy n \<and> cached_content D k n = None) \<or> (\<exists>e. f = Failed e)"
proof -
  obtain obj ex err where g: "idx_GetByKey (l_indexer (sbpLister D)) n k = (obj, ex, err)"
    by (cases "idx_GetByKey (l_indexer (sbpLister D)) n k") blast
  show ?thesis
  proof (cases err)
    case (Some e)
    with g laws have "\<not> api_IsNotFound D e" unfolding index_lawful_def by (metis snd_conv)
    with g Some f show ?thesis by (auto simp: fetch_def lister_Get_def)
  next
    case None
    show ?thesis
    proof (cases ex)
      case False
      have "api_IsNotFound D (api_NewNotFound D (Resource ''stagedbindingpolicy'') n)"
        using laws unfolding index_lawful_def by blast
      with g None False f show ?thesis
        by (simp add: fetch_def lister_Get_def cached_content_def)
    next
      case True
      with g have "idx_GetByKey (l_indexer (sbpLister D)) n k = (obj, True, err)" by simp
      with laws obtain sbp where "obj = SBPObject sbp" "sbp_name sbp = n"
        unfolding index_lawful_def typed_indexer_def by blast
      with g None True f show ?thesis
        by (auto simp: fetch_def lister_Get_def cached_content_def)
    qed
  qed
qed

lemma fetch_other:
  assumes "fetch D i k = Returns f" "\<And>n. i \<noteq> StagedBindingPolicyRef n"
  shows "(\<forall>sbp. f \<noteq> FetchedPolicy sbp) \<and> (\<forall>n. f \<noteq> MissingPolicy n)"
  using assms by (cases i) (auto simp: fetch_def split: sum.splits if_splits)

lemma fetch_fetched_for:
  assumes "index_lawful D" "fetch D i k = Returns f"
  shows "fetched_for (Fetched i f)"
proof (cases "\<exists>n. i = StagedBindingPolicyRef n")
  case True
  with assms fetch_policy [OF assms(1)] show ?thesis by fastforce
next
  case False
  with fetch_other [OF assms(2)] show ?thesis by (auto split: fetched.split)
qed

section \<open>The invariant is kept\<close>

lemma consistentI:
  assumes "\<not> shut v (p_queue p)" and "exclusive v p" and "\<And>w. fetched_for (p_workers p w)"
    and "\<And>w n. stale (cached_content D (p_cache p)) n (p_workers p w) \<Longrightarrow>
      due v p (StagedBindingPolicyRef n)"
    and "\<And>n. contents (p_resolver p) n \<noteq> cached_content D (p_cache p) n \<Longrightarrow>
      \<not> due v p (StagedBindingPolicyRef n) \<Longrightarrow>
      \<exists>w. will_settle (cached_content D (p_cache p) n) n (p_workers p w)"
  shows "consistent D v contents p"
  using assms unfolding consistent_def by blast

lemma consistentD:
  assumes "consistent D v contents p"
  shows "\<not> shut v (p_queue p)" "exclusive v p" "fetched_for (p_workers p w)"
    "stale (cached_content D (p_cache p)) n (p_workers p w) \<Longrightarrow> due v p (StagedBindingPolicyRef n)"
    "contents (p_resolver p) n \<noteq> cached_content D (p_cache p) n \<Longrightarrow>
      \<not> due v p (StagedBindingPolicyRef n) \<Longrightarrow>
      \<exists>w. will_settle (cached_content D (p_cache p) n) n (p_workers p w)"
  using assms unfolding consistent_def by blast+

lemma exclusiveD:
  assumes "exclusive v p" "item_of (p_workers p w) = Some i"
  shows "i \<in> busy v (p_queue p)" "item_of (p_workers p w') = Some i \<Longrightarrow> w' = w"
  using assms unfolding exclusive_def sole_holders_def by blast+

lemma stale_item: "stale now n ph \<Longrightarrow> item_of ph = Some (StagedBindingPolicyRef n)"
  by (cases "(now, n, ph)" rule: stale.cases) auto

lemma will_settle_item: "will_settle now n ph \<Longrightarrow> item_of ph = Some (StagedBindingPolicyRef n)"
  by (cases ph) auto

lemma consistent_take:
  assumes Q: "queue_lawful (queue D) v" and c: "consistent D v contents p"
    and w: "p_workers p w = Idle" and g: "wq_Get (queue D) (p_queue p) = Some (Some i, q)"
  shows "consistent D v contents (p\<lparr>p_ctrl := (p_ctrl p)\<lparr>c_queue := q\<rparr>,
      p_workers := (p_workers p)(w := Took i)\<rparr>)" (is "consistent D v contents ?p")
proof (rule consistentI)
  note views = Get_item [OF Q g]
  have due: "due v ?p j \<longleftrightarrow> due v p j" if "j \<noteq> i" for j
    using that views by (auto simp: due_def)
  have other: "p_workers ?p w' = p_workers p w'" if "w' \<noteq> w" for w' using that by simp
  show "\<not> shut v (p_queue ?p)" using consistentD(1) [OF c] views by simp
  show "exclusive v ?p"
    by (rule exclusive_take [OF consistentD(2) [OF c], of w i _ "Took i"]) (simp_all add: w views)
  show "fetched_for (p_workers ?p w')" for w' using consistentD(3) [OF c] by simp
  show "due v ?p (StagedBindingPolicyRef n)"
    if st: "stale (cached_content D (p_cache ?p)) n (p_workers ?p w')" for w' n
  proof -
    from st have ne: "w' \<noteq> w" by auto
    then have st': "stale (cached_content D (p_cache p)) n (p_workers p w')" using st by simp
    then have "StagedBindingPolicyRef n \<noteq> i"
      using stale_item exclusiveD(1) [OF consistentD(2) [OF c]] views(2) by blast
    with due consistentD(4) [OF c st'] show ?thesis by blast
  qed
  show "\<exists>w'. will_settle (cached_content D (p_cache ?p) n) n (p_workers ?p w')"
    if m: "contents (p_resolver ?p) n \<noteq> cached_content D (p_cache ?p) n"
      and nd: "\<not> due v ?p (StagedBindingPolicyRef n)" for n
  proof (cases "i = StagedBindingPolicyRef n")
    case True
    then show ?thesis by (intro exI [of _ w]) simp
  next
    case False
    with due [of "StagedBindingPolicyRef n"] nd
    have "\<not> due v p (StagedBindingPolicyRef n)" by simp
    with consistentD(5) [OF c, of n] m obtain w' where
      w': "will_settle (cached_content D (p_cache p) n) n (p_workers p w')" by auto
    with w have "w' \<noteq> w" by auto
    with w' show ?thesis by (intro exI [of _ w']) simp
  qed
qed

lemma consistent_read:
  assumes I: "index_lawful D" and c: "consistent D v contents p"
    and w: "p_workers p w = Took i" and f: "fetch D i (p_cache p) = Returns f"
  shows "consistent D v contents (p\<lparr>p_workers := (p_workers p)(w := Fetched i f)\<rparr>)"
    (is "consistent D v contents ?p")
proof (rule consistentI)
  have due: "due v ?p j \<longleftrightarrow> due v p j" for j by (simp add: due_def)
  have fresh: "\<not> stale (cached_content D (p_cache p)) n (Fetched i f)" for n
    using fetch_policy [OF I, of n "p_cache p" f] f
    by (cases "i = StagedBindingPolicyRef n") (auto dest: stale_item)
  have settle: "will_settle (cached_content D (p_cache p) n) n (Fetched i f)"
    if "will_settle (cached_content D (p_cache p) n) n (p_workers p w)" for n
    using fetch_policy [OF I, of n "p_cache p" f] f w that by auto
  show "\<not> shut v (p_queue ?p)" using consistentD(1) [OF c] by simp
  show "exclusive v ?p"
    by (rule exclusive_same [OF consistentD(2) [OF c], of "Fetched i f" w]) (auto simp: w)
  show "fetched_for (p_workers ?p w')" for w'
    using consistentD(3) [OF c, of w'] fetch_fetched_for [OF I f] by simp
  show "due v ?p (StagedBindingPolicyRef n)"
    if "stale (cached_content D (p_cache ?p)) n (p_workers ?p w')" for w' n
    using that fresh consistentD(4) [OF c, of n w'] due by (cases "w' = w") auto
  show "\<exists>w'. will_settle (cached_content D (p_cache ?p) n) n (p_workers ?p w')"
    if m: "contents (p_resolver ?p) n \<noteq> cached_content D (p_cache ?p) n"
      and nd: "\<not> due v ?p (StagedBindingPolicyRef n)" for n
  proof -
    from consistentD(5) [OF c, of n] m nd due obtain w' where
      w': "will_settle (cached_content D (p_cache p) n) n (p_workers p w')" by auto
    show ?thesis
    proof (cases "w' = w")
      case True
      with settle w' show ?thesis by (intro exI [of _ w]) simp
    next
      case False
      with w' show ?thesis by (intro exI [of _ w']) simp
    qed
  qed
qed

lemma consistent_informer:
  assumes c: "consistent D v contents p"
    and k: "\<And>n. cached_content D k n \<noteq> cached_content D (p_cache p) n \<Longrightarrow> StagedBindingPolicyRef n \<in> N"
  shows "consistent D v contents
    (p\<lparr>p_ctrl := (p_ctrl p)\<lparr>c_cache := k\<rparr>, p_notes := p_notes p \<union> N\<rparr>)"
    (is "consistent D v contents ?p")
proof (rule consistentI)
  have due: "due v p j \<Longrightarrow> due v ?p j" for j by (auto simp: due_def)
  have new: "due v ?p (StagedBindingPolicyRef n)" if "cached_content D k n \<noteq> cached_content D (p_cache p) n" for n
    using k [OF that] by (simp add: due_def)
  show "\<not> shut v (p_queue ?p)" using consistentD(1) [OF c] by simp
  show "exclusive v ?p" using consistentD(2) [OF c] by (simp add: exclusive_def)
  show "fetched_for (p_workers ?p w')" for w' using consistentD(3) [OF c] by simp
  show "due v ?p (StagedBindingPolicyRef n)"
    if st: "stale (cached_content D (p_cache ?p)) n (p_workers ?p w')" for w' n
  proof (cases "cached_content D k n = cached_content D (p_cache p) n")
    case True
    with st have "stale (cached_content D (p_cache p)) n (p_workers p w')"
      by (cases "(cached_content D k, n, p_workers p w')" rule: stale.cases) auto
    with due consistentD(4) [OF c] show ?thesis by blast
  next
    case False
    with new show ?thesis by blast
  qed
  show "\<exists>w'. will_settle (cached_content D (p_cache ?p) n) n (p_workers ?p w')"
    if m: "contents (p_resolver ?p) n \<noteq> cached_content D (p_cache ?p) n"
      and nd: "\<not> due v ?p (StagedBindingPolicyRef n)" for n
  proof -
    from nd new have eq: "cached_content D k n = cached_content D (p_cache p) n" by blast
    from nd due have "\<not> due v p (StagedBindingPolicyRef n)" by blast
    with consistentD(5) [OF c, of n] m eq show ?thesis by simp
  qed
qed

text \<open>Steps that change the queue only, and lose nothing that is due.\<close>

lemma consistent_queue:
  assumes c: "consistent D v contents p"
    and same: "p_cache p' = p_cache p" "p_workers p' = p_workers p"
      "contents (p_resolver p') = contents (p_resolver p)"
    and q: "\<not> shut v (p_queue p')" "busy v (p_queue p') = busy v (p_queue p)"
    and due: "\<And>j. due v p j \<Longrightarrow> due v p' j"
  shows "consistent D v contents p'"
proof (rule consistentI)
  show "exclusive v p'" using consistentD(2) [OF c] same q(2) by (simp add: exclusive_def)
  show "fetched_for (p_workers p' w')" for w' using consistentD(3) [OF c] same by simp
  show "due v p' (StagedBindingPolicyRef n)"
    if "stale (cached_content D (p_cache p')) n (p_workers p' w')" for w' n
    using that same due consistentD(4) [OF c] by simp
  show "\<exists>w'. will_settle (cached_content D (p_cache p') n) n (p_workers p' w')"
    if "contents (p_resolver p') n \<noteq> cached_content D (p_cache p') n"
      and "\<not> due v p' (StagedBindingPolicyRef n)" for n
    using that same due consistentD(5) [OF c, of n] by auto
qed (rule q(1))

lemma consistent_finish:
  assumes Q: "queue_lawful (queue D) v" and c: "consistent D v contents p"
    and w: "p_workers p w = Applied i err"
  shows "consistent D v contents (p\<lparr>p_ctrl := finish_item D i err (p_ctrl p),
      p_workers := (p_workers p)(w := Idle)\<rparr>)" (is "consistent D v contents ?p")
proof (rule consistentI)
  note D = Done_views [OF Q] and F = Forget_views [OF Q] and A = AddRateLimited_views [OF Q]
  have due: "due v p j \<Longrightarrow> due v ?p j" for j
    using consistentD(1) [OF c] A(3) [of i "p_queue p"]
    by (cases err) (auto simp: due_def finish_item_def D F)
  have retried: "due v ?p i" if "err \<noteq> None"
    using that consistentD(1) [OF c] A(3) [of i "p_queue p"]
    by (cases err) (auto simp: due_def finish_item_def D F)
  show "\<not> shut v (p_queue ?p)"
    using consistentD(1) [OF c] by (cases err) (simp_all add: finish_item_def D F A)
  show "exclusive v ?p"
    by (rule exclusive_give [OF consistentD(2) [OF c], of w i _ Idle])
       (cases err; simp add: w finish_item_def D F A)+
  show "fetched_for (p_workers ?p w')" for w' using consistentD(3) [OF c] by simp
  have cache: "p_cache ?p = p_cache p" "p_resolver ?p = p_resolver p"
    by (simp_all add: finish_item_def)
  show "due v ?p (StagedBindingPolicyRef n)"
    if "stale (cached_content D (p_cache ?p)) n (p_workers ?p w')" for w' n
    using that due consistentD(4) [OF c, of n w'] unfolding cache by (cases "w' = w") auto
  show "\<exists>w'. will_settle (cached_content D (p_cache ?p) n) n (p_workers ?p w')"
    if m: "contents (p_resolver ?p) n \<noteq> cached_content D (p_cache ?p) n"
      and nd: "\<not> due v ?p (StagedBindingPolicyRef n)" for n
  proof -
    from nd due have "\<not> due v p (StagedBindingPolicyRef n)" by blast
    with consistentD(5) [OF c, of n] m cache obtain w' where
      w': "will_settle (cached_content D (p_cache p) n) n (p_workers p w')" by auto
    with w retried nd have "w' \<noteq> w" by auto
    with w' show ?thesis unfolding cache by (intro exI [of _ w']) simp
  qed
qed

context resolver_contract
begin

lemma contents_after_settles:
  assumes "fetched_for (Fetched i f)" "i = StagedBindingPolicyRef n"
    and "contents_after f A n \<noteq> now n"
  shows "stale now n (Fetched i f) \<or> (\<exists>e. f = Failed e)"
  using assms by (cases f) auto

lemma contents_after_other:
  assumes "fetched_for (Fetched i f)" "i \<noteq> StagedBindingPolicyRef n"
  shows "contents_after f A n = A n"
  using assms by (cases f) auto

lemma consistent_act:
  assumes R: "the_resolver D = R" and c: "consistent D v contents p"
    and w: "p_workers p w = Fetched i f"
    and ap: "apply_fetched D f (p_ctrl p) = (Returns err, ctrl)"
  shows "consistent D v contents
    (p\<lparr>p_ctrl := ctrl, p_workers := (p_workers p)(w := Applied i err)\<rparr>)"
    (is "consistent D v contents ?p")
proof (rule consistentI)
  have frame: "c_cache ctrl = p_cache p" "c_queue ctrl = p_queue p"
    using apply_fetched_frame [of D f "p_ctrl p"] ap by simp_all
  have pol: "contents (c_resolver ctrl) = contents_after f (contents (p_resolver p))"
    by (rule apply_contents [OF R ap])
  have ff: "fetched_for (Fetched i f)" using consistentD(3) [OF c, of w] w by simp
  have due: "due v ?p j \<longleftrightarrow> due v p j" for j by (simp add: due_def frame)
  show "\<not> shut v (p_queue ?p)" using consistentD(1) [OF c] frame by simp
  show "exclusive v ?p"
    by (rule exclusive_same [OF consistentD(2) [OF c], of "Applied i err" w])
       (simp_all add: w frame)
  show "fetched_for (p_workers ?p w')" for w' using consistentD(3) [OF c] by simp
  show "due v ?p (StagedBindingPolicyRef n)"
    if "stale (cached_content D (p_cache ?p)) n (p_workers ?p w')" for w' n
    using that frame due consistentD(4) [OF c, of n w'] by (cases "w' = w") auto
  show "\<exists>w'. will_settle (cached_content D (p_cache ?p) n) n (p_workers ?p w')"
    if m: "contents (p_resolver ?p) n \<noteq> cached_content D (p_cache ?p) n"
      and nd: "\<not> due v ?p (StagedBindingPolicyRef n)" for n
  proof (cases "i = StagedBindingPolicyRef n")
    case True
    from m frame pol have "contents_after f (contents (p_resolver p)) n \<noteq>
        cached_content D (p_cache p) n" by simp
    from contents_after_settles [OF ff True, of _ "cached_content D (p_cache p)", OF this]
      consistentD(4) [OF c, of n w] nd due w obtain e where e: "f = Failed e" by auto
    with ap have "err \<noteq> None" by (auto simp: apply_fetched_def)
    with True show ?thesis by (intro exI [of _ w]) simp
  next
    case False
    from m frame pol contents_after_other [OF ff False]
    have "contents (p_resolver p) n \<noteq> cached_content D (p_cache p) n" by simp
    with consistentD(5) [OF c] nd due obtain w' where
      w': "will_settle (cached_content D (p_cache p) n) n (p_workers p w')" by blast
    with w False have "w' \<noteq> w" by auto
    with w' frame show ?thesis by (intro exI [of _ w']) simp
  qed
qed

text \<open>Every step keeps the invariant; other actors touch neither the names nor the map.\<close>

lemma worker_step_consistent:
  assumes "the_resolver D = R" "queue_lawful (queue D) v" "index_lawful D"
    and step: "worker_step D w p p'" and c: "consistent D v contents p"
  shows "consistent D v contents p'"
  using step
proof cases
  case (take i q)
  show ?thesis unfolding take(1) by (rule consistent_take [OF assms(2) c take(2,3)])
next
  case (read i f)
  show ?thesis unfolding read(1) by (rule consistent_read [OF assms(3) c read(2,3)])
next
  case (act i f err ctrl)
  show ?thesis unfolding act(1) by (rule consistent_act [OF assms(1) c act(2,3)])
next
  case (finish i err)
  show ?thesis unfolding finish(1) by (rule consistent_finish [OF assms(2) c finish(2)])
qed

lemma crew_step_consistent:
  assumes "the_resolver D = R" "queue_lawful (queue D) v" "index_lawful D"
    and api: "\<And>s s'. api s s' \<Longrightarrow> contents s' = contents s"
    and step: "crew_step D v api p p'" and c: "consistent D v contents p"
  shows "consistent D v contents p'"
  using step
proof cases
  case (work w)
  show ?thesis by (rule worker_step_consistent [OF assms(1-3) work c])
next
  case (backoff q)
  show ?thesis unfolding backoff(1)
    by (rule consistent_queue [OF c])
       (use consistentD(1) [OF c] backoff in \<open>auto simp: due_def\<close>)
next
  case (others s)
  show ?thesis unfolding others(1)
    by (rule consistent_queue [OF c])
       (use consistentD(1) [OF c] api [OF others(2)] in \<open>auto simp: due_def\<close>)
qed

lemma pool_step_consistent:
  assumes "the_resolver D = R" "queue_lawful (queue D) v" "index_lawful D"
    and api: "\<And>s s'. api s s' \<Longrightarrow> contents s' = contents s"
    and step: "pool_step D v api p p'" and c: "consistent D v contents p"
  shows "consistent D v contents p'"
  using step
proof cases
  case crew
  show ?thesis by (rule crew_step_consistent [OF assms(1-3) api crew c])
next
  case (informer k N)
  show ?thesis unfolding informer(1) by (rule consistent_informer [OF c informer(2)])
next
  case (handler i N)
  show ?thesis unfolding handler(1)
    by (rule consistent_queue [OF c])
       (use consistentD(1) [OF c] handler in \<open>auto simp: Add_views [OF assms(2)] due_def\<close>)
qed

lemma worker_step_inv:
  assumes "the_resolver D = R" and "worker_step D w p p'" and "inv (p_resolver p)"
  shows "inv (p_resolver p')"
  using assms(2)
proof cases
  case (act i f err ctrl)
  with apply_inv [OF assms(1,3)] show ?thesis by simp
qed (use assms(3) in \<open>simp_all add: finish_item_def\<close>)

lemma pool_step_inv:
  assumes "the_resolver D = R" and api: "\<And>s s'. api s s' \<Longrightarrow> inv s \<Longrightarrow> inv s'"
    and step: "pool_step D v api p p'" and "inv (p_resolver p)"
  shows "inv (p_resolver p')"
  using step
proof cases
  case crew
  then show ?thesis
  proof cases
    case (work w)
    from worker_step_inv [OF assms(1) work assms(4)] show ?thesis .
  next
    case (others s)
    with api assms(4) show ?thesis by simp
  qed (use assms(4) in simp)
qed (use assms(4) in simp_all)

lemma pool_init_consistent:
  assumes "pool_init D v sinit p" "sinit (p_resolver p) \<Longrightarrow> contents (p_resolver p) = Map.empty"
  shows "consistent D v contents p"
proof -
  have "cached_content D (p_cache p) = Map.empty"
    using assms(1) unfolding pool_init_def cached_def by blast
  with assms show ?thesis
    by (intro consistentI) (simp_all add: pool_init_def exclusive_def sole_holders_def)
qed

end

section \<open>The controller over its own resolver\<close>

definition controller_lawful ::
  "('ast, 'prog, 'w) clients \<Rightarrow> ('sel, 'k, 'q, 'w resolver) controller_deps \<Rightarrow> 'q queue_view \<Rightarrow>
   bool" where
  "controller_lawful c D v \<longleftrightarrow>
     the_resolver D = NewResolver c \<and> queue_lawful (queue D) v \<and> index_lawful D"

text \<open>Other actors change the world, not the resolver's map.\<close>

definition api_change :: "'w resolver \<Rightarrow> 'w resolver \<Rightarrow> bool" where
  "api_change r s \<longleftrightarrow> stagedBindingPolicies s = stagedBindingPolicies r"

definition fresh_resolver :: "'w resolver \<Rightarrow> bool" where
  "fresh_resolver r \<longleftrightarrow> r = new_resolver (world r)"

lemma pool_consistent_step:
  assumes "controller_lawful c D v" "pool_step D v api_change p p'"
    and "consistent D v tracked_contents p" "tracked_ok (p_resolver p)"
  shows "consistent D v tracked_contents p' \<and> tracked_ok (p_resolver p')"
proof
  have R: "the_resolver D = NewResolver c" "queue_lawful (queue D) v" "index_lawful D"
    using assms(1) by (auto simp: controller_lawful_def)
  show "consistent D v tracked_contents p'"
    by (rule sbp_resolver.pool_step_consistent [OF R _ assms(2,3)])
       (simp add: api_change_def tracked_contents_def fun_eq_iff)
  show "tracked_ok (p_resolver p')"
    by (rule sbp_resolver.pool_step_inv [OF R(1) _ assms(2,4)])
       (simp add: api_change_def tracked_ok_def)
qed

lemma pool_init_inv:
  assumes "pool_init D v fresh_resolver p"
  shows "consistent D v tracked_contents p \<and> tracked_ok (p_resolver p)"
proof -
  from assms have "fresh_resolver (p_resolver p)" by (simp add: pool_init_def)
  then have m: "stagedBindingPolicies (p_resolver p) = Map.empty"
    unfolding fresh_resolver_def new_resolver_def by (metis resolver.simps(1))
  then have "tracked_ok (p_resolver p)" "tracked_contents (p_resolver p) = Map.empty"
    by (auto simp: tracked_ok_def tracked_contents_def)
  with sbp_resolver.pool_init_consistent [OF assms] show ?thesis by simp
qed

interpretation worker_pool: invariant_system
  "\<lambda>p. controller_lawful c D v \<and> pool_init D v fresh_resolver p" "pool_step D v api_change"
  "\<lambda>p. controller_lawful c D v \<longrightarrow> consistent D v tracked_contents p \<and> tracked_ok (p_resolver p)"
  by unfold_locales (auto dest: pool_init_inv pool_consistent_step)

text \<open>When nothing is left to do, what is tracked is what is cached.\<close>

lemma pool_settles:
  assumes "controller_lawful c D v" and "pool_init D v fresh_resolver p0"
    and "(pool_step D v api_change)\<^sup>*\<^sup>* p0 p" and "quiescent v p"
  shows "tracked_contents (p_resolver p) = cached_content D (p_cache p)"
proof -
  have "consistent D v tracked_contents p"
    using worker_pool.reachable_inv [OF _ assms(3), of c] assms(1,2) by blast
  with consistent_quiescent [OF _ assms(4)] show ?thesis by blast
qed

end
