(* ===== verification/Worker_Loop.thy ===== *)
theory Worker_Loop
  imports Worker_Pool
begin

text \<open>
  One worker on its own: what becomes of the item it takes, that its loop ends when the queue
  shuts down, and that its turns are steps of the crew of \<open>Worker_Pool\<close>.
\<close>

section \<open>One item\<close>

lemma reconcileItem_queue:
  assumes "reconcileItem D i st = (out, st')"
  shows "(\<exists>e. fst (reconcile D i st) = Returns (Some e) \<and>
        c_queue st' = wq_AddRateLimited (queue D) i (c_queue st)) \<or>
    (fst (reconcile D i st) = Returns None \<and> c_queue st' = wq_Forget (queue D) i (c_queue st)) \<or>
    (\<exists>p. fst (reconcile D i st) = Panics p \<and> out = Panics p \<and> c_queue st' = c_queue st)"
proof -
  obtain res s where r: "reconcile D i st = (res, s)" by fastforce
  then have q: "c_queue s = c_queue st" using reconcile_frame(2) [of D i st] by simp
  show ?thesis
  proof (cases res)
    case (Returns err)
    with r assms q show ?thesis by (cases err) (auto simp: reconcileItem_def)
  next
    case (Panics p)
    with r assms q show ?thesis by (auto simp: reconcileItem_def)
  qed
qed

lemma reconcileItem_outcome:
  "fst (reconcileItem D i st) =
   (case fst (reconcile D i st) of
      Panics p \<Rightarrow> Panics p
    | Returns err \<Rightarrow> Returns (map_option (Errorf ''error reconciling object'') err))"
  by (cases "reconcile D i st"; cases "fst (reconcile D i st)")
     (auto simp: reconcileItem_def split: option.splits)

lemma reconcileItem_resolver:
  "c_resolver (snd (reconcileItem D i st)) = c_resolver (snd (reconcile D i st))"
  by (cases "reconcile D i st"; cases "fst (reconcile D i st)")
     (auto simp: reconcileItem_def split: option.splits)

text \<open>What becomes of an item that was taken.\<close>

lemma processNextWorkItem_item:
  assumes Q: "queue_lawful (queue D) v"
    and g: "wq_Get (queue D) (c_queue st) = Some (Some i, q)"
  defines "res \<equiv> reconcile D i (st\<lparr>c_queue := q\<rparr>)"
  obtains out st' where "processNextWorkItem D st = Some (out, st')"
    and "out = (case fst res of Panics p \<Rightarrow> Panics p | Returns _ \<Rightarrow> Returns True)"
    and "c_resolver st' = c_resolver (snd res)"
    and "busy v (c_queue st') = busy v (c_queue st)"
    and "shut v (c_queue st') = shut v (c_queue st)"
    and "pend v (c_queue st') \<union> waits v (c_queue st') =
      (pend v (c_queue st) - {i}) \<union> waits v (c_queue st) \<union>
      (if (\<exists>e. fst res = Returns (Some e)) \<and> \<not> shut v (c_queue st) then {i} else {})"
    and "shut v (c_queue st) \<longrightarrow> pend v (c_queue st') = pend v (c_queue st) - {i}"
proof -
  note G = Get_item [OF Q g] and D = Done_views [OF Q] and F = Forget_views [OF Q]
    and A = AddRateLimited_views [OF Q]
  obtain o1 s1 where ri: "reconcileItem D i (st\<lparr>c_queue := q\<rparr>) = (o1, s1)" by fastforce
  let ?s = "on_queue (wq_Done (queue D) i) s1"
  let ?out = "case fst res of Panics p \<Rightarrow> Panics p | Returns _ \<Rightarrow> Returns True"
  have o1: "o1 = (case fst res of Panics p \<Rightarrow> Panics p
      | Returns err \<Rightarrow> Returns (map_option (Errorf ''error reconciling object'') err))"
    using reconcileItem_outcome [of D i "st\<lparr>c_queue := q\<rparr>"] ri by (simp add: res_def)
  have p: "processNextWorkItem D st = Some (?out, ?s)"
    using g ri o1 by (auto simp: processNextWorkItem_def split: outcome.splits)
  have r: "c_resolver ?s = c_resolver (snd res)"
    using reconcileItem_resolver [of D i "st\<lparr>c_queue := q\<rparr>"] ri by (simp add: res_def)
  have busy: "insert i (busy v (c_queue st)) - {i} = busy v (c_queue st)" using G(2) by blast
  from reconcileItem_queue [OF ri] consider
      (retry) e where "fst res = Returns (Some e)" "c_queue s1 = wq_AddRateLimited (queue D) i q"
    | (forget) "fst res = Returns None" "c_queue s1 = wq_Forget (queue D) i q"
    | (panic) x where "fst res = Panics x" "c_queue s1 = q"
    unfolding res_def by auto
  then show thesis
  proof cases
    case retry
    show thesis
      by (rule that [OF p _ r]) (use retry G busy A [where i = i and q = q] in \<open>auto simp: D\<close>)
  next
    case forget
    show thesis by (rule that [OF p _ r]) (use forget G busy in \<open>simp_all add: D F\<close>)
  next
    case panic
    show thesis by (rule that [OF p _ r]) (use panic G busy in \<open>simp_all add: D\<close>)
  qed
qed

lemma item_outcome:
  assumes "queue_lawful (queue D) v"
    and "wq_Get (queue D) (c_queue st) = Some (Some i, q)"
    and "reconcile D i (st\<lparr>c_queue := q\<rparr>) = (res, st1)"
  shows "\<exists>st'. processNextWorkItem D st =
      Some (case res of Panics p \<Rightarrow> Panics p | Returns _ \<Rightarrow> Returns True, st') \<and>
    c_resolver st' = c_resolver st1 \<and> busy v (c_queue st') = busy v (c_queue st) \<and>
    pend v (c_queue st') \<union> waits v (c_queue st') =
      (pend v (c_queue st) - {i}) \<union> waits v (c_queue st) \<union>
      (if (\<exists>e. res = Returns (Some e)) \<and> \<not> shut v (c_queue st) then {i} else {})"
proof (rule processNextWorkItem_item [OF assms(1,2)], goal_cases)
  case (1 out st')
  then show ?thesis unfolding assms(3) by (intro exI [of _ st']) simp
qed

section \<open>Shutting down\<close>

lemma runWorker_step:
  assumes "processNextWorkItem D st = Some (Returns True, st')"
  shows "runWorker D st = runWorker D st'"
  using assms by (subst runWorker.simps) simp

text \<open>A worker that is alone with a queue that shuts down works off what is on it, and ends.\<close>

lemma runWorker_drains:
  assumes Q: "queue_lawful (queue D) v" and "finite (pend v (c_queue st))"
    and "busy v (c_queue st) = {}" and "shut v (c_queue st)"
  shows "\<exists>out st'. runWorker D st = Some (out, st') \<and>
    (out = Returns () \<longrightarrow> pend v (c_queue st') = {})"
  using assms(2-)
proof (induction "card (pend v (c_queue st))" arbitrary: st rule: less_induct)
  case less
  show ?case
  proof (cases "wq_Get (queue D) (c_queue st)")
    case None
    with Get_blocks [OF Q] less.prems show ?thesis by blast
  next
    case (Some iq)
    then obtain x q where g: "wq_Get (queue D) (c_queue st) = Some (x, q)" by (cases iq) auto
    show ?thesis
    proof (cases x)
      case None
      from Get_shutdown [OF Q g [unfolded None]] less.prems
      have "pend v q = {}" by simp
      moreover have "runWorker D st = Some (Returns (), st\<lparr>c_queue := q\<rparr>)"
        using g None by (subst runWorker.simps) (simp add: processNextWorkItem_def)
      ultimately show ?thesis by simp
    next
      case (Some i)
      note gi = g [unfolded Some]
      obtain out st' where p: "processNextWorkItem D st = Some (out, st')"
        and out: "out = (case fst (reconcile D i (st\<lparr>c_queue := q\<rparr>)) of
            Panics p \<Rightarrow> Panics p | Returns _ \<Rightarrow> Returns True)"
        and b: "busy v (c_queue st') = busy v (c_queue st)"
        and s: "shut v (c_queue st') = shut v (c_queue st)"
        and pn: "shut v (c_queue st) \<longrightarrow> pend v (c_queue st') = pend v (c_queue st) - {i}"
        by (rule processNextWorkItem_item [OF Q gi], rule that)
      show ?thesis
      proof (cases out)
        case (Panics x)
        then show ?thesis using p by (subst runWorker.simps) simp
      next
        case (Returns again)
        with out have again: "out = Returns True" by (auto split: outcome.splits)
        have eq: "pend v (c_queue st') = pend v (c_queue st) - {i}" using pn less.prems(3) by blast
        have "card (pend v (c_queue st')) < card (pend v (c_queue st))"
          unfolding eq using less.prems(1) Get_item(1) [OF Q gi] by (rule card_Diff1_less)
        from less.hyps [OF this] eq b s less.prems obtain o2 st2 where
          "runWorker D st' = Some (o2, st2)" "o2 = Returns () \<longrightarrow> pend v (c_queue st2) = {}"
          by auto
        moreover have "runWorker D st = runWorker D st'"
          using p again by (simp add: runWorker_step)
        ultimately show ?thesis by simp
      qed
    qed
  qed
qed

text \<open>
  The other way round: a worker only ever returns because the queue is shut down, and then what
  is left on it is in other workers' hands.
\<close>

lemma processNextWorkItem_False:
  assumes "queue_lawful (queue D) v" and "processNextWorkItem D st = Some (Returns False, st')"
  shows "shut v (c_queue st') \<and> pend v (c_queue st') \<subseteq> busy v (c_queue st')"
proof -
  from assms(2) obtain x q where g: "wq_Get (queue D) (c_queue st) = Some (x, q)"
    by (auto simp: processNextWorkItem_def split: option.splits)
  show ?thesis
  proof (cases x)
    case None
    from assms(2) g None have "c_queue st' = q" by (auto simp: processNextWorkItem_def)
    with Get_shutdown [OF assms(1) g [unfolded None]] show ?thesis by simp
  next
    case (Some i)
    obtain out st2 where "processNextWorkItem D st = Some (out, st2)"
      "out = (case fst (reconcile D i (st\<lparr>c_queue := q\<rparr>)) of
        Panics p \<Rightarrow> Panics p | Returns _ \<Rightarrow> Returns True)"
      by (rule processNextWorkItem_item [OF assms(1) g [unfolded Some]], rule that)
    with assms(2) show ?thesis by (auto split: outcome.splits)
  qed
qed

definition stopped ::
  "'q queue_view \<Rightarrow> ('sel, 'k, 'q, 's) controller_deps \<Rightarrow> unit outcome \<times> ('k, 'q, 's) controller \<Rightarrow>
   bool" where
  "stopped v D y \<longleftrightarrow> (queue_lawful (queue D) v \<longrightarrow> fst y = Returns () \<longrightarrow>
     shut v (c_queue (snd y)) \<and> pend v (c_queue (snd y)) \<subseteq> busy v (c_queue (snd y)))"

lemma runWorker_stopped:
  assumes "runWorker D st = Some y"
  shows "stopped v D y"
proof (rule runWorker.raw_induct [where P = "\<lambda>D st y. stopped v D y", OF _ assms])
  fix rw D st y
  assume IH: "\<And>D st y. rw D st = Some y \<Longrightarrow> stopped v D y"
    and step: "Option.bind (processNextWorkItem D st) (\<lambda>(out, st'). case out of
        Returns again \<Rightarrow> if again then rw D st' else Some (Returns (), st')
      | Panics p \<Rightarrow> Some (Panics p, st')) = Some y"
  from step obtain out st1 where p: "processNextWorkItem D st = Some (out, st1)"
    and rest: "(case out of Returns again \<Rightarrow> if again then rw D st1 else Some (Returns (), st1)
      | Panics p \<Rightarrow> Some (Panics p, st1)) = Some y"
    by (auto simp: bind_eq_Some_conv)
  show "stopped v D y"
  proof (cases out)
    case (Panics x)
    with rest show ?thesis by (auto simp: stopped_def)
  next
    case (Returns again)
    show ?thesis
    proof (cases again)
      case True
      with rest Returns IH show ?thesis by simp
    next
      case False
      with rest Returns have "y = (Returns (), st1)" by simp
      with processNextWorkItem_False [of D v st st1] p Returns False show ?thesis
        by (simp add: stopped_def)
    qed
  qed
qed

lemma runWorker_returns:
  "queue_lawful (queue D) v \<Longrightarrow> runWorker D st = Some (Returns (), st') \<Longrightarrow>
   shut v (c_queue st') \<and> pend v (c_queue st') \<subseteq> busy v (c_queue st')"
  using runWorker_stopped [of D st "(Returns (), st')" v] by (simp add: stopped_def)

section \<open>The loop as steps of a worker\<close>

text \<open>
  A turn of the loop that nobody interrupts is four steps of the worker, and four steps of the
  worker are a turn. \<open>loop_turns k\<close> is \<open>k\<close> turns, each of which took an item.
\<close>

primrec loop_turns ::
  "('sel, 'k, 'q, 's) controller_deps \<Rightarrow> nat \<Rightarrow> ('k, 'q, 's) controller \<Rightarrow>
   ('k, 'q, 's) controller option" where
  "loop_turns D 0 st = Some st"
| "loop_turns D (Suc k) st =
     (case processNextWorkItem D st of
        Some (Returns True, st') \<Rightarrow> loop_turns D k st'
      | _ \<Rightarrow> None)"

text \<open>The worker's next step would call a function that panics.\<close>

definition panics_with ::
  "('sel, 'k, 'q, 's) controller_deps \<Rightarrow> nat \<Rightarrow> panic_reason \<Rightarrow> ('k, 'q, 's, 'z) crew_scheme \<Rightarrow> bool"
  where
  "panics_with D w x p \<longleftrightarrow>
     (case p_workers p w of
        Took i \<Rightarrow> fetch D i (p_cache p) = Panics x
      | Fetched i f \<Rightarrow> fst (apply_fetched D f (p_ctrl p)) = Panics x
      | _ \<Rightarrow> False)"

lemma processNextWorkItem_eq:
  "processNextWorkItem D st =
   (case wq_Get (queue D) (c_queue st) of
      None \<Rightarrow> None
    | Some (None, q) \<Rightarrow> Some (Returns False, st\<lparr>c_queue := q\<rparr>)
    | Some (Some i, q) \<Rightarrow>
        (case fetch D i (c_cache st) of
           Panics x \<Rightarrow> Some (Panics x, on_queue (wq_Done (queue D) i) (st\<lparr>c_queue := q\<rparr>))
         | Returns f \<Rightarrow>
             (case apply_fetched D f (st\<lparr>c_queue := q\<rparr>) of
                (Panics x, c) \<Rightarrow> Some (Panics x, on_queue (wq_Done (queue D) i) c)
              | (Returns err, c) \<Rightarrow> Some (Returns True, finish_item D i err c))))"
  by (auto simp: processNextWorkItem_def reconcileItem_def reconcile_eq finish_item_def
      split: option.split prod.split outcome.split)

lemma crew_of_worker: "(worker_step D w)\<^sup>*\<^sup>* p p' \<Longrightarrow> (crew_step D v api)\<^sup>*\<^sup>* p p'"
  by (erule rtranclp_mono [THEN predicate2D, rotated]) (auto intro: crew_step.work)

text \<open>The steps of an undisturbed worker, by its phase.\<close>

abbreviation at_phase ::
  "nat \<Rightarrow> ('k, 'q, 's, 'z) crew_scheme \<Rightarrow> ('k, 'q, 's) controller \<Rightarrow> phase \<Rightarrow>
   ('k, 'q, 's, 'z) crew_scheme" where
  "at_phase w p c ph \<equiv> p\<lparr>p_ctrl := c, p_workers := (p_workers p)(w := ph)\<rparr>"

lemma step_Idle:
  "p_workers p w = Idle \<Longrightarrow> worker_step D w p p' \<longleftrightarrow>
   (\<exists>i q. wq_Get (queue D) (p_queue p) = Some (Some i, q) \<and>
     p' = at_phase w p ((p_ctrl p)\<lparr>c_queue := q\<rparr>) (Took i))"
  by (auto elim: worker_step.cases intro: worker_step.take)

lemma step_Took:
  "worker_step D w (at_phase w p c (Took i)) p' \<longleftrightarrow>
   (\<exists>f. fetch D i (c_cache c) = Returns f \<and> p' = at_phase w p c (Fetched i f))"
  using worker_step.read [of "at_phase w p c (Took i)" w i D]
  by (auto elim: worker_step.cases)

lemma step_Fetched:
  "worker_step D w (at_phase w p c (Fetched i f)) p' \<longleftrightarrow>
   (\<exists>err c'. apply_fetched D f c = (Returns err, c') \<and> p' = at_phase w p c' (Applied i err))"
  using worker_step.act [of "at_phase w p c (Fetched i f)" w i f D]
  by (auto elim: worker_step.cases)

lemma step_Applied:
  "worker_step D w (at_phase w p c (Applied i err)) p' \<longleftrightarrow>
   p' = at_phase w p (finish_item D i err c) Idle"
  using worker_step.finish [of "at_phase w p c (Applied i err)" w i err D]
  by (auto elim: worker_step.cases)

lemmas phase_steps = step_Took step_Fetched step_Applied

lemma one_turn:
  assumes w: "p_workers p w = Idle"
  shows "(worker_step D w ^^ 4) p p' \<longleftrightarrow>
    (\<exists>c. processNextWorkItem D (p_ctrl p) = Some (Returns True, c) \<and> p' = p\<lparr>p_ctrl := c\<rparr>)"
proof -
  have idle: "at_phase w p c Idle = p\<lparr>p_ctrl := c\<rparr>" for c using w by (simp add: fun_upd_idem)
  have "(worker_step D w ^^ 4) p p' \<longleftrightarrow> (\<exists>i q f err c.
      wq_Get (queue D) (p_queue p) = Some (Some i, q) \<and> fetch D i (p_cache p) = Returns f \<and>
      apply_fetched D f ((p_ctrl p)\<lparr>c_queue := q\<rparr>) = (Returns err, c) \<and>
      p' = p\<lparr>p_ctrl := finish_item D i err c\<rparr>)"
    by (auto simp: relpowp_Suc_left numeral_eq_Suc relcompp_apply step_Idle [OF w] phase_steps idle
        simp del: relpowp.simps(2))
  also have "\<dots> \<longleftrightarrow> (\<exists>c. processNextWorkItem D (p_ctrl p) = Some (Returns True, c) \<and>
      p' = p\<lparr>p_ctrl := c\<rparr>)"
    by (auto simp: processNextWorkItem_eq split: option.splits prod.splits outcome.splits)
  finally show ?thesis .
qed

lemma turn_steps:
  assumes "p_workers p w = Idle" and "processNextWorkItem D (p_ctrl p) = Some (Returns True, c)"
  shows "(worker_step D w)\<^sup>*\<^sup>* p (p\<lparr>p_ctrl := c\<rparr>)"
  using one_turn [OF assms(1)] assms(2) by (blast intro: relpowp_imp_rtranclp)

lemma turns_are_steps:
  assumes "p_workers p w = Idle"
  shows "(worker_step D w ^^ (4 * k)) p p' \<longleftrightarrow>
    (\<exists>c. loop_turns D k (p_ctrl p) = Some c \<and> p' = p\<lparr>p_ctrl := c\<rparr>)"
  using assms
proof (induction k arbitrary: p)
  case 0
  then show ?case by auto
next
  case (Suc k)
  have "(worker_step D w ^^ (4 * Suc k)) p p' \<longleftrightarrow>
      (\<exists>b. (worker_step D w ^^ 4) p b \<and> (worker_step D w ^^ (4 * k)) b p')"
    by (simp only: mult_Suc_right relpowp_add relcompp_apply)
  also have "\<dots> \<longleftrightarrow> (\<exists>c. processNextWorkItem D (p_ctrl p) = Some (Returns True, c) \<and>
      (worker_step D w ^^ (4 * k)) (p\<lparr>p_ctrl := c\<rparr>) p')"
    unfolding one_turn [OF Suc.prems] by auto
  also have "\<dots> \<longleftrightarrow> (\<exists>c. loop_turns D (Suc k) (p_ctrl p) = Some c \<and> p' = p\<lparr>p_ctrl := c\<rparr>)"
    using Suc by (auto split: option.splits prod.splits outcome.splits bool.splits)
  finally show ?case .
qed

text \<open>Any run of the worker is some turns and up to three steps of another.\<close>

lemma worker_reaches:
  assumes "p_workers p w = Idle"
  shows "(worker_step D w)\<^sup>*\<^sup>* p p' \<longleftrightarrow>
    (\<exists>k c m. m < 4 \<and> loop_turns D k (p_ctrl p) = Some c \<and>
      (worker_step D w ^^ m) (p\<lparr>p_ctrl := c\<rparr>) p')"
proof
  assume "(worker_step D w)\<^sup>*\<^sup>* p p'"
  then obtain n where "(worker_step D w ^^ n) p p'" by (auto dest: rtranclp_imp_relpowp)
  then have "(worker_step D w ^^ (4 * (n div 4) + n mod 4)) p p'" by simp
  then obtain b where "(worker_step D w ^^ (4 * (n div 4))) p b" "(worker_step D w ^^ (n mod 4)) b p'"
    unfolding relpowp_add by blast
  with turns_are_steps [OF assms] show "\<exists>k c m. m < 4 \<and> loop_turns D k (p_ctrl p) = Some c \<and>
      (worker_step D w ^^ m) (p\<lparr>p_ctrl := c\<rparr>) p'"
    by (metis mod_less_divisor zero_less_numeral)
next
  assume "\<exists>k c m. m < 4 \<and> loop_turns D k (p_ctrl p) = Some c \<and>
      (worker_step D w ^^ m) (p\<lparr>p_ctrl := c\<rparr>) p'"
  then obtain k c m where "(worker_step D w ^^ (4 * k)) p (p\<lparr>p_ctrl := c\<rparr>)"
    "(worker_step D w ^^ m) (p\<lparr>p_ctrl := c\<rparr>) p'"
    using turns_are_steps [OF assms] by blast
  then show "(worker_step D w)\<^sup>*\<^sup>* p p'" by (meson relpowp_imp_rtranclp rtranclp_trans)
qed

text \<open>Within a turn.\<close>

lemma below_four: "(\<exists>m<4. P m) \<longleftrightarrow> P 0 \<or> P 1 \<or> P 2 \<or> P (3 :: nat)"
  by (auto simp: numeral_eq_Suc less_Suc_eq)

lemma steps_0: "(worker_step D w ^^ 0) p p' \<longleftrightarrow> p' = p"
  by auto

lemma steps_1:
  "p_workers p w = Idle \<Longrightarrow> (worker_step D w ^^ 1) p p' \<longleftrightarrow>
   (\<exists>i q. wq_Get (queue D) (p_queue p) = Some (Some i, q) \<and>
     p' = at_phase w p ((p_ctrl p)\<lparr>c_queue := q\<rparr>) (Took i))"
  by (auto simp: step_Idle eq_OO)

lemma steps_2:
  "p_workers p w = Idle \<Longrightarrow> (worker_step D w ^^ 2) p p' \<longleftrightarrow>
   (\<exists>i q f. wq_Get (queue D) (p_queue p) = Some (Some i, q) \<and> fetch D i (p_cache p) = Returns f \<and>
     p' = at_phase w p ((p_ctrl p)\<lparr>c_queue := q\<rparr>) (Fetched i f))"
  by (auto simp: relpowp_Suc_left numeral_eq_Suc relcompp_apply step_Idle phase_steps
      simp del: relpowp.simps(2))

lemma steps_3:
  "p_workers p w = Idle \<Longrightarrow> (worker_step D w ^^ 3) p p' \<longleftrightarrow>
   (\<exists>i q f err c. wq_Get (queue D) (p_queue p) = Some (Some i, q) \<and>
     fetch D i (p_cache p) = Returns f \<and>
     apply_fetched D f ((p_ctrl p)\<lparr>c_queue := q\<rparr>) = (Returns err, c) \<and>
     p' = at_phase w p c (Applied i err))"
  by (auto simp: relpowp_Suc_left numeral_eq_Suc relcompp_apply step_Idle phase_steps
      simp del: relpowp.simps(2))

lemma turn_idle:
  assumes "p_workers p w = Idle" and "(worker_step D w ^^ m) p p'" and "m < 4"
  shows "p_workers p' w = Idle \<longleftrightarrow> p' = p"
proof -
  have "\<exists>m<4. (worker_step D w ^^ m) p p'" using assms(2,3) by blast
  then show ?thesis
    unfolding below_four steps_0 steps_1 [OF assms(1)] steps_2 [OF assms(1)] steps_3 [OF assms(1)]
    using assms(1) by auto
qed

lemma turn_panics:
  assumes w: "p_workers p w = Idle"
  shows "(\<exists>m<4. \<exists>p'. (worker_step D w ^^ m) p p' \<and> panics_with D w x p') \<longleftrightarrow>
    (\<exists>c. processNextWorkItem D (p_ctrl p) = Some (Panics x, c))"
proof -
  have "(\<exists>m<4. \<exists>p'. (worker_step D w ^^ m) p p' \<and> panics_with D w x p') \<longleftrightarrow>
      (\<exists>i q. wq_Get (queue D) (p_queue p) = Some (Some i, q) \<and>
        (fetch D i (p_cache p) = Panics x \<or> (\<exists>f. fetch D i (p_cache p) = Returns f \<and>
          fst (apply_fetched D f ((p_ctrl p)\<lparr>c_queue := q\<rparr>)) = Panics x)))"
    unfolding below_four steps_0 steps_1 [OF w] steps_2 [OF w] steps_3 [OF w]
    using w by (auto simp: panics_with_def)
  also have "\<dots> \<longleftrightarrow> (\<exists>c. processNextWorkItem D (p_ctrl p) = Some (Panics x, c))"
    by (auto simp: processNextWorkItem_eq split: option.splits prod.splits outcome.splits)
  finally show ?thesis .
qed

section \<open>How the loop goes on\<close>

lemma loop_turns_right:
  "loop_turns D (Suc k) st =
   (case loop_turns D k st of
      None \<Rightarrow> None
    | Some s \<Rightarrow> (case processNextWorkItem D s of Some (Returns True, s') \<Rightarrow> Some s' | _ \<Rightarrow> None))"
proof (induction k arbitrary: st)
  case (Suc k)
  show ?case
  proof (cases "\<exists>s. processNextWorkItem D st = Some (Returns True, s)")
    case True
    then obtain s where "loop_turns D (Suc j) st = loop_turns D j s" for j by auto
    then show ?thesis using Suc.IH [of s] by (simp only:)
  next
    case False
    then have "loop_turns D (Suc j) st = None" for j
      by (auto split: option.splits prod.splits outcome.splits bool.splits)
    then show ?thesis by (simp only: option.simps)
  qed
qed (simp split: option.split prod.split outcome.split bool.split)

lemma runWorker_turns: "loop_turns D k st = Some st' \<Longrightarrow> runWorker D st = runWorker D st'"
  by (induction k arbitrary: st)
     (auto simp: runWorker_step split: option.splits prod.splits outcome.splits bool.splits)

definition last_turn ::
  "('sel, 'k, 'q, 's) controller_deps \<Rightarrow> ('k, 'q, 's) controller \<Rightarrow>
   unit outcome \<times> ('k, 'q, 's) controller \<Rightarrow> bool" where
  "last_turn D st y \<longleftrightarrow>
     (case fst y of
        Returns _ \<Rightarrow> processNextWorkItem D st = Some (Returns False, snd y)
      | Panics x \<Rightarrow> processNextWorkItem D st = Some (Panics x, snd y))"

lemma last_turn_runs: "last_turn D st y \<Longrightarrow> runWorker D st = Some y"
  by (subst runWorker.simps) (cases y, auto simp: last_turn_def split: outcome.splits)

lemma runWorker_ends:
  assumes "runWorker D st = Some y"
  shows "\<exists>k st'. loop_turns D k st = Some st' \<and> last_turn D st' y"
proof (rule runWorker.raw_induct [where P = "\<lambda>D st y. \<exists>k st'. loop_turns D k st = Some st' \<and>
    last_turn D st' y", OF _ assms])
  fix rw D st y
  assume IH: "\<And>D st y. rw D st = Some y \<Longrightarrow>
      \<exists>k st'. loop_turns D k st = Some st' \<and> last_turn D st' y"
    and step: "Option.bind (processNextWorkItem D st) (\<lambda>(out, st'). case out of
        Returns again \<Rightarrow> if again then rw D st' else Some (Returns (), st')
      | Panics p \<Rightarrow> Some (Panics p, st')) = Some y"
  from step obtain out st1 where p: "processNextWorkItem D st = Some (out, st1)"
    and rest: "(case out of Returns again \<Rightarrow> if again then rw D st1 else Some (Returns (), st1)
      | Panics p \<Rightarrow> Some (Panics p, st1)) = Some y"
    by (auto simp: bind_eq_Some_conv)
  show "\<exists>k st'. loop_turns D k st = Some st' \<and> last_turn D st' y"
  proof (cases "out = Returns True")
    case True
    with rest have "rw D st1 = Some y" by simp
    from IH [OF this] obtain k st' where "loop_turns D k st1 = Some st'" "last_turn D st' y" by blast
    with p True show ?thesis by (intro exI [of _ "Suc k"] exI [of _ st']) simp
  next
    case False
    with p rest have "last_turn D st y"
      by (cases out) (auto simp: last_turn_def split: if_splits)
    then show ?thesis by (intro exI [of _ 0] exI [of _ st]) simp
  qed
qed

lemma runWorker_Some:
  "runWorker D st = Some y \<longleftrightarrow> (\<exists>k st'. loop_turns D k st = Some st' \<and> last_turn D st' y)"
  using runWorker_ends runWorker_turns last_turn_runs by metis

lemma runWorker_None:
  "runWorker D st = None \<longleftrightarrow>
   (\<forall>k. loop_turns D k st \<noteq> None) \<or>
   (\<exists>k st'. loop_turns D k st = Some st' \<and> processNextWorkItem D st' = None)"
proof
  assume none: "runWorker D st = None"
  show "(\<forall>k. loop_turns D k st \<noteq> None) \<or>
      (\<exists>k st'. loop_turns D k st = Some st' \<and> processNextWorkItem D st' = None)"
  proof (rule disjCI, rule allI)
    fix k
    assume no: "\<not> (\<exists>k st'. loop_turns D k st = Some st' \<and> processNextWorkItem D st' = None)"
    show "loop_turns D k st \<noteq> None"
    proof (induction k)
      case (Suc k)
      then obtain s where s: "loop_turns D k st = Some s" by blast
      with no obtain out s' where p: "processNextWorkItem D s = Some (out, s')" by fastforce
      have "out = Returns True"
      proof (rule ccontr)
        assume "out \<noteq> Returns True"
        with p have "last_turn D s (case out of Returns _ \<Rightarrow> Returns () | Panics x \<Rightarrow> Panics x, s')"
          by (cases out) (auto simp: last_turn_def)
        with s none show False using runWorker_Some [of D st] by force
      qed
      with s p show ?case by (simp add: loop_turns_right del: loop_turns.simps)
    qed simp
  qed
next
  assume "(\<forall>k. loop_turns D k st \<noteq> None) \<or>
      (\<exists>k st'. loop_turns D k st = Some st' \<and> processNextWorkItem D st' = None)"
  then show "runWorker D st = None"
  proof
    assume all: "\<forall>k. loop_turns D k st \<noteq> None"
    show ?thesis
    proof (rule ccontr)
      assume "runWorker D st \<noteq> None"
      then obtain y k s where "loop_turns D k st = Some s" "last_turn D s y"
        using runWorker_Some by blast
      then have "loop_turns D (Suc k) st = None"
        by (auto simp: loop_turns_right last_turn_def simp del: loop_turns.simps split: outcome.splits)
      with all show False by blast
    qed
  next
    assume "\<exists>k st'. loop_turns D k st = Some st' \<and> processNextWorkItem D st' = None"
    then obtain k s where "loop_turns D k st = Some s" "processNextWorkItem D s = None" by blast
    then show ?thesis using runWorker_turns [of D k st s] by (simp add: runWorker.simps [of D s])
  qed
qed

text \<open>The four ways a worker on its own can go, as steps.\<close>

lemma worker_goes_on:
  assumes "p_workers p w = Idle"
  shows "(\<forall>m. \<exists>p'. (worker_step D w ^^ m) p p') \<longleftrightarrow> (\<forall>k. loop_turns D k (p_ctrl p) \<noteq> None)"
proof
  assume all: "\<forall>m. \<exists>p'. (worker_step D w ^^ m) p p'"
  show "\<forall>k. loop_turns D k (p_ctrl p) \<noteq> None"
    using all turns_are_steps [OF assms] by (metis option.distinct(1))
next
  assume all: "\<forall>k. loop_turns D k (p_ctrl p) \<noteq> None"
  show "\<forall>m. \<exists>p'. (worker_step D w ^^ m) p p'"
  proof
    fix m
    obtain c where "loop_turns D m (p_ctrl p) = Some c" using all by blast
    then have "(worker_step D w ^^ (4 * m)) p (p\<lparr>p_ctrl := c\<rparr>)" using turns_are_steps [OF assms] by blast
    then have "(worker_step D w ^^ (m + 3 * m)) p (p\<lparr>p_ctrl := c\<rparr>)" by simp
    then show "\<exists>p'. (worker_step D w ^^ m) p p'" unfolding relpowp_add by blast
  qed
qed

lemma worker_reaches_idle:
  assumes w: "p_workers p w = Idle"
  shows "(\<exists>p'. (worker_step D w)\<^sup>*\<^sup>* p p' \<and> p_workers p' w = Idle \<and> P (p_ctrl p')) \<longleftrightarrow>
    (\<exists>k c. loop_turns D k (p_ctrl p) = Some c \<and> P c)"
proof
  assume "\<exists>p'. (worker_step D w)\<^sup>*\<^sup>* p p' \<and> p_workers p' w = Idle \<and> P (p_ctrl p')"
  then obtain p' k c m where "m < 4" "loop_turns D k (p_ctrl p) = Some c"
    "(worker_step D w ^^ m) (p\<lparr>p_ctrl := c\<rparr>) p'" "p_workers p' w = Idle" "P (p_ctrl p')"
    unfolding worker_reaches [OF w] by blast
  with turn_idle [of "p\<lparr>p_ctrl := c\<rparr>" w m D p'] w
  show "\<exists>k c. loop_turns D k (p_ctrl p) = Some c \<and> P c" by auto
next
  assume "\<exists>k c. loop_turns D k (p_ctrl p) = Some c \<and> P c"
  then obtain k c where kc: "loop_turns D k (p_ctrl p) = Some c" "P c" by blast
  then have "(worker_step D w ^^ (4 * k)) p (p\<lparr>p_ctrl := c\<rparr>)" using turns_are_steps [OF w] by blast
  then show "\<exists>p'. (worker_step D w)\<^sup>*\<^sup>* p p' \<and> p_workers p' w = Idle \<and> P (p_ctrl p')"
    using kc(2) w by (intro exI [of _ "p\<lparr>p_ctrl := c\<rparr>"]) (simp add: relpowp_imp_rtranclp)
qed

lemma worker_reaches_panic:
  assumes w: "p_workers p w = Idle"
  shows "(\<exists>p'. (worker_step D w)\<^sup>*\<^sup>* p p' \<and> panics_with D w x p') \<longleftrightarrow>
    (\<exists>c. runWorker D (p_ctrl p) = Some (Panics x, c))"
proof -
  have "(\<exists>p'. (worker_step D w)\<^sup>*\<^sup>* p p' \<and> panics_with D w x p') \<longleftrightarrow>
      (\<exists>k c. loop_turns D k (p_ctrl p) = Some c \<and>
        (\<exists>m<4. \<exists>p'. (worker_step D w ^^ m) (p\<lparr>p_ctrl := c\<rparr>) p' \<and> panics_with D w x p'))"
    unfolding worker_reaches [OF w] by blast
  also have "\<dots> \<longleftrightarrow> (\<exists>k c. loop_turns D k (p_ctrl p) = Some c \<and>
      (\<exists>c'. processNextWorkItem D c = Some (Panics x, c')))"
    using turn_panics [of "p\<lparr>p_ctrl := c\<rparr>" w D x for c] w by simp
  also have "\<dots> \<longleftrightarrow> (\<exists>c. runWorker D (p_ctrl p) = Some (Panics x, c))"
    unfolding runWorker_Some last_turn_def by auto
  finally show ?thesis .
qed

lemma processNextWorkItem_ends:
  "processNextWorkItem D st = None \<longleftrightarrow> wq_Get (queue D) (c_queue st) = None"
  "processNextWorkItem D st = Some (Returns False, c) \<longleftrightarrow>
   (\<exists>q. wq_Get (queue D) (c_queue st) = Some (None, q) \<and> c = st\<lparr>c_queue := q\<rparr>)"
  by (auto simp: processNextWorkItem_eq split: option.splits prod.splits outcome.splits)

end
