(* ===== verification/Event_Handlers.thy ===== *)
theory Event_Handlers
  imports Controller
begin

text \<open>
  The informers' event handlers of \<open>controller.go\<close>: what each event of the three watched
  types puts on the work queue, and the generic helpers beside them. The three sets of
  handlers share one contract, the locale \<open>event_source\<close>.
\<close>

section \<open>Handlers and events\<close>

text \<open>\<open>cache.ResourceEventHandlerFuncs\<close>; a handler may panic in a type assertion.\<close>

record ('k, 'q, 's) handlers =
  AddFunc :: "api_object \<Rightarrow> ('k, 'q, 's) controller \<Rightarrow> unit outcome \<times> ('k, 'q, 's) controller"
  UpdateFunc :: "api_object \<Rightarrow> api_object \<Rightarrow> ('k, 'q, 's) controller \<Rightarrow>
    unit outcome \<times> ('k, 'q, 's) controller"
  DeleteFunc :: "api_object \<Rightarrow> ('k, 'q, 's) controller \<Rightarrow> unit outcome \<times> ('k, 'q, 's) controller"

text \<open>\<open>if typed, is := obj.(cache.DeletedFinalStateUnknown); is { obj = typed.Obj }\<close>.\<close>

fun final_state :: "api_object \<Rightarrow> api_object" where
  "final_state (DeletedFinalStateUnknown key obj) = obj"
| "final_state obj = obj"

definition with_typed ::
  "'a outcome \<Rightarrow> ('a \<Rightarrow> 's \<Rightarrow> unit outcome \<times> 's) \<Rightarrow> 's \<Rightarrow> unit outcome \<times> 's" where
  "with_typed assertion f st = st_bind (assertion, st) f"

definition enqueue ::
  "('sel, 'k, 'q, 's) controller_deps \<Rightarrow> work_item \<Rightarrow> ('k, 'q, 's) controller \<Rightarrow>
   unit outcome \<times> ('k, 'q, 's) controller" where
  "enqueue D item st = (Returns (), on_queue (wq_Add (queue D) item) st)"

subsection \<open>Bindings\<close>

definition bindingHandlers ::
  "('sel, 'k, 'q, 's) controller_deps \<Rightarrow> ('k, 'q, 's) handlers" where
  "bindingHandlers D =
     \<lparr>AddFunc = (\<lambda>obj. with_typed (as_Binding obj)
        (\<lambda>bdg. enqueue D (BindingRef (om_name (b_meta bdg))))),
      UpdateFunc = (\<lambda>old new. with_typed (as_Binding old)
        (\<lambda>oldBdg. with_typed (as_Binding new)
          (\<lambda>newBdg st.
             if om_generation (b_meta oldBdg) \<noteq> om_generation (b_meta newBdg)
             then enqueue D (BindingRef (om_name (b_meta newBdg))) st
             else (Returns (), st)))),
      DeleteFunc = (\<lambda>obj. with_typed (as_Binding (final_state obj))
        (\<lambda>bdg. enqueue D (BindingRef (om_name (b_meta bdg)))))\<rparr>"

subsection \<open>Combined statuses\<close>

definition enqueueCombinedStatus ::
  "('sel, 'k, 'q, 's) controller_deps \<Rightarrow> api_object \<Rightarrow> ('k, 'q, 's) controller \<Rightarrow>
   unit outcome \<times> ('k, 'q, 's) controller" where
  "enqueueCombinedStatus D obj st =
     (case MetaNamespaceKeyFunc D obj of
        Inl err \<Rightarrow> (Returns (), st)
      | Inr ref \<Rightarrow> enqueue D (CombinedStatusRef ref) st)"

definition combinedStatusHandlers ::
  "('sel, 'k, 'q, 's) controller_deps \<Rightarrow> ('k, 'q, 's) handlers" where
  "combinedStatusHandlers D =
     \<lparr>AddFunc = (\<lambda>obj. with_typed (as_CombinedStatus obj) (\<lambda>cs. enqueueCombinedStatus D obj)),
      UpdateFunc = (\<lambda>old new. with_typed (as_CombinedStatus old)
        (\<lambda>oldCS. with_typed (as_CombinedStatus new)
          (\<lambda>newCS st.
             if om_generation (cs_meta oldCS) \<noteq> om_generation (cs_meta newCS)
             then enqueueCombinedStatus D new st
             else (Returns (), st)))),
      DeleteFunc = (\<lambda>obj. with_typed (as_CombinedStatus (final_state obj))
        (\<lambda>cs. enqueueCombinedStatus D (final_state obj)))\<rparr>"

subsection \<open>Staged binding policies\<close>

definition stagedBindingPolicyHandlers ::
  "('sel, 'k, 'q, 's) controller_deps \<Rightarrow> ('k, 'q, 's) handlers" where
  "stagedBindingPolicyHandlers D =
     \<lparr>AddFunc = (\<lambda>obj. with_typed (as_StagedBindingPolicy obj)
        (\<lambda>sbp. enqueue D (StagedBindingPolicyRef (sbp_name sbp)))),
      UpdateFunc = (\<lambda>old new. with_typed (as_StagedBindingPolicy old)
        (\<lambda>oldSBP. with_typed (as_StagedBindingPolicy new)
          (\<lambda>newSBP st.
             if om_generation (sbp_meta oldSBP) \<noteq> om_generation (sbp_meta newSBP)
             then enqueue D (StagedBindingPolicyRef (sbp_name newSBP)) st
             else (Returns (), st)))),
      DeleteFunc = (\<lambda>obj. with_typed (as_StagedBindingPolicy (final_state obj))
        (\<lambda>sbp. enqueue D (StagedBindingPolicyRef (sbp_name sbp))))\<rparr>"

subsection \<open>Generic helpers\<close>

definition shouldSkipUpdate :: "api_object \<Rightarrow> api_object \<Rightarrow> bool outcome" where
  "shouldSkipUpdate old new =
     out_bind (as_metav1_Object old) (\<lambda>oldMObj.
       out_bind (as_metav1_Object new) (\<lambda>newMObj.
         if om_resourceVersion newMObj = om_resourceVersion oldMObj then Returns True
         else Returns False))"

definition isBeingDeleted :: "api_object \<Rightarrow> bool outcome" where
  "isBeingDeleted obj =
     out_bind (as_metav1_Object obj) (\<lambda>mObj. Returns (om_deletionTimestamp mObj \<noteq> None))"

text \<open>A generic lister's two ways to get an object are parameters.\<close>

definition getObject ::
  "(string \<Rightarrow> string \<Rightarrow> 'r) \<Rightarrow> (string \<Rightarrow> 'r) \<Rightarrow> string \<Rightarrow> string \<Rightarrow> 'r" where
  "getObject byNamespace_Get get namespace name =
     (if namespace \<noteq> [] then byNamespace_Get namespace name else get name)"

definition enqueueObjectIdentifier ::
  "('sel, 'k, 'q, 's) controller_deps \<Rightarrow> object_identifier \<Rightarrow> ('k, 'q, 's) controller \<Rightarrow>
   unit outcome \<times> ('k, 'q, 's) controller" where
  "enqueueObjectIdentifier D objIdentifier = enqueue D (ObjectItem objIdentifier)"

text \<open>\<open>util.IdentifierForObject\<close> is a parameter; the assertion needs an API object.\<close>

definition enqueueObject ::
  "(api_object \<Rightarrow> string \<Rightarrow> object_identifier) \<Rightarrow> ('sel, 'k, 'q, 's) controller_deps \<Rightarrow>
   api_object \<Rightarrow> string \<Rightarrow> ('k, 'q, 's) controller \<Rightarrow>
   unit outcome \<times> ('k, 'q, 's) controller" where
  "enqueueObject IdentifierForObject D obj resource =
     with_typed (as_metav1_Object obj)
       (\<lambda>_. enqueueObjectIdentifier D (IdentifierForObject obj resource))"

definition handleObject ::
  "(api_object \<Rightarrow> string \<Rightarrow> object_identifier) \<Rightarrow> ('sel, 'k, 'q, 's) controller_deps \<Rightarrow>
   api_object \<Rightarrow> string \<Rightarrow> ('k, 'q, 's) controller \<Rightarrow>
   unit outcome \<times> ('k, 'q, 's) controller" where
  "handleObject IdentifierForObject D obj resource =
     with_typed (as_metav1_Object (final_state obj))
       (\<lambda>_. enqueueObject IdentifierForObject D (final_state obj) resource)"

section \<open>Events\<close>

datatype event =
    Added api_object
  | Updated api_object api_object
  | Deleted api_object

fun handle ::
  "('k, 'q, 's) handlers \<Rightarrow> event \<Rightarrow> ('k, 'q, 's) controller \<Rightarrow>
   unit outcome \<times> ('k, 'q, 's) controller" where
  "handle H (Added obj) st = AddFunc H obj st"
| "handle H (Updated old new) st = UpdateFunc H old new st"
| "handle H (Deleted obj) st = DeleteFunc H obj st"

fun handle_all ::
  "('k, 'q, 's) handlers \<Rightarrow> event list \<Rightarrow> ('k, 'q, 's) controller \<Rightarrow>
   unit outcome \<times> ('k, 'q, 's) controller" where
  "handle_all H [] st = (Returns (), st)"
| "handle_all H (ev # evs) st = st_bind (handle H ev st) (\<lambda>_. handle_all H evs)"

text \<open>
  The item an event asks for: \<open>meta\<close> gives the metadata of an object of the source's type,
  \<open>ref\<close> the item that stands for it.
\<close>

fun demanded ::
  "(api_object \<Rightarrow> object_meta option) \<Rightarrow> (api_object \<Rightarrow> work_item option) \<Rightarrow> event \<Rightarrow>
   work_item option" where
  "demanded meta ref (Added obj) = ref obj"
| "demanded meta ref (Updated old new) =
     (if map_option om_generation (meta old) \<noteq> map_option om_generation (meta new)
      then ref new else None)"
| "demanded meta ref (Deleted obj) = ref (final_state obj)"

fun well_typed :: "(api_object \<Rightarrow> object_meta option) \<Rightarrow> event \<Rightarrow> bool" where
  "well_typed meta (Added obj) = (meta obj \<noteq> None)"
| "well_typed meta (Updated old new) = (meta old \<noteq> None \<and> meta new \<noteq> None)"
| "well_typed meta (Deleted obj) = (meta (final_state obj) \<noteq> None)"

locale event_source =
  fixes D :: "('sel, 'k, 'q, 's) controller_deps"
    and H :: "('k, 'q, 's) handlers"
    and meta :: "api_object \<Rightarrow> object_meta option"
    and ref :: "api_object \<Rightarrow> work_item option"
  assumes handle_typed: "well_typed meta ev \<Longrightarrow> handle H ev st =
      (Returns (), (case demanded meta ref ev of
         None \<Rightarrow> st | Some i \<Rightarrow> on_queue (wq_Add (queue D) i) st))"
    and handle_untyped: "\<not> well_typed meta ev \<Longrightarrow> handle H ev st = (Panics TypeAssertion, st)"
begin

text \<open>A delivery that returns has put what the event asks for on the queue.\<close>

lemma handle_Returns:
  assumes "handle H ev st = (Returns (), st')"
  shows "st' = (case demanded meta ref ev of
    None \<Rightarrow> st | Some i \<Rightarrow> on_queue (wq_Add (queue D) i) st)"
  using assms handle_typed [of ev st] handle_untyped [of ev st] by (cases "well_typed meta ev") auto

text \<open>Delivering events: what is pending afterwards is what was, and what they ask for.\<close>

lemma handle_all_pend:
  assumes Q: "queue_lawful (queue D) v"
  shows "list_all (well_typed meta) evs \<Longrightarrow> \<not> shut v (c_queue st) \<Longrightarrow>
    \<exists>st'. handle_all H evs st = (Returns (), st') \<and> c_resolver st' = c_resolver st \<and>
      c_cache st' = c_cache st \<and>
      pend v (c_queue st') = pend v (c_queue st) \<union>
        {i. \<exists>ev\<in>set evs. demanded meta ref ev = Some i} \<and>
      busy v (c_queue st') = busy v (c_queue st)"
proof (induction evs arbitrary: st)
  case Nil
  then show ?case by simp
next
  case (Cons ev evs)
  let ?st = "case demanded meta ref ev of None \<Rightarrow> st
    | Some i \<Rightarrow> on_queue (wq_Add (queue D) i) st"
  have h: "handle H ev st = (Returns (), ?st)" using Cons.prems handle_typed by simp
  have s: "\<not> shut v (c_queue ?st)" "c_resolver ?st = c_resolver st" "c_cache ?st = c_cache st"
    "busy v (c_queue ?st) = busy v (c_queue st)"
    "pend v (c_queue ?st) = pend v (c_queue st) \<union> {i. demanded meta ref ev = Some i}"
    using Cons.prems(2) Add_views [OF Q] by (auto split: option.splits)
  from Cons.IH [OF _ s(1)] Cons.prems(1) obtain st' where
    "handle_all H evs ?st = (Returns (), st')" "c_resolver st' = c_resolver ?st"
    "c_cache st' = c_cache ?st" "busy v (c_queue st') = busy v (c_queue ?st)"
    "pend v (c_queue st') = pend v (c_queue ?st) \<union>
        {i. \<exists>ev\<in>set evs. demanded meta ref ev = Some i}"
    by auto
  with h s show ?case by auto
qed

text \<open>An untyped object ends the delivery in a panic.\<close>

lemma handle_all_untyped:
  assumes "list_all (well_typed meta) evs" "\<not> well_typed meta ev"
  shows "fst (handle_all H (evs @ ev # rest) st) = Panics TypeAssertion"
  using assms(1)
  by (induction evs arbitrary: st) (simp_all add: handle_untyped [OF assms(2)] handle_typed)

text \<open>A tombstone counts as its object, and an update that keeps the generation as nothing.\<close>

lemma tombstone:
  assumes "meta obj \<noteq> None" "final_state obj = obj"
  shows "handle H (Deleted (DeletedFinalStateUnknown key obj)) st = handle H (Deleted obj) st"
  using assms handle_typed [of "Deleted (DeletedFinalStateUnknown key obj)" st]
    handle_typed [of "Deleted obj" st] by simp

lemma same_generation:
  assumes "meta old = Some m" "meta new = Some m'" "om_generation m = om_generation m'"
  shows "handle H (Updated old new) st = (Returns (), st)"
  using assms handle_typed [of "Updated old new" st] by simp

end

section \<open>The three sources\<close>

fun binding_meta :: "api_object \<Rightarrow> object_meta option" where
  "binding_meta (BindingObject b) = Some (b_meta b)"
| "binding_meta _ = None"

fun binding_item :: "api_object \<Rightarrow> work_item option" where
  "binding_item (BindingObject b) = Some (BindingRef (om_name (b_meta b)))"
| "binding_item _ = None"

fun status_meta :: "api_object \<Rightarrow> object_meta option" where
  "status_meta (CombinedStatusObject cs) = Some (cs_meta cs)"
| "status_meta _ = None"

definition status_item ::
  "('sel, 'k, 'q, 's) controller_deps \<Rightarrow> api_object \<Rightarrow> work_item option" where
  "status_item D obj =
     (case MetaNamespaceKeyFunc D obj of Inl err \<Rightarrow> None | Inr key \<Rightarrow> Some (CombinedStatusRef key))"

fun policy_meta :: "api_object \<Rightarrow> object_meta option" where
  "policy_meta (SBPObject sbp) = Some (sbp_meta sbp)"
| "policy_meta _ = None"

fun policy_item :: "api_object \<Rightarrow> work_item option" where
  "policy_item (SBPObject sbp) = Some (StagedBindingPolicyRef (sbp_name sbp))"
| "policy_item _ = None"

lemma as_untyped:
  "binding_meta obj = None \<Longrightarrow> as_Binding obj = Panics TypeAssertion"
  "status_meta obj = None \<Longrightarrow> as_CombinedStatus obj = Panics TypeAssertion"
  "policy_meta obj = None \<Longrightarrow> as_StagedBindingPolicy obj = Panics TypeAssertion"
  by (cases obj; simp)+

fun_cases binding_metaE: "binding_meta obj = Some m"
fun_cases status_metaE: "status_meta obj = Some m"
fun_cases policy_metaE: "policy_meta obj = Some m"

lemmas handler_simps = with_typed_def enqueue_def enqueueCombinedStatus_def status_item_def
  bindingHandlers_def combinedStatusHandlers_def stagedBindingPolicyHandlers_def

lemma binding_untyped:
  assumes "\<not> well_typed binding_meta ev"
  shows "handle (bindingHandlers D) ev st = (Panics TypeAssertion, st)"
proof (cases ev)
  case (Updated old new)
  with assms show ?thesis by (cases old; cases new; simp add: handler_simps)
qed (use assms in \<open>simp_all add: handler_simps as_untyped\<close>)

lemma status_untyped:
  assumes "\<not> well_typed status_meta ev"
  shows "handle (combinedStatusHandlers D) ev st = (Panics TypeAssertion, st)"
proof (cases ev)
  case (Updated old new)
  with assms show ?thesis by (cases old; cases new; simp add: handler_simps)
qed (use assms in \<open>simp_all add: handler_simps as_untyped\<close>)

lemma policy_untyped:
  assumes "\<not> well_typed policy_meta ev"
  shows "handle (stagedBindingPolicyHandlers D) ev st = (Panics TypeAssertion, st)"
proof (cases ev)
  case (Updated old new)
  with assms show ?thesis by (cases old; cases new; simp add: handler_simps)
qed (use assms in \<open>simp_all add: handler_simps as_untyped\<close>)

interpretation binding_events: event_source D "bindingHandlers D" binding_meta binding_item
proof
  show "well_typed binding_meta ev \<Longrightarrow> handle (bindingHandlers D) ev st =
      (Returns (), (case demanded binding_meta binding_item ev of
         None \<Rightarrow> st | Some i \<Rightarrow> on_queue (wq_Add (queue D) i) st))" for ev st
    by (cases ev) (auto simp: handler_simps elim!: binding_metaE)
  show "\<not> well_typed binding_meta ev \<Longrightarrow>
      handle (bindingHandlers D) ev st = (Panics TypeAssertion, st)" for ev st
    by (rule binding_untyped)
qed

interpretation status_events: event_source D "combinedStatusHandlers D" status_meta
  "status_item D"
proof
  show "well_typed status_meta ev \<Longrightarrow> handle (combinedStatusHandlers D) ev st =
      (Returns (), (case demanded status_meta (status_item D) ev of
         None \<Rightarrow> st | Some i \<Rightarrow> on_queue (wq_Add (queue D) i) st))" for ev st
    by (cases ev) (auto simp: handler_simps split: sum.split elim!: status_metaE)
  show "\<not> well_typed status_meta ev \<Longrightarrow>
      handle (combinedStatusHandlers D) ev st = (Panics TypeAssertion, st)" for ev st
    by (rule status_untyped)
qed

interpretation policy_events: event_source D "stagedBindingPolicyHandlers D" policy_meta
  policy_item
proof
  show "well_typed policy_meta ev \<Longrightarrow> handle (stagedBindingPolicyHandlers D) ev st =
      (Returns (), (case demanded policy_meta policy_item ev of
         None \<Rightarrow> st | Some i \<Rightarrow> on_queue (wq_Add (queue D) i) st))" for ev st
    by (cases ev) (auto simp: handler_simps elim!: policy_metaE)
  show "\<not> well_typed policy_meta ev \<Longrightarrow>
      handle (stagedBindingPolicyHandlers D) ev st = (Panics TypeAssertion, st)" for ev st
    by (rule policy_untyped)
qed

end
