(* ===== verification/Demo_Controller.thy ===== *)
theory Demo_Controller
  imports Worker_Loop Event_Handlers Resolver_Properties
begin

text \<open>
  A concrete work queue, informer cache and key scheme for the witnesses of the controller's
  properties, over the API server of \<open>Demo_Cluster\<close>. They keep what the properties assume
  of client-go, which is proved here.
\<close>

section \<open>A queue\<close>

record demo_queue =
  dq_items :: "work_item list"
  dq_busy :: "work_item list"
  dq_waits :: "work_item list"
  dq_shut :: bool

definition demo_wq :: "demo_queue work_queue" where
  "demo_wq =
     \<lparr>wq_Get = (\<lambda>q.
        case filter (\<lambda>i. i \<notin> set (dq_busy q)) (dq_items q) of
          [] \<Rightarrow> if dq_shut q then Some (None, q) else None
        | i # _ \<Rightarrow> Some (Some i, q\<lparr>dq_items := removeAll i (dq_items q),
            dq_busy := i # dq_busy q\<rparr>)),
      wq_Add = (\<lambda>i q. if dq_shut q \<or> i \<in> set (dq_items q) then q
        else q\<lparr>dq_items := dq_items q @ [i]\<rparr>),
      wq_AddRateLimited = (\<lambda>i q. if dq_shut q then q else q\<lparr>dq_waits := i # dq_waits q\<rparr>),
      wq_Forget = (\<lambda>i q. q),
      wq_Done = (\<lambda>i q. q\<lparr>dq_busy := removeAll i (dq_busy q)\<rparr>)\<rparr>"

definition demo_view :: "demo_queue queue_view" where
  "demo_view = \<lparr>pend = (\<lambda>q. set (dq_items q)), busy = (\<lambda>q. set (dq_busy q)),
     waits = (\<lambda>q. set (dq_waits q)), shut = dq_shut\<rparr>"

lemma demo_view_sel [simp]:
  "pend demo_view q = set (dq_items q)" "busy demo_view q = set (dq_busy q)"
  "waits demo_view q = set (dq_waits q)" "shut demo_view q = dq_shut q"
  by (simp_all add: demo_view_def)

lemma demo_wq_sel [simp]:
  "wq_Add demo_wq i q = (if dq_shut q \<or> i \<in> set (dq_items q) then q
     else q\<lparr>dq_items := dq_items q @ [i]\<rparr>)"
  "wq_AddRateLimited demo_wq i q = (if dq_shut q then q else q\<lparr>dq_waits := i # dq_waits q\<rparr>)"
  "wq_Forget demo_wq i q = q" "wq_Done demo_wq i q = q\<lparr>dq_busy := removeAll i (dq_busy q)\<rparr>"
  by (simp_all add: demo_wq_def)

lemma demo_Get:
  "wq_Get demo_wq q =
     (case filter (\<lambda>i. i \<notin> set (dq_busy q)) (dq_items q) of
        [] \<Rightarrow> if dq_shut q then Some (None, q) else None
      | i # _ \<Rightarrow> Some (Some i, q\<lparr>dq_items := removeAll i (dq_items q), dq_busy := i # dq_busy q\<rparr>))"
  by (simp add: demo_wq_def)

lemma demo_get_lawful: "get_lawful demo_wq demo_view"
proof -
  have nil: "filter (\<lambda>i. i \<notin> set (dq_busy q)) (dq_items q) = [] \<longleftrightarrow>
      set (dq_items q) \<subseteq> set (dq_busy q)" for q
    by (auto simp: filter_empty_conv)
  have cons: "filter (\<lambda>i. i \<notin> set (dq_busy q)) (dq_items q) = i # is \<Longrightarrow>
      i \<in> set (dq_items q) \<and> i \<notin> set (dq_busy q)" for q i "is"
    by (auto simp: filter_eq_Cons_iff)
  show ?thesis unfolding get_lawful_def
    by (intro conjI allI impI)
       (auto simp: demo_Get nil [symmetric] split: list.splits if_splits dest: cons)
qed

lemma demo_queue_lawful: "queue_lawful demo_wq demo_view"
proof -
  have "add_lawful demo_wq demo_view" by (auto simp: add_lawful_def Let_def)
  moreover have "retry_lawful demo_wq demo_view" by (auto simp: retry_lawful_def Let_def)
  moreover have "done_lawful demo_wq demo_view" by (auto simp: done_lawful_def Let_def)
  ultimately show ?thesis using demo_get_lawful by (simp add: queue_lawful_def)
qed

section \<open>A cache\<close>

record demo_cache =
  dc_policies :: "staged_binding_policy list"
  dc_bindings :: "binding list"
  dc_statuses :: "combined_status list"

definition demo_indexer :: "(selector, demo_cache) indexer" where
  "demo_indexer =
     \<lparr>idx_GetByKey = (\<lambda>key k. case find (\<lambda>sbp. sbp_name sbp = key) (dc_policies k) of
          None \<Rightarrow> (NotAnObject, False, None) | Some sbp \<Rightarrow> (SBPObject sbp, True, None)),
      idx_ListAll = (\<lambda>sel k. (map SBPObject (dc_policies k), None))\<rparr>"

definition demo_deps ::
  "(selector, demo_cache, demo_queue, demo_world resolver) controller_deps" where
  "demo_deps =
     \<lparr>queue = demo_wq,
      bindingLister_Get = (\<lambda>n k. case find (\<lambda>b. om_name (b_meta b) = n) (dc_bindings k) of
          None \<Rightarrow> Inl (LibError ''not found'') | Some b \<Rightarrow> Inr b),
      combinedStatusLister_Get = (\<lambda>ns n k.
          case find (\<lambda>cs. om_namespace (cs_meta cs) = ns \<and> om_name (cs_meta cs) = n)
            (dc_statuses k) of
          None \<Rightarrow> Inl (LibError ''not found'') | Some cs \<Rightarrow> Inr cs),
      sbpLister = NewStagedBindingPolicyLister demo_indexer,
      api_IsNotFound = (\<lambda>e. e = LibError ''not found''),
      api_NewNotFound = (\<lambda>gr n. LibError ''not found''),
      SplitMetaNamespaceKey = (\<lambda>key. case strings_Split key ''/'' of
          [n] \<Rightarrow> Inr ([], n) | [ns, n] \<Rightarrow> Inr (ns, n) | _ \<Rightarrow> Inl (LibError ''unexpected key'')),
      MetaNamespaceKeyFunc = (\<lambda>obj. case as_metav1_Object obj of
          Panics p \<Rightarrow> Inl (LibError ''object has no meta'')
        | Returns m \<Rightarrow> Inr (if om_namespace m = [] then om_name m
            else om_namespace m @ ''/'' @ om_name m)),
      the_resolver = NewResolver demo_clients\<rparr>"

lemma demo_deps_sel [simp]:
  "queue demo_deps = demo_wq" "the_resolver demo_deps = NewResolver demo_clients"
  "api_IsNotFound demo_deps e \<longleftrightarrow> e = LibError ''not found''"
  "bindingLister_Get demo_deps n k = (case find (\<lambda>b. om_name (b_meta b) = n) (dc_bindings k) of
     None \<Rightarrow> Inl (LibError ''not found'') | Some b \<Rightarrow> Inr b)"
  "combinedStatusLister_Get demo_deps ns n k =
     (case find (\<lambda>cs. om_namespace (cs_meta cs) = ns \<and> om_name (cs_meta cs) = n)
        (dc_statuses k) of
        None \<Rightarrow> Inl (LibError ''not found'') | Some cs \<Rightarrow> Inr cs)"
  "MetaNamespaceKeyFunc demo_deps obj = (case as_metav1_Object obj of
     Panics p \<Rightarrow> Inl (LibError ''object has no meta'')
   | Returns m \<Rightarrow> Inr (if om_namespace m = [] then om_name m
       else om_namespace m @ ''/'' @ om_name m))"
  by (simp_all add: demo_deps_def)

lemma demo_split_key:
  "SplitMetaNamespaceKey demo_deps key =
     (case strings_Split key ''/'' of
        [n] \<Rightarrow> Inr ([], n) | [ns, n] \<Rightarrow> Inr (ns, n) | _ \<Rightarrow> Inl (LibError ''unexpected key''))"
  by (simp add: demo_deps_def)

lemma demo_index_lawful: "index_lawful demo_deps"
proof -
  have "\<exists>sbp. obj = SBPObject sbp \<and> sbp_name sbp = key"
    if "idx_GetByKey demo_indexer key k = (obj, True, err)" for key k obj err
    using that by (auto simp: demo_indexer_def find_Some_iff split: option.splits)
  moreover have "snd (snd (idx_GetByKey demo_indexer key k)) = None" for key k
    by (simp add: demo_indexer_def split: option.split)
  ultimately show ?thesis
    by (auto simp: index_lawful_def typed_indexer_def demo_deps_def
        NewStagedBindingPolicyLister_def) (auto simp: demo_indexer_def)
qed

lemma demo_controller_lawful: "controller_lawful demo_clients demo_deps demo_view"
  by (simp add: controller_lawful_def demo_queue_lawful demo_index_lawful)

lemma demo_lister_Get:
  "lister_Get (api_NewNotFound demo_deps) (sbpLister demo_deps) n k =
   Returns (case find (\<lambda>sbp. sbp_name sbp = n) (dc_policies k) of
      None \<Rightarrow> Inl (LibError ''not found'') | Some sbp \<Rightarrow> Inr sbp)"
  by (simp add: demo_deps_def lister_Get_def NewStagedBindingPolicyLister_def demo_indexer_def
      split: option.split)

lemma demo_content:
  "cached_content demo_deps k n =
     map_option policy_content (find (\<lambda>sbp. sbp_name sbp = n) (dc_policies k))"
  by (simp add: cached_content_def demo_deps_def NewStagedBindingPolicyLister_def demo_indexer_def
      split: option.split)

section \<open>A run of the workers\<close>

definition demo_empty_queue :: demo_queue where
  "demo_empty_queue = \<lparr>dq_items = [], dq_busy = [], dq_waits = [], dq_shut = False\<rparr>"

definition demo_pool0 :: "(demo_cache, demo_queue, demo_world resolver) pool" where
  "demo_pool0 =
     \<lparr>p_ctrl = \<lparr>c_cache = \<lparr>dc_policies = [], dc_bindings = [], dc_statuses = []\<rparr>,
        c_queue = demo_empty_queue, c_resolver = new_resolver demo_start\<rparr>,
      p_workers = (\<lambda>w. Idle), p_notes = {}\<rparr>"

lemma demo_pool_init: "pool_init demo_deps demo_view fresh_resolver demo_pool0"
  by (simp add: pool_init_def demo_pool0_def demo_empty_queue_def demo_content cached_def
      fresh_resolver_def new_resolver_def)

text \<open>The policy appears, is put on the queue, and worker 2 takes, reads, notes and ends it.\<close>

abbreviation demo_web :: work_item where
  "demo_web \<equiv> StagedBindingPolicyRef ''web''"

definition demo_full_cache :: demo_cache where
  "demo_full_cache = \<lparr>dc_policies = [demo_policy], dc_bindings = [], dc_statuses = []\<rparr>"

definition demo_pool ::
  "work_item list \<Rightarrow> work_item list \<Rightarrow> phase \<Rightarrow> work_item set \<Rightarrow> demo_world resolver \<Rightarrow>
   (demo_cache, demo_queue, demo_world resolver) pool" where
  "demo_pool items bs ph notes r =
     \<lparr>p_ctrl = \<lparr>c_cache = demo_full_cache,
        c_queue = demo_empty_queue\<lparr>dq_items := items, dq_busy := bs\<rparr>, c_resolver = r\<rparr>,
      p_workers = (\<lambda>w. Idle)(2 := ph), p_notes = notes\<rparr>"

abbreviation demo_step where
  "demo_step \<equiv> pool_step demo_deps demo_view api_change"

lemma demo_policy_name [simp]: "sbp_name demo_policy = ''web''"
  by (simp add: demo_policy_def)

lemma demo_run_informer:
  "demo_step demo_pool0 (demo_pool [] [] Idle {demo_web} (new_resolver demo_start))"
proof -
  have "demo_step demo_pool0 (demo_pool0\<lparr>p_ctrl := (p_ctrl demo_pool0)\<lparr>c_cache := demo_full_cache\<rparr>,
      p_notes := p_notes demo_pool0 \<union> {demo_web}\<rparr>)"
    by (rule pool_step.informer)
       (auto simp: demo_content demo_full_cache_def demo_pool0_def split: if_splits)
  then show ?thesis
    by (simp add: demo_pool_def demo_pool0_def demo_empty_queue_def fun_upd_idem)
qed

lemma demo_run_handler:
  "demo_step (demo_pool [] [] Idle {demo_web} r) (demo_pool [demo_web] [] Idle {} r)"
  using pool_step.handler [of demo_web "demo_pool [] [] Idle {demo_web} r" "{}" demo_deps demo_view
      api_change]
  by (simp add: demo_pool_def on_queue_def demo_empty_queue_def)

lemma demo_run_take:
  "demo_step (demo_pool [demo_web] [] Idle {} r) (demo_pool [] [demo_web] (Took demo_web) {} r)"
  using pool_take [of "demo_pool [demo_web] [] Idle {} r" 2 demo_deps demo_web
      "demo_empty_queue\<lparr>dq_items := [], dq_busy := [demo_web]\<rparr>" demo_view api_change]
  by (simp add: demo_pool_def demo_Get demo_empty_queue_def)

lemma demo_run_read:
  "demo_step (demo_pool [] [demo_web] (Took demo_web) {} r)
     (demo_pool [] [demo_web] (Fetched demo_web (FetchedPolicy demo_policy)) {} r)"
  using pool_read [of "demo_pool [] [demo_web] (Took demo_web) {} r" 2 demo_web demo_deps
      "FetchedPolicy demo_policy" demo_view api_change]
  by (simp add: demo_pool_def fetch_def demo_lister_Get demo_full_cache_def)

lemma demo_run_act:
  "demo_step (demo_pool [] [demo_web] (Fetched demo_web (FetchedPolicy demo_policy)) {}
       (new_resolver demo_start))
     (demo_pool [] [demo_web] (Applied demo_web None) {} demo_started)"
  using pool_act [of "demo_pool [] [demo_web] (Fetched demo_web (FetchedPolicy demo_policy)) {}
       (new_resolver demo_start)" 2 demo_web "FetchedPolicy demo_policy" demo_deps None
      "p_ctrl (demo_pool [] [demo_web] Idle {} demo_started)" demo_view api_change]
  by (simp add: demo_pool_def apply_fetched_def call_resolver_def demo_note)

lemma demo_run_finish:
  "demo_step (demo_pool [] [demo_web] (Applied demo_web None) {} r) (demo_pool [] [] Idle {} r)"
  using pool_finish [of "demo_pool [] [demo_web] (Applied demo_web None) {} r" 2 demo_web None
      demo_deps demo_view api_change]
  by (simp add: demo_pool_def finish_item_def on_queue_def demo_empty_queue_def)

lemma demo_run_taken:
  "demo_step\<^sup>*\<^sup>* demo_pool0
     (demo_pool [] [demo_web] (Took demo_web) {} (new_resolver demo_start))"
  by (meson demo_run_informer demo_run_handler demo_run_take rtranclp.rtrancl_into_rtrancl
      rtranclp.rtrancl_refl)

lemma demo_run_done: "demo_step\<^sup>*\<^sup>* demo_pool0 (demo_pool [] [] Idle {} demo_started)"
  by (meson demo_run_taken demo_run_read demo_run_act demo_run_finish
      rtranclp.rtrancl_into_rtrancl)

lemma demo_done_quiescent: "quiescent demo_view (demo_pool [] [] Idle {} r)"
  by (simp add: quiescent_def demo_pool_def demo_empty_queue_def fun_upd_idem)

end
