(* ===== verification/Event_System.thy ===== *)
theory Event_System
  imports Worker_Loop Event_Handlers
begin

text \<open>
  The composition of informers, event handlers and workers: the caches change one object at a
  time, each change puts an event into the first-in first-out queue of its type, and the
  handlers of \<open>controller.go\<close> take the events from there. The abstract notifications of
  \<open>Worker_Pool\<close> are what the events still in these queues ask for, and every run of the
  composition is a run of the pool.
\<close>

section \<open>The caches, and how events report their changes\<close>

definition policy_at ::
  "('sel, 'k, 'q, 's) controller_deps \<Rightarrow> 'k \<Rightarrow> string \<rightharpoonup> api_object" where
  "policy_at D k n =
     (case idx_GetByKey (l_indexer (sbpLister D)) n k of
        (obj, ex, err) \<Rightarrow> if ex then Some obj else None)"

definition binding_at ::
  "('sel, 'k, 'q, 's) controller_deps \<Rightarrow> 'k \<Rightarrow> string \<rightharpoonup> api_object" where
  "binding_at D k n =
     (case bindingLister_Get D n k of Inl err \<Rightarrow> None | Inr b \<Rightarrow> Some (BindingObject b))"

definition status_at ::
  "('sel, 'k, 'q, 's) controller_deps \<Rightarrow> 'k \<Rightarrow> string \<times> string \<rightharpoonup> api_object" where
  "status_at D k nsn =
     (case combinedStatusLister_Get D (fst nsn) (snd nsn) k of
        Inl err \<Rightarrow> None | Inr cs \<Rightarrow> Some (CombinedStatusObject cs))"

text \<open>
  The event of one change. A deletion may come as a tombstone; an update may be a mere
  resynchronisation, and after a gap in the watch it may hide that the object was deleted and
  made again.
\<close>

fun informs :: "('n \<rightharpoonup> api_object) \<Rightarrow> event \<Rightarrow> ('n \<rightharpoonup> api_object) \<Rightarrow> bool" where
  "informs before (Added obj) after \<longleftrightarrow> (\<exists>n. before n = None \<and> after = before(n \<mapsto> obj))"
| "informs before (Updated old new) after \<longleftrightarrow>
     (\<exists>n. before n = Some old \<and> after = before(n \<mapsto> new))"
| "informs before (Deleted obj) after \<longleftrightarrow>
     (\<exists>n. before n = Some (final_state obj) \<and> after = before(n := None))"

text \<open>
  The API server's promise: an update of a policy that leaves its generation alone leaves its
  spec alone. It does not cover a policy that was deleted and made again.
\<close>

fun generation_tells :: "event \<Rightarrow> bool" where
  "generation_tells (Updated (SBPObject s) (SBPObject s')) \<longleftrightarrow>
     (om_generation (sbp_meta s) = om_generation (sbp_meta s') \<longrightarrow>
      policy_content s = policy_content s')"
| "generation_tells _ \<longleftrightarrow> True"

section \<open>The composed system\<close>

record ('k, 'q, 's) event_crew = "('k, 'q, 's) crew" +
  e_policies :: "event list"
  e_bindings :: "event list"
  e_statuses :: "event list"

text \<open>
  \<open>tells\<close> restricts the events the policy informer may report. A handler that panics ends the
  process, so a run has only deliveries that return.
\<close>

inductive event_step ::
  "('sel, 'k, 'q, 's) controller_deps \<Rightarrow> 'q queue_view \<Rightarrow> ('s \<Rightarrow> 's \<Rightarrow> bool) \<Rightarrow>
   (event \<Rightarrow> bool) \<Rightarrow> ('k, 'q, 's) event_crew \<Rightarrow> ('k, 'q, 's) event_crew \<Rightarrow> bool"
  for D v api tells where
  crew: "crew_step D v api e e' \<Longrightarrow> event_step D v api tells e e'"
| policy_change: "informs (policy_at D (p_cache e)) ev (policy_at D k) \<Longrightarrow> tells ev \<Longrightarrow>
    binding_at D k = binding_at D (p_cache e) \<Longrightarrow> status_at D k = status_at D (p_cache e) \<Longrightarrow>
    event_step D v api tells e
      (e\<lparr>p_ctrl := (p_ctrl e)\<lparr>c_cache := k\<rparr>, e_policies := e_policies e @ [ev]\<rparr>)"
| binding_change: "informs (binding_at D (p_cache e)) ev (binding_at D k) \<Longrightarrow>
    policy_at D k = policy_at D (p_cache e) \<Longrightarrow> status_at D k = status_at D (p_cache e) \<Longrightarrow>
    event_step D v api tells e
      (e\<lparr>p_ctrl := (p_ctrl e)\<lparr>c_cache := k\<rparr>, e_bindings := e_bindings e @ [ev]\<rparr>)"
| status_change: "informs (status_at D (p_cache e)) ev (status_at D k) \<Longrightarrow>
    policy_at D k = policy_at D (p_cache e) \<Longrightarrow> binding_at D k = binding_at D (p_cache e) \<Longrightarrow>
    event_step D v api tells e
      (e\<lparr>p_ctrl := (p_ctrl e)\<lparr>c_cache := k\<rparr>, e_statuses := e_statuses e @ [ev]\<rparr>)"
| policy_event: "e_policies e = ev # evs \<Longrightarrow>
    handle (stagedBindingPolicyHandlers D) ev (p_ctrl e) = (Returns (), c) \<Longrightarrow>
    event_step D v api tells e (e\<lparr>p_ctrl := c, e_policies := evs\<rparr>)"
| binding_event: "e_bindings e = ev # evs \<Longrightarrow>
    handle (bindingHandlers D) ev (p_ctrl e) = (Returns (), c) \<Longrightarrow>
    event_step D v api tells e (e\<lparr>p_ctrl := c, e_bindings := evs\<rparr>)"
| status_event: "e_statuses e = ev # evs \<Longrightarrow>
    handle (combinedStatusHandlers D) ev (p_ctrl e) = (Returns (), c) \<Longrightarrow>
    event_step D v api tells e (e\<lparr>p_ctrl := c, e_statuses := evs\<rparr>)"

text \<open>What a queue of events asks for, and the pool that the system abstracts to.\<close>

definition demands ::
  "(api_object \<Rightarrow> object_meta option) \<Rightarrow> (api_object \<Rightarrow> work_item option) \<Rightarrow> event list \<Rightarrow>
   work_item set" where
  "demands meta ref evs = {i. \<exists>ev\<in>set evs. demanded meta ref ev = Some i}"

lemma demands_simps [simp]:
  "demands meta ref [] = {}"
  "demands meta ref (ev # evs) = set_option (demanded meta ref ev) \<union> demands meta ref evs"
  "demands meta ref (evs @ evs') = demands meta ref evs \<union> demands meta ref evs'"
  by (auto simp: demands_def)

definition asked ::
  "('sel, 'k, 'q, 's) controller_deps \<Rightarrow> ('k, 'q, 's) event_crew \<Rightarrow> work_item set" where
  "asked D e = demands policy_meta policy_item (e_policies e) \<union>
     demands binding_meta binding_item (e_bindings e) \<union>
     demands status_meta (status_item D) (e_statuses e)"

definition pool_of ::
  "('sel, 'k, 'q, 's) controller_deps \<Rightarrow> ('k, 'q, 's) event_crew \<Rightarrow> ('k, 'q, 's) pool" where
  "pool_of D e = \<lparr>p_ctrl = p_ctrl e, p_workers = p_workers e, p_notes = asked D e\<rparr>"

lemma pool_of_sel [simp]:
  "p_ctrl (pool_of D e) = p_ctrl e" "p_workers (pool_of D e) = p_workers e"
  "p_notes (pool_of D e) = asked D e"
  by (simp_all add: pool_of_def)

definition no_events :: "('k, 'q, 's) event_crew \<Rightarrow> bool" where
  "no_events e \<longleftrightarrow> e_policies e = [] \<and> e_bindings e = [] \<and> e_statuses e = []"

lemma no_events_asked: "no_events e \<Longrightarrow> asked D e = {}"
  by (simp add: no_events_def asked_def)

definition event_init ::
  "('sel, 'k, 'q, 's) controller_deps \<Rightarrow> 'q queue_view \<Rightarrow> ('s \<Rightarrow> bool) \<Rightarrow>
   ('k, 'q, 's) event_crew \<Rightarrow> bool" where
  "event_init D v sinit e \<longleftrightarrow> pool_init D v sinit (pool_of D e) \<and> no_events e"

text \<open>Nothing is left to do: idle workers, no undelivered events, an empty queue.\<close>

definition settled ::
  "'q queue_view \<Rightarrow> ('k, 'q, 's) event_crew \<Rightarrow> bool" where
  "settled v e \<longleftrightarrow> p_workers e = (\<lambda>w. Idle) \<and> no_events e \<and>
     pend v (p_queue e) = {} \<and> waits v (p_queue e) = {}"

lemma settled_quiescent: "settled v e \<Longrightarrow> quiescent v (pool_of D e)"
  by (simp add: settled_def quiescent_def no_events_asked)

section \<open>The composition refines the pool\<close>

lemma worker_step_abstract:
  assumes "worker_step D w e e'"
  shows "worker_step D w (pool_of D e) (pool_of D e')"
  using assms
proof cases
  case (take i q)
  then show ?thesis using worker_step.take [of "pool_of D e" w D i q]
    by (simp add: pool_of_def asked_def)
next
  case (read i f)
  then show ?thesis using worker_step.read [of "pool_of D e" w i D f]
    by (simp add: pool_of_def asked_def)
next
  case (act i f err c)
  then show ?thesis using worker_step.act [of "pool_of D e" w i f D err c]
    by (simp add: pool_of_def asked_def)
next
  case (finish i err)
  then show ?thesis using worker_step.finish [of "pool_of D e" w i err D]
    by (simp add: pool_of_def asked_def)
qed

lemma crew_step_abstract:
  assumes "crew_step D v api e e'"
  shows "crew_step D v api (pool_of D e) (pool_of D e')"
  using assms
proof cases
  case (work w)
  from crew_step.work [OF worker_step_abstract [OF this]] show ?thesis .
next
  case (backoff q)
  then show ?thesis using crew_step.backoff [of v q "pool_of D e" D api]
    by (simp add: pool_of_def asked_def)
next
  case (others s)
  then show ?thesis using crew_step.others [of api "pool_of D e" s D v]
    by (simp add: pool_of_def asked_def)
qed

lemma cached_content_at:
  "cached_content D k n =
     Option.bind (policy_at D k n)
       (\<lambda>obj. case obj of SBPObject sbp \<Rightarrow> Some (policy_content sbp) | _ \<Rightarrow> None)"
  by (simp add: cached_content_def policy_at_def split: prod.split)

lemma policy_at_typed:
  assumes "index_lawful D" "policy_at D k n = Some obj"
  obtains sbp where "obj = SBPObject sbp" "sbp_name sbp = n"
proof -
  from assms(2) obtain err where "idx_GetByKey (l_indexer (sbpLister D)) n k = (obj, True, err)"
    by (auto simp: policy_at_def split: prod.splits if_splits)
  with assms(1) have "\<exists>sbp. obj = SBPObject sbp \<and> sbp_name sbp = n"
    unfolding index_lawful_def typed_indexer_def by blast
  with that show thesis by blast
qed

lemma informs_change:
  assumes "informs before ev after" "after n \<noteq> before n"
  shows "case ev of Added obj \<Rightarrow> before n = None \<and> after n = Some obj
    | Updated old new \<Rightarrow> before n = Some old \<and> after n = Some new
    | Deleted obj \<Rightarrow> before n = Some (final_state obj) \<and> after n = None"
  using assms by (cases ev) (auto split: if_splits)

text \<open>Where the cache changes in content, the event asks for the policy's reference.\<close>

lemma change_demanded:
  assumes I: "index_lawful D" and inf: "informs (policy_at D k) ev (policy_at D k')"
    and "generation_tells ev" and ne: "cached_content D k' n \<noteq> cached_content D k n"
  shows "demanded policy_meta policy_item ev = Some (StagedBindingPolicyRef n)"
proof -
  have "policy_at D k' n \<noteq> policy_at D k n" using ne by (auto simp: cached_content_at)
  note at = informs_change [OF inf this]
  show ?thesis
  proof (cases ev)
    case (Added obj)
    with at have p: "policy_at D k' n = Some obj" by simp
    obtain s where "obj = SBPObject s" "sbp_name s = n" by (rule policy_at_typed [OF I p])
    with Added show ?thesis by simp
  next
    case (Deleted obj)
    with at have p: "policy_at D k n = Some (final_state obj)" by simp
    obtain s where "final_state obj = SBPObject s" "sbp_name s = n"
      by (rule policy_at_typed [OF I p])
    with Deleted show ?thesis by simp
  next
    case (Updated old new)
    with at have o: "policy_at D k n = Some old" and nw: "policy_at D k' n = Some new"
      by simp_all
    obtain s where s: "old = SBPObject s" "sbp_name s = n" by (rule policy_at_typed [OF I o])
    obtain s' where s': "new = SBPObject s'" "sbp_name s' = n" by (rule policy_at_typed [OF I nw])
    from ne o nw s s' have "policy_content s' \<noteq> policy_content s" by (simp add: cached_content_at)
    with assms(3) Updated s s' show ?thesis by auto
  qed
qed

text \<open>A delivery is a step of the pool's handlers, or invisible.\<close>

lemma delivery_abstract:
  assumes c: "p_ctrl e' = (case demand of
      None \<Rightarrow> p_ctrl e | Some i \<Rightarrow> on_queue (wq_Add (queue D) i) (p_ctrl e))"
    and same: "p_workers e' = p_workers e"
    and asked: "asked D e = set_option demand \<union> asked D e'"
  shows "(pool_step D v api)\<^sup>*\<^sup>* (pool_of D e) (pool_of D e')"
proof (cases demand)
  case None
  with assms have "pool_of D e' = pool_of D e" by (simp add: pool_of_def)
  then show ?thesis by simp
next
  case (Some i)
  with asked have "pool_step D v api (pool_of D e) ((pool_of D e)
      \<lparr>p_ctrl := on_queue (wq_Add (queue D) i) (p_ctrl (pool_of D e)), p_notes := asked D e'\<rparr>)"
    by (intro pool_step.handler) auto
  with Some c same show ?thesis by (auto simp: pool_of_def)
qed

lemma cache_abstract:
  assumes "\<And>n. cached_content D k n \<noteq> cached_content D (p_cache e) n \<Longrightarrow>
      StagedBindingPolicyRef n \<in> N"
    and "p_ctrl e' = (p_ctrl e)\<lparr>c_cache := k\<rparr>" and "p_workers e' = p_workers e"
    and "asked D e' = asked D e \<union> N"
  shows "(pool_step D v api)\<^sup>*\<^sup>* (pool_of D e) (pool_of D e')"
proof -
  have "pool_step D v api (pool_of D e) ((pool_of D e)\<lparr>p_ctrl := (p_ctrl (pool_of D e))
      \<lparr>c_cache := k\<rparr>, p_notes := p_notes (pool_of D e) \<union> N\<rparr>)"
    by (rule pool_step.informer) (simp add: assms(1))
  then show ?thesis using assms(2-) by (auto simp: pool_of_def)
qed

lemma event_step_abstract:
  assumes I: "index_lawful D" and tells: "\<And>ev. tells ev \<Longrightarrow> generation_tells ev"
    and "event_step D v api tells e e'"
  shows "(pool_step D v api)\<^sup>*\<^sup>* (pool_of D e) (pool_of D e')"
  using assms(3)
proof cases
  case crew
  from pool_step.crew [OF crew_step_abstract [OF this]] show ?thesis by auto
next
  case (policy_change ev k)
  show ?thesis
  proof (rule cache_abstract)
    show "StagedBindingPolicyRef n \<in> set_option (demanded policy_meta policy_item ev)"
      if "cached_content D k n \<noteq> cached_content D (p_cache e) n" for n
      using change_demanded [OF I policy_change(2) tells [OF policy_change(3)] that] by simp
  qed (auto simp: policy_change(1) asked_def)
next
  case (binding_change ev k)
  then have same: "cached_content D k n = cached_content D (p_cache e) n" for n
    by (simp add: cached_content_at)
  show ?thesis
    by (rule cache_abstract [where k = k and
          N = "set_option (demanded binding_meta binding_item ev)"])
       (auto simp: same binding_change(1) asked_def)
next
  case (status_change ev k)
  then have same: "cached_content D k n = cached_content D (p_cache e) n" for n
    by (simp add: cached_content_at)
  show ?thesis
    by (rule cache_abstract [where k = k and
          N = "set_option (demanded status_meta (status_item D) ev)"])
       (auto simp: same status_change(1) asked_def)
next
  case (policy_event ev evs c)
  show ?thesis
    by (rule delivery_abstract [where demand = "demanded policy_meta policy_item ev"])
       (use policy_events.handle_Returns [OF policy_event(3)] in
         \<open>auto simp: policy_event(1,2) asked_def\<close>)
next
  case (binding_event ev evs c)
  show ?thesis
    by (rule delivery_abstract [where demand = "demanded binding_meta binding_item ev"])
       (use binding_events.handle_Returns [OF binding_event(3)] in
         \<open>auto simp: binding_event(1,2) asked_def\<close>)
next
  case (status_event ev evs c)
  show ?thesis
    by (rule delivery_abstract [where demand = "demanded status_meta (status_item D) ev"])
       (use status_events.handle_Returns [OF status_event(3)] in
         \<open>auto simp: status_event(1,2) asked_def\<close>)
qed

interpretation event_pool: simulation "event_step D v api generation_tells" "pool_step D v api"
  "\<lambda>e p. index_lawful D \<and> p = pool_of D e"
  by unfold_locales (auto intro: event_step_abstract)

lemma event_run_abstract:
  assumes "index_lawful D" "(event_step D v api generation_tells)\<^sup>*\<^sup>* e0 e"
  shows "(pool_step D v api)\<^sup>*\<^sup>* (pool_of D e0) (pool_of D e)"
  using event_pool.steps_simulated [OF assms(2), of "pool_of D e0"] assms(1) by blast

end
