(* ===== verification/Event_Delivery.thy ===== *)
theory Event_Delivery
  imports Event_System
begin

text \<open>
  What becomes of one event in the composed system: its reference is not lost before a worker
  has read the cache for it and handed what it read to the resolver; and the one kind of change
  that asks for nothing although it should.
\<close>

section \<open>Reading and acting\<close>

text \<open>Worker \<open>w\<close> reads the cache for item \<open>i\<close>; it hands what it read to the resolver.\<close>

definition reads ::
  "('sel, 'k, 'q, 's) controller_deps \<Rightarrow> nat \<Rightarrow> work_item \<Rightarrow> fetched \<Rightarrow>
   ('k, 'q, 's, 'z) crew_scheme \<Rightarrow> ('k, 'q, 's, 'z) crew_scheme \<Rightarrow> bool" where
  "reads D w i f e e' \<longleftrightarrow> p_workers e w = Took i \<and> fetch D i (p_cache e) = Returns f \<and>
     e' = e\<lparr>p_workers := (p_workers e)(w := Fetched i f)\<rparr>"

definition acts ::
  "('sel, 'k, 'q, 's) controller_deps \<Rightarrow> nat \<Rightarrow> work_item \<Rightarrow> fetched \<Rightarrow>
   ('k, 'q, 's, 'z) crew_scheme \<Rightarrow> ('k, 'q, 's, 'z) crew_scheme \<Rightarrow> bool" where
  "acts D w i f e e' \<longleftrightarrow> p_workers e w = Fetched i f \<and>
     (\<exists>err c. apply_fetched D f (p_ctrl e) = (Returns err, c) \<and>
        e' = e\<lparr>p_ctrl := c, p_workers := (p_workers e)(w := Applied i err)\<rparr>)"

section \<open>What a step does to an item\<close>

text \<open>An item that is to be processed, now or later, or that a worker has just taken.\<close>

definition on_the_way ::
  "'q queue_view \<Rightarrow> work_item \<Rightarrow> ('k, 'q, 's, 'z) crew_scheme \<Rightarrow> bool" where
  "on_the_way v i e \<longleftrightarrow> i \<in> pend v (p_queue e) \<union> waits v (p_queue e) \<or>
     (\<exists>w. p_workers e w = Took i)"

lemma finish_item_views:
  assumes Q: "queue_lawful (queue D) v"
  shows "pend v (c_queue st) \<union> waits v (c_queue st) \<subseteq>
      pend v (c_queue (finish_item D i err st)) \<union> waits v (c_queue (finish_item D i err st))"
    and "shut v (c_queue (finish_item D i err st)) = shut v (c_queue st)"
  using AddRateLimited_views [OF Q, where i = i and q = "c_queue st"]
  by (cases err; auto simp: finish_item_def Done_views [OF Q] Forget_views [OF Q] split: if_splits)+

lemma worker_step_shut:
  assumes Q: "queue_lawful (queue D) v" and "worker_step D w e e'"
  shows "shut v (p_queue e') = shut v (p_queue e)"
  using assms(2)
proof cases
  case (take i q)
  with Get_item [OF Q take(3)] show ?thesis by simp
next
  case (act i f err c)
  with apply_fetched_frame [of D f "p_ctrl e"] show ?thesis by simp
qed (simp_all add: finish_item_views [OF Q])

lemma crew_step_shut:
  assumes Q: "queue_lawful (queue D) v" and "crew_step D v api e e'"
  shows "shut v (p_queue e') = shut v (p_queue e)"
  using assms(2)
proof cases
  case (work w)
  with worker_step_shut [OF Q] show ?thesis by blast
qed simp_all

lemma on_the_way_queue:
  "i \<in> pend v (p_queue e) \<union> waits v (p_queue e) \<Longrightarrow> on_the_way v i e"
  by (simp add: on_the_way_def)

lemma on_the_way_worker: "p_workers e w = Took i \<Longrightarrow> on_the_way v i e"
  by (auto simp: on_the_way_def)

lemma on_the_way_upd:
  assumes "on_the_way v i e" and "p_workers e w \<noteq> Took i"
    and "p_workers e' = (p_workers e)(w := ph)"
    and "i \<in> pend v (p_queue e) \<union> waits v (p_queue e) \<Longrightarrow>
      i \<in> pend v (p_queue e') \<union> waits v (p_queue e')"
  shows "on_the_way v i e'"
proof (cases "i \<in> pend v (p_queue e) \<union> waits v (p_queue e)")
  case True
  from on_the_way_queue [OF assms(4) [OF this]] show ?thesis .
next
  case False
  with assms(1) obtain w' where w': "p_workers e w' = Took i" by (auto simp: on_the_way_def)
  with assms(2) have "w' \<noteq> w" by auto
  with w' assms(3) have "p_workers e' w' = Took i" by simp
  then show ?thesis by (rule on_the_way_worker)
qed

lemma worker_step_on_the_way:
  assumes Q: "queue_lawful (queue D) v" and "worker_step D w e e'" and o: "on_the_way v i e"
  shows "on_the_way v i e' \<or> (\<exists>f. reads D w i f e e')"
  using assms(2)
proof cases
  case (take j q)
  have "on_the_way v i e'"
  proof (cases "j = i")
    case True
    with take(1) have "p_workers e' w = Took i" by simp
    then show ?thesis by (rule on_the_way_worker)
  next
    case False
    show ?thesis
      by (rule on_the_way_upd [OF o, where w = w and ph = "Took j"])
         (use take False Get_item [OF Q take(3)] in simp_all)
  qed
  then show ?thesis ..
next
  case (read j f)
  show ?thesis
  proof (cases "j = i")
    case True
    with read have "reads D w i f e e'" by (simp add: reads_def)
    then show ?thesis by blast
  next
    case False
    have "on_the_way v i e'"
      by (rule on_the_way_upd [OF o, where w = w and ph = "Fetched j f"])
         (use read False in simp_all)
    then show ?thesis ..
  qed
next
  case (act j f err c)
  have "on_the_way v i e'"
    by (rule on_the_way_upd [OF o, where w = w and ph = "Applied j err"])
       (use act apply_fetched_frame [of D f "p_ctrl e"] in simp_all)
  then show ?thesis ..
next
  case (finish j err)
  have "on_the_way v i e'"
    by (rule on_the_way_upd [OF o, where w = w and ph = Idle])
       (use finish finish_item_views(1) [OF Q, of "p_ctrl e" j err] in auto)
  then show ?thesis ..
qed

lemma crew_step_on_the_way:
  assumes Q: "queue_lawful (queue D) v" and "crew_step D v api e e'" and o: "on_the_way v i e"
  shows "on_the_way v i e' \<or> (\<exists>w f. reads D w i f e e')"
  using assms(2)
proof cases
  case (work w)
  from worker_step_on_the_way [OF Q work o] show ?thesis by blast
qed (use o in \<open>simp_all add: on_the_way_def\<close>)

lemma worker_step_fetched:
  assumes "worker_step D w' e e'" and "p_workers e w = Fetched i f"
  shows "p_workers e' w = Fetched i f \<or> acts D w i f e e'"
  using assms(1)
proof cases
  case (act j g err c)
  with assms(2) show ?thesis by (cases "w' = w") (auto simp: acts_def)
qed (use assms(2) in auto)

lemma crew_step_fetched:
  assumes "crew_step D v api e e'" and "p_workers e w = Fetched i f"
  shows "p_workers e' w = Fetched i f \<or> acts D w i f e e'"
  using assms(1)
proof cases
  case (work w')
  from worker_step_fetched [OF work assms(2)] show ?thesis .
qed (use assms(2) in simp_all)

section \<open>No event is lost\<close>

definition owed ::
  "('sel, 'k, 'q, 's) controller_deps \<Rightarrow> 'q queue_view \<Rightarrow> work_item \<Rightarrow>
   ('k, 'q, 's) event_crew \<Rightarrow> bool" where
  "owed D v i e \<longleftrightarrow> i \<in> asked D e \<or> on_the_way v i e"

lemma crew_step_asked: "crew_step D v api e e' \<Longrightarrow> asked D e' = asked D e"
  by (erule crew_step.cases) (auto simp: asked_def elim!: worker_step.cases)

lemma event_step_shut:
  assumes Q: "queue_lawful (queue D) v" and "event_step D v api tells e e'"
  shows "shut v (p_queue e') = shut v (p_queue e)"
  using assms(2)
proof cases
  case crew
  with crew_step_shut [OF Q] show ?thesis by blast
next
  case (policy_event ev evs c)
  with policy_events.handle_Returns [OF policy_event(3)] Add_views(4) [OF Q]
  show ?thesis by (auto split: option.splits)
next
  case (binding_event ev evs c)
  with binding_events.handle_Returns [OF binding_event(3)] Add_views(4) [OF Q]
  show ?thesis by (auto split: option.splits)
next
  case (status_event ev evs c)
  with status_events.handle_Returns [OF status_event(3)] Add_views(4) [OF Q]
  show ?thesis by (auto split: option.splits)
qed simp_all

text \<open>A delivery moves an item from the events to the queue.\<close>

lemma delivery_owed:
  assumes Q: "queue_lawful (queue D) v" and ns: "\<not> shut v (p_queue e)"
    and c: "p_ctrl e' = (case demand of
      None \<Rightarrow> p_ctrl e | Some i \<Rightarrow> on_queue (wq_Add (queue D) i) (p_ctrl e))"
    and same: "p_workers e' = p_workers e"
    and asked: "asked D e = set_option demand \<union> asked D e'" and o: "owed D v i e"
  shows "owed D v i e'"
proof (cases demand)
  case None
  with assms show ?thesis by (simp add: owed_def on_the_way_def)
next
  case (Some j)
  with c Add_views [OF Q, of j "p_queue e"] ns
  have "pend v (p_queue e') = insert j (pend v (p_queue e))"
    "waits v (p_queue e') = waits v (p_queue e)" by simp_all
  with o asked same Some show ?thesis by (auto simp: owed_def on_the_way_def)
qed

lemma event_step_owed:
  assumes Q: "queue_lawful (queue D) v" and ns: "\<not> shut v (p_queue e)"
    and step: "event_step D v api tells e e'" and o: "owed D v i e"
  shows "owed D v i e' \<or> (\<exists>w f. reads D w i f e e')"
  using step
proof cases
  case crew
  with o crew_step_on_the_way [OF Q crew] crew_step_asked [OF crew] show ?thesis
    by (auto simp: owed_def)
next
  case (policy_event ev evs c)
  have "owed D v i e'"
    by (rule delivery_owed [OF Q ns _ _ _ o, where demand = "demanded policy_meta policy_item ev"])
       (use policy_events.handle_Returns [OF policy_event(3)] in
         \<open>auto simp: policy_event(1,2) asked_def\<close>)
  then show ?thesis ..
next
  case (binding_event ev evs c)
  have "owed D v i e'"
    by (rule delivery_owed [OF Q ns _ _ _ o, where demand = "demanded binding_meta binding_item ev"])
       (use binding_events.handle_Returns [OF binding_event(3)] in
         \<open>auto simp: binding_event(1,2) asked_def\<close>)
  then show ?thesis ..
next
  case (status_event ev evs c)
  have "owed D v i e'"
    by (rule delivery_owed [OF Q ns _ _ _ o,
          where demand = "demanded status_meta (status_item D) ev"])
       (use status_events.handle_Returns [OF status_event(3)] in
         \<open>auto simp: status_event(1,2) asked_def\<close>)
  then show ?thesis ..
qed (use o in \<open>auto simp: owed_def on_the_way_def asked_def\<close>)

lemma event_step_fetched:
  assumes "event_step D v api tells e e'" and "p_workers e w = Fetched i f"
  shows "p_workers e' w = Fetched i f \<or> acts D w i f e e'"
  using assms(1)
proof cases
  case crew
  from crew_step_fetched [OF crew assms(2)] show ?thesis .
qed (use assms(2) in simp_all)

lemma settled_owed: "settled v e \<Longrightarrow> \<not> owed D v i e"
  by (simp add: settled_def owed_def on_the_way_def no_events_asked)

lemma owed_is_processed:
  assumes Q: "queue_lawful (queue D) v" and "\<not> shut v (p_queue e)" and "owed D v i e"
    and run: "(event_step D v api tells)\<^sup>*\<^sup>* e e'" and s: "settled v e'"
  shows "\<exists>a b x y w f. (event_step D v api tells)\<^sup>*\<^sup>* e a \<and> reads D w i f a b \<and>
    (event_step D v api tells)\<^sup>*\<^sup>* b x \<and> acts D w i f x y \<and> (event_step D v api tells)\<^sup>*\<^sup>* y e'"
proof -
  let ?step = "event_step D v api tells"
  have "\<exists>a b. ?step\<^sup>*\<^sup>* e a \<and> (\<exists>w f. reads D w i f a b) \<and> \<not> shut v (p_queue a) \<and>
      \<not> shut v (p_queue b) \<and> ?step\<^sup>*\<^sup>* b e'"
    by (rule event_in_run [OF run, where owes = "owed D v i"])
       (use assms(2,3) settled_owed [OF s] event_step_owed [OF Q] event_step_shut [OF Q] in auto)
  then obtain a b w f where a: "?step\<^sup>*\<^sup>* e a" and r: "reads D w i f a b" and b: "?step\<^sup>*\<^sup>* b e'"
    by blast
  have fb: "p_workers b w = Fetched i f" using r by (auto simp: reads_def)
  have fe: "p_workers e' w \<noteq> Fetched i f" using s by (simp add: settled_def)
  have "\<exists>x y. ?step\<^sup>*\<^sup>* b x \<and> acts D w i f x y \<and> True \<and> True \<and> ?step\<^sup>*\<^sup>* y e'"
    by (rule event_in_run [OF b fb _ fe, where ok = "\<lambda>_. True"])
       (auto dest: event_step_fetched)
  with a r show ?thesis by blast
qed

section \<open>The way of a combined status\<close>

text \<open>
  What client-go documents of the two key functions: the key of an API object splits into its
  namespace and name, neither of which has a slash.
\<close>

definition key_lawful :: "('sel, 'k, 'q, 's) controller_deps \<Rightarrow> bool" where
  "key_lawful D \<longleftrightarrow>
     (\<forall>obj m. as_metav1_Object obj = Returns m \<longrightarrow>
        CHR ''/'' \<notin> set (om_namespace m) \<union> set (om_name m) \<longrightarrow>
        (\<exists>key. MetaNamespaceKeyFunc D obj = Inr key \<and>
           SplitMetaNamespaceKey D key = Inr (om_namespace m, om_name m)))"

lemma status_item_key:
  assumes "key_lawful D"
    and "CHR ''/'' \<notin> set (om_namespace (cs_meta cs)) \<union> set (om_name (cs_meta cs))"
  obtains key where "status_item D (CombinedStatusObject cs) = Some (CombinedStatusRef key)"
    and "SplitMetaNamespaceKey D key = Inr (om_namespace (cs_meta cs), om_name (cs_meta cs))"
proof -
  have "as_metav1_Object (CombinedStatusObject cs) = Returns (cs_meta cs)" by simp
  with assms obtain key where "MetaNamespaceKeyFunc D (CombinedStatusObject cs) = Inr key"
    "SplitMetaNamespaceKey D key = Inr (om_namespace (cs_meta cs), om_name (cs_meta cs))"
    unfolding key_lawful_def by blast
  with that show thesis by (simp add: status_item_def)
qed

text \<open>What a worker reads for a key, and what it then does with the resolver.\<close>

lemma status_fetched:
  assumes key: "SplitMetaNamespaceKey D key = Inr (ns, nm)"
    and f: "fetch D (CombinedStatusRef key) k = Returns f"
  shows "case combinedStatusLister_Get D ns nm k of
      Inr cs \<Rightarrow> f = FetchedStatus cs | Inl err \<Rightarrow> f = Skipped \<or> (\<exists>e. f = Failed e)"
  using f by (auto simp: fetch_def key split: sum.splits if_splits)

lemma status_acted:
  assumes R: "the_resolver D = NewResolver c" and key: "SplitMetaNamespaceKey D key = Inr (ns, nm)"
    and "reads D w (CombinedStatusRef key) f a b" and act: "acts D w (CombinedStatusRef key) f x y"
  shows "case combinedStatusLister_Get D ns nm (p_cache a) of
      Inr cs \<Rightarrow> NoteCombinedStatus c cs (p_resolver x) = (Returns (), p_resolver y)
    | Inl err \<Rightarrow> p_resolver y = p_resolver x"
proof -
  have f: "fetch D (CombinedStatusRef key) (p_cache a) = Returns f"
    using assms(3) by (simp add: reads_def)
  obtain err s where ap: "apply_fetched D f (p_ctrl x) = (Returns err, s)" and y: "p_ctrl y = s"
    using act by (auto simp: acts_def)
  show ?thesis
  proof (cases "combinedStatusLister_Get D ns nm (p_cache a)")
    case (Inl e)
    with status_fetched [OF key f] ap y show ?thesis by (auto simp: apply_fetched_def)
  next
    case (Inr cs)
    with status_fetched [OF key f] have f: "f = FetchedStatus cs" by simp
    obtain out r where n: "NoteCombinedStatus c cs (p_resolver x) = (out, r)" by fastforce
    with ap f R have "out = Returns () \<and> s = (p_ctrl x)\<lparr>c_resolver := r\<rparr>"
      by (cases out) (auto simp: apply_fetched_def call_resolver_def)
    with n y Inr show ?thesis by simp
  qed
qed

section \<open>A change that asks for nothing\<close>

text \<open>
  An update that keeps the generation is delivered without effect, whatever else it changes.
\<close>

lemma silent_update:
  assumes "settled v e" and "policy_at D (p_cache e) n = Some (SBPObject old)"
    and "policy_at D k = (policy_at D (p_cache e))(n \<mapsto> SBPObject new)"
    and "binding_at D k = binding_at D (p_cache e)" "status_at D k = status_at D (p_cache e)"
    and gen: "om_generation (sbp_meta old) = om_generation (sbp_meta new)"
  defines "e' \<equiv> e\<lparr>p_ctrl := (p_ctrl e)\<lparr>c_cache := k\<rparr>\<rparr>"
  shows "(event_step D v api (\<lambda>_. True))\<^sup>*\<^sup>* e e' \<and> settled v e'"
proof -
  let ?ev = "Updated (SBPObject old) (SBPObject new)"
  let ?e1 = "e\<lparr>p_ctrl := (p_ctrl e)\<lparr>c_cache := k\<rparr>, e_policies := e_policies e @ [?ev]\<rparr>"
  have np: "e_policies e = []" using assms(1) by (simp add: settled_def no_events_def)
  have "event_step D v api (\<lambda>_. True) e ?e1"
    by (rule event_step.policy_change) (use assms(2-5) in auto)
  moreover have "event_step D v api (\<lambda>_. True) ?e1
      (?e1\<lparr>p_ctrl := p_ctrl ?e1, e_policies := []\<rparr>)"
    by (rule event_step.policy_event [where ev = ?ev])
       (use np policy_events.same_generation [of "SBPObject old" "sbp_meta old" "SBPObject new"
          "sbp_meta new", OF _ _ gen] in simp_all)
  moreover have "?e1\<lparr>p_ctrl := p_ctrl ?e1, e_policies := []\<rparr> = e'" using np by (simp add: e'_def)
  ultimately have "(event_step D v api (\<lambda>_. True))\<^sup>*\<^sup>* e e'"
    by (metis converse_rtranclp_into_rtranclp rtranclp.rtrancl_refl)
  moreover have "settled v e'" using assms(1) by (simp add: settled_def no_events_def e'_def)
  ultimately show ?thesis ..
qed

end
