(* ===== verification/System_Rollout.thy ===== *)
theory System_Rollout
  imports Event_Delivery Rollout_Faults
begin

text \<open>
  The rollout in the composed system: every run of informers, handlers and workers is, as the
  resolver sees it, a run of the resolver, so what holds of all its runs (\<open>Rollout_System\<close>) holds
  whatever the interleaving; and a step of the system that moves a policy on.
\<close>

section \<open>What the resolver sees of a step\<close>

text \<open>The call of the resolver that a worker makes with what it read from the cache.\<close>

inductive resolver_call ::
  "('ast, 'prog, 'w) clients \<Rightarrow> fetched \<Rightarrow> 'w resolver \<Rightarrow> 'w resolver \<Rightarrow> bool" for c where
  policy: "NoteStagedBindingPolicy c sbp r = (Returns err, r') \<Longrightarrow>
    resolver_call c (FetchedPolicy sbp) r r'"
| missing: "DeleteStagedBindingPolicy n r = (Returns (), r') \<Longrightarrow>
    resolver_call c (MissingPolicy n) r r'"
| binding: "NoteBinding c b r = (Returns (), r') \<Longrightarrow> resolver_call c (FetchedBinding b) r r'"
| status: "NoteCombinedStatus c cs r = (Returns (), r') \<Longrightarrow> resolver_call c (FetchedStatus cs) r r'"
| skipped: "resolver_call c Skipped r r"
| failed: "resolver_call c (Failed err) r r"

lemma call_resolver_Returns:
  assumes "st_bind (call_resolver f st) (\<lambda>x s. (Returns (g x), s)) = (Returns y, st')"
  shows "\<exists>x. f (c_resolver st) = (Returns x, c_resolver st')"
proof -
  obtain out s where f: "f (c_resolver st) = (out, s)" by fastforce
  with assms show ?thesis by (cases out) (auto simp: call_resolver_def)
qed

lemma acts_call:
  assumes "the_resolver D = NewResolver c" and "acts D w i f e e'"
  shows "resolver_call c f (p_resolver e) (p_resolver e')"
proof -
  from assms(2) obtain err st where ap: "apply_fetched D f (p_ctrl e) = (Returns err, st)"
    and r: "p_resolver e' = c_resolver st" by (auto simp: acts_def)
  show ?thesis
    using ap unfolding r
    by (cases f)
       (auto simp: apply_fetched_def assms(1) intro: resolver_call.intros
          dest!: call_resolver_Returns)
qed

lemma event_step_seen:
  assumes "event_step D v api tells e e'"
  shows "p_resolver e' = p_resolver e \<or> api (p_resolver e) (p_resolver e') \<or>
    (\<exists>w i f. acts D w i f e e')"
  using assms
proof cases
  case crew
  then show ?thesis
  proof cases
    case (work w)
    then show ?thesis
    proof cases
      case (act i f err c)
      then have "acts D w i f e e'" by (auto simp: acts_def)
      then show ?thesis by blast
    qed (auto simp: finish_item_def on_queue_def)
  qed auto
next
  case (policy_event ev evs c)
  then show ?thesis
    using policy_events.handle_Returns [OF policy_event(3)]
    by (auto simp: on_queue_def split: option.splits)
next
  case (binding_event ev evs c)
  then show ?thesis
    using binding_events.handle_Returns [OF binding_event(3)]
    by (auto simp: on_queue_def split: option.splits)
next
  case (status_event ev evs c)
  then show ?thesis
    using status_events.handle_Returns [OF status_event(3)]
    by (auto simp: on_queue_def split: option.splits)
qed auto

text \<open>
  Every run of the system is a run of the resolver among other actors, so the resolver's
  invariant holds in every state the system reaches.
\<close>

lemma event_step_resolver:
  assumes R: "the_resolver D = NewResolver c" and "event_step D v api_change tells e e'"
  shows "(resolver_step c)\<^sup>*\<^sup>* (p_resolver e) (p_resolver e')"
proof -
  from event_step_seen [OF assms(2)] consider
      (same) "p_resolver e' = p_resolver e"
    | (others) "api_change (p_resolver e) (p_resolver e')"
    | (act) w i f where "acts D w i f e e'" by blast
  then show ?thesis
  proof cases
    case same
    then show ?thesis by simp
  next
    case others
    then have "p_resolver e' = (p_resolver e)\<lparr>world := world (p_resolver e')\<rparr>"
      by (simp add: api_change_def)
    then show ?thesis by (metis r_into_rtranclp resolver_step.environment)
  next
    case act
    from acts_call [OF R act] show ?thesis by cases (auto intro: resolver_step.intros)
  qed
qed

interpretation seen_system: simulation "event_step D v api_change tells" "resolver_step c"
  "\<lambda>e r. the_resolver D = NewResolver c \<and> r = p_resolver e"
  by unfold_locales (auto intro: event_step_resolver)

lemma system_tracked_ok:
  assumes "the_resolver D = NewResolver c" and "fresh_resolver (p_resolver e0)"
    and "(event_step D v api_change tells)\<^sup>*\<^sup>* e0 e"
  shows "tracked_ok (p_resolver e)"
proof -
  have "(resolver_step c)\<^sup>*\<^sup>* (p_resolver e0) (p_resolver e)"
    using seen_system.steps_simulated [OF assms(3), of c "p_resolver e0"] assms(1) by blast
  from tracked.reachable_inv [OF _ this] assms(2) show ?thesis by (auto simp: fresh_resolver_def)
qed

section \<open>Managed runs of the system\<close>

text \<open>
  The other actors may remove the BindingPolicies of stages but not create them, and whenever a
  worker notes a policy, it does so in step with what is deployed at that moment.
\<close>

definition others_remove ::
  "('w \<Rightarrow> string \<Rightarrow> bool) \<Rightarrow> 'w resolver \<Rightarrow> 'w resolver \<Rightarrow> bool" where
  "others_remove dep r s \<longleftrightarrow> (\<exists>w. s = r\<lparr>world := w\<rparr> \<and> (\<forall>x. dep w x \<longrightarrow> dep (world r) x))"

inductive managed_event_step ::
  "('sel, 'k, 'q, 'w resolver) controller_deps \<Rightarrow> 'q queue_view \<Rightarrow> ('w \<Rightarrow> string \<Rightarrow> bool) \<Rightarrow>
   (event \<Rightarrow> bool) \<Rightarrow> ('k, 'q, 'w resolver) event_crew \<Rightarrow> ('k, 'q, 'w resolver) event_crew \<Rightarrow> bool"
  for D v dep tells where
  managed: "event_step D v (others_remove dep) tells e e' \<Longrightarrow>
    (\<And>w i sbp. acts D w i (FetchedPolicy sbp) e e' \<Longrightarrow> noted_in_step dep sbp (p_resolver e)) \<Longrightarrow>
    managed_event_step D v dep tells e e'"

lemma managed_call:
  assumes "resolver_call c f r r'" and "\<And>sbp. f = FetchedPolicy sbp \<Longrightarrow> noted_in_step dep sbp r"
  shows "(managed_step c dep)\<^sup>*\<^sup>* r r'"
  using assms
  by cases (auto intro: managed_step.note_sbp managed_step.delete_sbp managed_step.note_binding
      managed_step.note_cs)

lemma managed_event_step_seen:
  assumes R: "the_resolver D = NewResolver c" and "managed_event_step D v dep tells e e'"
  shows "(managed_step c dep)\<^sup>*\<^sup>* (p_resolver e) (p_resolver e')"
  using assms(2)
proof cases
  case managed
  from event_step_seen [OF managed(1)] consider
      (same) "p_resolver e' = p_resolver e"
    | (others) "others_remove dep (p_resolver e) (p_resolver e')"
    | (act) w i f where "acts D w i f e e'" by blast
  then show ?thesis
  proof cases
    case same
    then show ?thesis by simp
  next
    case others
    then show ?thesis by (auto simp: others_remove_def intro!: r_into_rtranclp managed_step.environment)
  next
    case act
    show ?thesis
      by (rule managed_call [OF acts_call [OF R act]]) (use act managed(2) in blast)
  qed
qed

interpretation managed_system: simulation "managed_event_step D v dep tells" "managed_step c dep"
  "\<lambda>e r. the_resolver D = NewResolver c \<and> r = p_resolver e"
  by unfold_locales (auto intro: managed_event_step_seen)

lemma managed_system_run:
  assumes "the_resolver D = NewResolver c" and "(managed_event_step D v dep tells)\<^sup>*\<^sup>* e0 e"
  shows "(managed_step c dep)\<^sup>*\<^sup>* (p_resolver e0) (p_resolver e)"
  using managed_system.steps_simulated [OF assms(2), of c "p_resolver e0"] assms(1) by blast

section \<open>Moving on\<close>

text \<open>Policy \<open>n\<close> moves on: its stage is fulfilled, and the next one is deployed, call by call.\<close>

definition moves_on ::
  "('ast, 'prog, 'w) clients \<Rightarrow> string \<Rightarrow> stagedBindingPolicyData \<Rightarrow> 'w resolver \<Rightarrow>
   'w resolver \<Rightarrow> bool" where
  "moves_on c n d r r' \<longleftrightarrow> stageFulfilled c (world r) n d \<and>
     deployment c n (next_stage d)
       (r\<lparr>stagedBindingPolicies := (stagedBindingPolicies r)(n \<mapsto> next_stage d)\<rparr>) r'"

lemma attempt_moves_on:
  assumes objs: "ranges_objs c" and d: "stagedBindingPolicies r n = Some d"
    and res: "attemptConditionLocked c n r = (Returns u, r')"
    and d': "stagedBindingPolicies r' n = Some d'" and ne: "d_activeIndex d' \<noteq> d_activeIndex d"
  shows "d_activeIndex d' = Suc (d_activeIndex d) \<and> moves_on c n d r r'"
proof -
  let ?r = "r\<lparr>stagedBindingPolicies := (stagedBindingPolicies r)(n \<mapsto> next_stage d)\<rparr>"
  have "r' \<noteq> r" using d d' ne by auto
  with attempt_sound [OF objs d] res have ful: "stageFulfilled c (world r) n d"
    and up: "stageUpLocked c n r = (Returns u, r')" by auto
  then have i: "d_activeIndex d < length (d_stages d)" by (simp add: stageFulfilled_def)
  obtain out r2 where ens: "ensureActiveStageLocked c n ?r = (out, r2)" by fastforce
  have dr: "stagedBindingPolicies ?r n = Some (next_stage d)" by simp
  obtain u' where u': "stagedBindingPolicies r2 n =
      Some ((next_stage d)\<lparr>d_activeBindingPolicyUID := u'\<rparr>)"
    using ensureActive_entries [OF dr, of c] ens by auto
  have out: "out = Returns None"
  proof (rule ccontr)
    assume "out \<noteq> Returns None"
    with up ens obtain e where "out = Returns (Some e)"
      by (cases out) (auto simp: stageUp_eq [OF d i] split: option.splits)
    then have "r' = update_entry n (\<lambda>d. d\<lparr>d_activeIndex := d_activeIndex d - 1\<rparr>) r2"
      using up ens by (simp add: stageUp_eq [OF d i])
    with u' d' ne show False by (auto simp: update_entry_def)
  qed
  then have "r' = r2" using up ens by (simp add: stageUp_eq [OF d i])
  moreover have "deployment c n (next_stage d) ?r r2"
    using ens out ensureActive_ok [OF dr, of c r2] i by simp
  ultimately show ?thesis using ful u' d' by (auto simp: moves_on_def)
qed

text \<open>
  One call of the resolver that changes the active stage of a policy: the policy itself was
  noted, or a Binding or a combined status that belongs to it, and then it moves on.
\<close>

lemma call_moves_on:
  assumes keys: "ranges_keys c" and objs: "ranges_objs c"
    and fin: "finite (dom (stagedBindingPolicies r))"
    and call: "resolver_call c f r r'"
    and d: "stagedBindingPolicies r n = Some d" and d': "stagedBindingPolicies r' n = Some d'"
    and ne: "d_activeIndex d' \<noteq> d_activeIndex d"
  shows "(\<exists>sbp. f = FetchedPolicy sbp \<and> sbp_name sbp = n) \<or>
    d_activeIndex d' = Suc (d_activeIndex d) \<and>
    ((\<exists>b. f = FetchedBinding b \<and> associatedName (om_name (b_meta b)) = Some n \<and>
        d_activeBindingPolicyUID d = ownerUID b \<and>
        moves_on c n (d\<lparr>d_bindingSpec := b_spec b\<rparr>)
          (update_entry n (\<lambda>d. d\<lparr>d_bindingSpec := b_spec b\<rparr>) r) r') \<or>
     (\<exists>cs. f = FetchedStatus cs \<and> associatedName (bindingPolicyLabel cs) = Some n \<and>
        moves_on c n d r r'))"
  using call
proof cases
  case (policy sbp err)
  show ?thesis
  proof (cases "sbp_name sbp = n")
    case False
    then have "stagedBindingPolicies r' n = stagedBindingPolicies r n"
      using note_entries [OF policy(2)] by auto
    with d d' ne show ?thesis by simp
  qed (simp add: policy(1))
next
  case (missing m)
  with d d' ne show ?thesis
    by (auto simp: DeleteStagedBindingPolicy_def split: if_splits)
next
  case (binding b)
  from binding(2) show ?thesis
  proof (cases rule: NoteBinding_cases)
    case ignored
    with d d' ne show ?thesis by simp
  next
    case (attempt m e)
    let ?r = "update_entry m (\<lambda>d. d\<lparr>d_bindingSpec := b_spec b\<rparr>) r"
    have adv: "advances m ?r r'" using attempt_advances [of m ?r c] attempt(4) by simp
    have "m = n"
    proof (rule ccontr)
      assume "m \<noteq> n"
      then have "stagedBindingPolicies r' n = stagedBindingPolicies r n"
        using advances_other [OF adv, of n] attempt(2) by (simp add: update_entry_def)
      with d d' ne show False by simp
    qed
    with attempt d have e: "stagedBindingPolicies ?r n = Some (d\<lparr>d_bindingSpec := b_spec b\<rparr>)"
      "d_activeBindingPolicyUID d = ownerUID b" by (auto simp: update_entry_def)
    from attempt_moves_on [OF objs e(1) _ d'] attempt(1,4) ne e(2) binding(1) \<open>m = n\<close>
    show ?thesis by auto
  qed
next
  case (status cs)
  then obtain m where m: "associatedName (bindingPolicyLabel cs) = Some m"
    and at: "attemptConditionLocked c m r = (Returns (), r')"
    using NoteCombinedStatus_eq [OF keys fin] d d' ne
    by (auto split: if_splits option.splits)
  have "advances m r r'" using attempt_advances [of m r c] at by simp
  then have "m = n" using advances_other [of m r r' n] d d' ne by force
  with attempt_moves_on [OF objs d _ d' ne] at m status(1) show ?thesis by auto
qed (use d d' ne in auto)

text \<open>A step of the system that changes an active stage is a call of the resolver.\<close>

lemma step_moves_on:
  assumes R: "the_resolver D = NewResolver c" and step: "event_step D v api_change tells e e'"
    and d: "stagedBindingPolicies (p_resolver e) n = Some d"
    and d': "stagedBindingPolicies (p_resolver e') n = Some d'"
    and ne: "d_activeIndex d' \<noteq> d_activeIndex d"
  obtains w i f where "acts D w i f e e'"
    and "resolver_call c f (p_resolver e) (p_resolver e')"
proof -
  have "\<not> api_change (p_resolver e) (p_resolver e')" "p_resolver e' \<noteq> p_resolver e"
    using d d' ne by (auto simp: api_change_def)
  with event_step_seen [OF step] obtain w i f where act: "acts D w i f e e'" by blast
  from that [OF act acts_call [OF R act]] show thesis .
qed

end
