(* ===== verification/Pool_Shutdown.thy ===== *)
theory Pool_Shutdown
  imports Worker_Loop
begin

text \<open>
  The end of a run: \<open>run\<close> returns when its context ends and shuts the queue down, and every
  worker goes on until \<open>Get\<close> tells it so. The workers share what is left on the queue; the
  theory counts their steps.
\<close>

section \<open>Workers that stop\<close>

record ('k, 'q, 's) closing_crew = "('k, 'q, 's) crew" +
  d_stopped :: "nat set"

inductive closing_step ::
  "('sel, 'k, 'q, 's) controller_deps \<Rightarrow> nat set \<Rightarrow> ('k, 'q, 's) closing_crew \<Rightarrow>
   ('k, 'q, 's) closing_crew \<Rightarrow> bool" for D W where
  work: "w \<in> W \<Longrightarrow> w \<notin> d_stopped s \<Longrightarrow> worker_step D w s s' \<Longrightarrow> closing_step D W s s'"
| stop: "w \<in> W \<Longrightarrow> w \<notin> d_stopped s \<Longrightarrow> p_workers s w = Idle \<Longrightarrow>
    wq_Get (queue D) (p_queue s) = Some (None, q) \<Longrightarrow>
    closing_step D W s (s\<lparr>p_ctrl := (p_ctrl s)\<lparr>c_queue := q\<rparr>,
      d_stopped := insert w (d_stopped s)\<rparr>)"

text \<open>
  \<open>ShutDown\<close> changes nothing on the queue but that it shuts down; then the crew of \<open>p\<close> goes on
  as a closing crew.
\<close>

definition shuts_down :: "'q queue_view \<Rightarrow> 'q \<Rightarrow> 'q \<Rightarrow> bool" where
  "shuts_down v q q' \<longleftrightarrow>
     pend v q' = pend v q \<and> busy v q' = busy v q \<and> waits v q' = waits v q \<and> shut v q'"

definition closing_of :: "('k, 'q, 's) pool \<Rightarrow> 'q \<Rightarrow> ('k, 'q, 's) closing_crew" where
  "closing_of p q =
     \<lparr>p_ctrl = (p_ctrl p)\<lparr>c_queue := q\<rparr>, p_workers = p_workers p, d_stopped = {}\<rparr>"

section \<open>Counting\<close>

text \<open>An item on the queue takes a worker four steps, and every worker one step to stop.\<close>

fun steps_left_of :: "phase \<Rightarrow> nat" where
  "steps_left_of Idle = 0"
| "steps_left_of (Took i) = 3"
| "steps_left_of (Fetched i f) = 2"
| "steps_left_of (Applied i err) = 1"

definition work_left :: "'q queue_view \<Rightarrow> nat set \<Rightarrow> ('k, 'q, 's, 'z) crew_scheme \<Rightarrow> nat" where
  "work_left v W s = 4 * card (pend v (p_queue s)) + (\<Sum>w\<in>W. steps_left_of (p_workers s w))"

definition closing_steps :: "'q queue_view \<Rightarrow> nat set \<Rightarrow> ('k, 'q, 's) closing_crew \<Rightarrow> nat" where
  "closing_steps v W s = work_left v W s + card (W - d_stopped s)"

lemma steps_left_update:
  assumes "finite W" "w \<in> W"
  shows "(\<Sum>x\<in>W. steps_left_of ((ws(w := ph)) x)) + steps_left_of (ws w) =
    (\<Sum>x\<in>W. steps_left_of (ws x)) + steps_left_of ph"
proof -
  have "(\<Sum>x\<in>W - {w}. steps_left_of ((ws(w := ph)) x)) = (\<Sum>x\<in>W - {w}. steps_left_of (ws x))"
    by (rule sum.cong) auto
  then show ?thesis
    using sum.remove [OF assms, of "\<lambda>x. steps_left_of ((ws(w := ph)) x)"]
      sum.remove [OF assms, of "\<lambda>x. steps_left_of (ws x)"] by simp
qed

text \<open>Who has which item stays consistent, whatever a worker does.\<close>

lemma worker_step_exclusive:
  assumes Q: "queue_lawful (queue D) v" and ex: "exclusive v s" and step: "worker_step D w s s'"
  shows "exclusive v s'"
  using step
proof cases
  case (take i q)
  note G = Get_item [OF Q take(3)]
  show ?thesis by (rule exclusive_take [OF ex, of w i _ "Took i"]) (simp_all add: take G)
next
  case (read i f)
  show ?thesis by (rule exclusive_same [OF ex, of "Fetched i f" w]) (simp_all add: read)
next
  case (act i f err c)
  have "c_queue c = p_queue s" using apply_fetched_frame [of D f "p_ctrl s"] act(3) by simp
  then show ?thesis
    by (intro exclusive_same [OF ex, of "Applied i err" w]) (simp_all add: act)
next
  case (finish i err)
  have "busy v (c_queue (finish_item D i err (p_ctrl s))) = busy v (p_queue s) - {i}"
    using AddRateLimited_views(1) [OF Q, of i]
    by (cases err) (simp_all add: finish_item_def Done_views [OF Q] Forget_views [OF Q])
  then show ?thesis by (intro exclusive_give [OF ex, of w i _ Idle]) (simp_all add: finish)
qed

lemma finish_shut_views:
  assumes Q: "queue_lawful (queue D) v" and "shut v (c_queue st)"
  shows "pend v (c_queue (finish_item D i err st)) = pend v (c_queue st)"
    "busy v (c_queue (finish_item D i err st)) = busy v (c_queue st) - {i}"
    "shut v (c_queue (finish_item D i err st))"
  using assms(2) AddRateLimited_views [OF Q, where i = i and q = "c_queue st"]
  by (cases err; simp add: finish_item_def Done_views [OF Q] Forget_views [OF Q])+

text \<open>While the queue is shut down, each step of a worker is one of those left, no more.\<close>

lemma work_left_step:
  assumes Q: "queue_lawful (queue D) v" and sh: "shut v (p_queue s)"
    and fin: "finite W" "finite (pend v (p_queue s))" and w: "w \<in> W"
    and step: "worker_step D w s s'"
  shows "Suc (work_left v W s') = work_left v W s \<and> pend v (p_queue s') \<subseteq> pend v (p_queue s) \<and>
    shut v (p_queue s') \<and> (\<exists>ph. p_workers s' = (p_workers s)(w := ph))"
proof -
  have goal: ?thesis
    if p': "p_workers s' = (p_workers s)(w := ph)" and sh': "shut v (p_queue s')"
      and pn: "pend v (p_queue s') \<subseteq> pend v (p_queue s)"
      and count: "4 * card (pend v (p_queue s')) + steps_left_of ph + 1 =
        4 * card (pend v (p_queue s)) + steps_left_of (p_workers s w)" for ph
  proof -
    have "Suc (work_left v W s') = work_left v W s"
      using steps_left_update [OF fin(1) w, of "p_workers s" ph] count
      unfolding work_left_def p' by linarith
    with p' sh' pn show ?thesis by blast
  qed
  from step show ?thesis
  proof cases
    case (take i q)
    note G = Get_item [OF Q take(3)]
    have "Suc (card (pend v (p_queue s) - {i})) = card (pend v (p_queue s))"
      by (rule card_Suc_Diff1 [OF fin(2) G(1)])
    then have "4 * card (pend v (p_queue s')) + steps_left_of (Took i) + 1 =
        4 * card (pend v (p_queue s)) + steps_left_of (p_workers s w)"
      unfolding take(1) using take(2) G(3) by simp
    moreover have "pend v (p_queue s') \<subseteq> pend v (p_queue s)" "shut v (p_queue s')"
      using G sh by (simp_all add: take(1))
    ultimately show ?thesis by (intro goal [of "Took i"]) (simp_all add: take(1))
  next
    case (read i f)
    show ?thesis by (intro goal [of "Fetched i f"]) (use sh in \<open>simp_all add: read\<close>)
  next
    case (act i f err ctrl)
    have q: "c_queue ctrl = p_queue s" using apply_fetched_frame [of D f "p_ctrl s"] act(3) by simp
    show ?thesis by (intro goal [of "Applied i err"]) (use sh in \<open>simp_all add: act q\<close>)
  next
    case (finish i err)
    note F = finish_shut_views [OF Q sh, where i = i and err = err]
    show ?thesis by (intro goal [of Idle]) (simp_all add: finish F)
  qed
qed

text \<open>The invariant of a closing crew.\<close>

definition closing_ok :: "'q queue_view \<Rightarrow> nat set \<Rightarrow> ('k, 'q, 's) closing_crew \<Rightarrow> bool" where
  "closing_ok v W s \<longleftrightarrow> finite W \<and> W \<noteq> {} \<and> shut v (p_queue s) \<and> finite (pend v (p_queue s)) \<and>
     exclusive v s \<and> d_stopped s \<subseteq> W \<and>
     (\<forall>w. w \<notin> W \<or> w \<in> d_stopped s \<longrightarrow> p_workers s w = Idle) \<and>
     (W \<subseteq> d_stopped s \<longrightarrow> pend v (p_queue s) = {})"

lemma closing_okD:
  assumes "closing_ok v W s"
  shows "finite W" "W \<noteq> {}" "shut v (p_queue s)" "finite (pend v (p_queue s))" "exclusive v s"
    "d_stopped s \<subseteq> W" "w \<notin> W \<or> w \<in> d_stopped s \<Longrightarrow> p_workers s w = Idle"
    "W \<subseteq> d_stopped s \<Longrightarrow> pend v (p_queue s) = {}"
  using assms unfolding closing_ok_def by blast+

text \<open>One step of a worker takes one off the count, and keeps the invariant.\<close>

lemma closing_work:
  assumes Q: "queue_lawful (queue D) v" and c: "closing_ok v W s"
    and w: "w \<in> W" "w \<notin> d_stopped s" and step: "worker_step D w s s'"
  shows "closing_ok v W s' \<and> Suc (closing_steps v W s') = closing_steps v W s"
proof -
  note ok = closing_okD [OF c]
  from work_left_step [OF Q ok(3,1,4) w(1) step] obtain ph where
    left: "Suc (work_left v W s') = work_left v W s" and
    pn: "pend v (p_queue s') \<subseteq> pend v (p_queue s)" and sh: "shut v (p_queue s')" and
    p': "p_workers s' = (p_workers s)(w := ph)" by blast
  have st: "d_stopped s' = d_stopped s" using step by cases simp_all
  have "finite (pend v (p_queue s'))" using pn ok(4) by (rule finite_subset)
  moreover have "\<not> W \<subseteq> d_stopped s'" using w st by auto
  ultimately have "closing_ok v W s'"
    using ok(1,2,6,7) w p' st sh worker_step_exclusive [OF Q ok(5) step]
    unfolding closing_ok_def by auto
  with left st show ?thesis by (simp add: closing_steps_def)
qed

lemma closing_stop:
  assumes Q: "queue_lawful (queue D) v" and c: "closing_ok v W s"
    and w: "w \<in> W" "w \<notin> d_stopped s" "p_workers s w = Idle"
    and g: "wq_Get (queue D) (p_queue s) = Some (None, q)"
  defines "s' \<equiv> s\<lparr>p_ctrl := (p_ctrl s)\<lparr>c_queue := q\<rparr>, d_stopped := insert w (d_stopped s)\<rparr>"
  shows "closing_ok v W s' \<and> Suc (closing_steps v W s') = closing_steps v W s"
proof
  note ok = closing_okD [OF c] and G = Get_shutdown [OF Q g]
  have ex: "exclusive v s'" using ok(5) G(4) by (simp add: exclusive_def s'_def)
  have "pend v q = {}" if all: "W \<subseteq> insert w (d_stopped s)"
  proof -
    have "p_workers s x = Idle" for x using all w(3) ok(7) [of x] by blast
    with ok(5) have "busy v (p_queue s) = {}" by (auto simp: exclusive_def sole_holders_def)
    with G(2,3) show ?thesis by simp
  qed
  with ok ex w G show "closing_ok v W s'" by (auto simp: closing_ok_def s'_def)
  have "Suc (card (W - d_stopped s - {w})) = card (W - d_stopped s)"
    by (rule card_Suc_Diff1) (use ok(1) w in auto)
  moreover have "W - insert w (d_stopped s) = W - d_stopped s - {w}" by blast
  ultimately show "Suc (closing_steps v W s') = closing_steps v W s"
    using G(3) by (simp add: closing_steps_def work_left_def s'_def)
qed

lemma closing_step_count:
  assumes Q: "queue_lawful (queue D) v" and c: "closing_ok v W s" and "closing_step D W s s'"
  shows "closing_ok v W s' \<and> Suc (closing_steps v W s') = closing_steps v W s"
  using assms(3)
proof cases
  case (work w)
  show ?thesis by (rule closing_work [OF Q c work])
next
  case (stop w q)
  show ?thesis unfolding stop(1) by (rule closing_stop [OF Q c stop(2-5)])
qed

lemma closing_run_count:
  assumes Q: "queue_lawful (queue D) v" and "closing_ok v W s"
  shows "(closing_step D W ^^ k) s s' \<Longrightarrow>
    closing_ok v W s' \<and> k + closing_steps v W s' = closing_steps v W s"
proof (induction k arbitrary: s')
  case 0
  with assms(2) show ?case by simp
next
  case (Suc k)
  then obtain t where "(closing_step D W ^^ k) s t" "closing_step D W t s'" by auto
  with Suc.IH closing_step_count [OF Q, of W t s'] show ?case by fastforce
qed

section \<open>Where it ends\<close>

text \<open>A worker whose next call of the resolver panics, which ends the process.\<close>

definition panicking ::
  "('sel, 'k, 'q, 's) controller_deps \<Rightarrow> ('k, 'q, 's, 'z) crew_scheme \<Rightarrow> bool" where
  "panicking D s \<longleftrightarrow> (\<exists>w i f x. p_workers s w = Fetched i f \<and>
     fst (apply_fetched D f (p_ctrl s)) = Panics x)"

lemma fetch_total:
  assumes "index_lawful D"
  shows "\<exists>f. fetch D i k = Returns f"
proof (cases i)
  case (StagedBindingPolicyRef n)
  obtain res where "lister_Get (api_NewNotFound D) (sbpLister D) n k = Returns res"
    using lister_Get_total [of "sbpLister D"] assms unfolding index_lawful_def by blast
  with StagedBindingPolicyRef show ?thesis by (simp add: fetch_def)
qed (simp_all add: fetch_def)

text \<open>Otherwise every worker can go on while the queue shuts down, if only to stop.\<close>

lemma worker_can_go_on:
  assumes Q: "queue_lawful (queue D) v" and I: "index_lawful D" and np: "\<not> panicking D s"
    and sh: "shut v (p_queue s)"
  shows "(\<exists>s'. worker_step D w s s') \<or>
    (\<exists>q. p_workers s w = Idle \<and> wq_Get (queue D) (p_queue s) = Some (None, q))"
proof (cases "p_workers s w")
  case Idle
  show ?thesis
  proof (cases "wq_Get (queue D) (p_queue s)")
    case None
    with Get_blocks(1) [OF Q None] sh show ?thesis by simp
  next
    case (Some xq)
    then obtain x q where g: "wq_Get (queue D) (p_queue s) = Some (x, q)" by (cases xq) auto
    with Idle worker_step.take [OF Idle] show ?thesis by (cases x) blast+
  qed
next
  case (Took i)
  obtain f where "fetch D i (p_cache s) = Returns f" using fetch_total [OF I] by blast
  from worker_step.read [OF Took this] show ?thesis by blast
next
  case (Fetched i f)
  obtain out c where ap: "apply_fetched D f (p_ctrl s) = (out, c)" by fastforce
  have "fst (apply_fetched D f (p_ctrl s)) \<noteq> Panics x" for x
    using np Fetched unfolding panicking_def by blast
  with ap obtain err where "out = Returns err" by (cases out) auto
  from worker_step.act [OF Fetched ap [unfolded this]] show ?thesis by blast
next
  case (Applied i err)
  from worker_step.finish [OF Applied] show ?thesis by blast
qed

lemma worker_can_step:
  assumes "queue_lawful (queue D) v" and "index_lawful D" and "\<not> panicking D s"
    and "shut v (p_queue s)" and w: "w \<in> W" "w \<notin> d_stopped s"
  shows "\<exists>s'. closing_step D W s s'"
  using worker_can_go_on [OF assms(1-4), of w]
proof (elim disjE exE conjE)
  fix s' assume "worker_step D w s s'"
  from closing_step.work [OF w this] show ?thesis by blast
next
  fix q assume "p_workers s w = Idle" "wq_Get (queue D) (p_queue s) = Some (None, q)"
  from closing_step.stop [OF w this] show ?thesis by blast
qed

lemma closing_end:
  assumes Q: "queue_lawful (queue D) v" and I: "index_lawful D" and c: "closing_ok v W s"
    and stuck: "\<nexists>s'. closing_step D W s s'" and np: "\<not> panicking D s"
  shows "d_stopped s = W \<and> pend v (p_queue s) = {} \<and> busy v (p_queue s) = {}"
proof -
  note ok = closing_okD [OF c]
  have all: "W \<subseteq> d_stopped s" using worker_can_step [OF Q I np ok(3)] stuck by blast
  then have "p_workers s x = Idle" for x using ok(7) [of x] by blast
  with ok(5) have "busy v (p_queue s) = {}" by (auto simp: exclusive_def sole_holders_def)
  with all ok(6,8) show ?thesis by blast
qed

lemma closing_of_ok:
  assumes "exclusive v p" "shuts_down v (p_queue p) q" "finite W" "W \<noteq> {}"
    and "finite (pend v (p_queue p))" "\<And>w. w \<notin> W \<Longrightarrow> p_workers p w = Idle"
  shows "closing_ok v W (closing_of p q)"
  using assms by (auto simp: closing_ok_def closing_of_def shuts_down_def exclusive_def)

end
