(* ===== verification/System_Effort.thy ===== *)
theory System_Effort
  imports Event_Delivery Pool_Shutdown
begin

text \<open>
  How much work the composed system has left, and that it does not stop before it has done it:
  every step of its own takes something off a number that only a change in the caches, or an
  item that failed and is put back, adds to; and a state without a next step is settled, or a
  call of the resolver panics.
\<close>

section \<open>Labels\<close>

text \<open>
  \<open>Own\<close> steps take an item further or deliver an event; \<open>Retry\<close> puts back an item that failed;
  \<open>Change\<close> adds an event; \<open>Others\<close> is what other actors do to the API server.
\<close>

datatype system_label = Own | Retry | Change | Others

definition undelivered :: "('k, 'q, 's) event_crew \<Rightarrow> nat" where
  "undelivered e = length (e_policies e) + length (e_bindings e) + length (e_statuses e)"

text \<open>The back-off period of at least one item ends: it is to be processed now.\<close>

definition timer_fires :: "'q queue_view \<Rightarrow> 'q \<Rightarrow> 'q \<Rightarrow> bool" where
  "timer_fires v q q' \<longleftrightarrow> waits v q' \<subset> waits v q \<and>
     pend v q' = pend v q \<union> (waits v q - waits v q') \<and> busy v q' = busy v q \<and>
     shut v q' = shut v q"

text \<open>What client-go documents: every back-off period ends.\<close>

definition timers_lawful :: "'q queue_view \<Rightarrow> bool" where
  "timers_lawful v \<longleftrightarrow> (\<forall>q. waits v q \<noteq> {} \<longrightarrow> (\<exists>q'. timer_fires v q q'))"

inductive system_step ::
  "('sel, 'k, 'q, 's) controller_deps \<Rightarrow> 'q queue_view \<Rightarrow> nat set \<Rightarrow> ('s \<Rightarrow> 's \<Rightarrow> bool) \<Rightarrow>
   (event \<Rightarrow> bool) \<Rightarrow> system_label \<Rightarrow> ('k, 'q, 's) event_crew \<Rightarrow> ('k, 'q, 's) event_crew \<Rightarrow> bool"
  for D v W api tells where
  work: "w \<in> W \<Longrightarrow> worker_step D w e e' \<Longrightarrow>
    (\<And>i err. p_workers e w \<noteq> Applied i (Some err)) \<Longrightarrow> system_step D v W api tells Own e e'"
| retry: "w \<in> W \<Longrightarrow> worker_step D w e e' \<Longrightarrow> p_workers e w = Applied i (Some err) \<Longrightarrow>
    system_step D v W api tells Retry e e'"
| timer: "timer_fires v (p_queue e) q \<Longrightarrow>
    system_step D v W api tells Own e (e\<lparr>p_ctrl := (p_ctrl e)\<lparr>c_queue := q\<rparr>\<rparr>)"
| deliver: "event_step D v api tells e e' \<Longrightarrow> undelivered e = Suc (undelivered e') \<Longrightarrow>
    system_step D v W api tells Own e e'"
| change: "event_step D v api tells e e' \<Longrightarrow> undelivered e' = Suc (undelivered e) \<Longrightarrow>
    system_step D v W api tells Change e e'"
| others: "api (p_resolver e) s \<Longrightarrow>
    system_step D v W api tells Others e (e\<lparr>p_ctrl := (p_ctrl e)\<lparr>c_resolver := s\<rparr>\<rparr>)"

lemma system_step_event:
  assumes "system_step D v W api tells l e e'"
  shows "event_step D v api tells e e'"
  using assms
proof cases
  case (timer q)
  then have "pend v q \<union> waits v q = pend v (p_queue e) \<union> waits v (p_queue e)"
    "pend v (p_queue e) \<subseteq> pend v q" "busy v q = busy v (p_queue e)" "shut v q = shut v (p_queue e)"
    by (auto simp: timer_fires_def)
  from crew_step.backoff [OF this, THEN event_step.crew] timer show ?thesis by simp
qed (auto intro: event_step.crew crew_step.work crew_step.others)

text \<open>What a delivery and a change do.\<close>

lemma crew_step_undelivered: "crew_step D v api e e' \<Longrightarrow> undelivered e' = undelivered e"
  by (erule crew_step.cases) (auto simp: undelivered_def elim!: worker_step.cases)

lemma delivered:
  assumes "event_step D v api tells e e'" and n: "undelivered e = Suc (undelivered e')"
  obtains demand where "p_ctrl e' = (case demand of
      None \<Rightarrow> p_ctrl e | Some i \<Rightarrow> on_queue (wq_Add (queue D) i) (p_ctrl e))"
    and "p_workers e' = p_workers e"
  using assms(1)
proof cases
  case crew
  with n crew_step_undelivered show ?thesis by fastforce
next
  case (policy_event ev evs c)
  with that policy_events.handle_Returns [OF policy_event(3)] show ?thesis by simp
next
  case (binding_event ev evs c)
  with that binding_events.handle_Returns [OF binding_event(3)] show ?thesis by simp
next
  case (status_event ev evs c)
  with that status_events.handle_Returns [OF status_event(3)] show ?thesis by simp
qed (use n in \<open>auto simp: undelivered_def\<close>)

lemma changed:
  assumes "event_step D v api tells e e'" and n: "undelivered e' = Suc (undelivered e)"
  shows "p_workers e' = p_workers e" "p_queue e' = p_queue e"
proof -
  have "p_workers e' = p_workers e \<and> p_queue e' = p_queue e"
    using assms(1)
  proof cases
    case crew
    with n crew_step_undelivered show ?thesis by fastforce
  qed (use n in \<open>auto simp: undelivered_def\<close>)
  then show "p_workers e' = p_workers e" "p_queue e' = p_queue e" by auto
qed

section \<open>Effort\<close>

text \<open>
  An item on the queue takes four steps, one that waits one more, and an event one for its
  delivery and those of the item it may ask for.
\<close>

definition effort ::
  "'q queue_view \<Rightarrow> nat set \<Rightarrow> ('k, 'q, 's) event_crew \<Rightarrow> nat" where
  "effort v W e = 5 * undelivered e + 4 * card (pend v (p_queue e)) +
     5 * card (waits v (p_queue e)) + (\<Sum>w\<in>W. steps_left_of (p_workers e w))"

fun step_cost :: "system_label \<Rightarrow> nat" where
  "step_cost Own = 1"
| "step_cost Retry = 1"
| "step_cost Change = 0"
| "step_cost Others = 0"

fun step_grant :: "system_label \<Rightarrow> nat" where
  "step_grant Own = 0"
| "step_grant Retry = 5"
| "step_grant Change = 5"
| "step_grant Others = 0"

definition effort_ok :: "'q queue_view \<Rightarrow> nat set \<Rightarrow> ('k, 'q, 's) event_crew \<Rightarrow> bool" where
  "effort_ok v W e \<longleftrightarrow> finite W \<and> finite (pend v (p_queue e)) \<and> finite (waits v (p_queue e)) \<and>
     (\<forall>w. w \<notin> W \<longrightarrow> p_workers e w = Idle)"

lemma card_insert_le': "finite A \<Longrightarrow> card (insert x A) \<le> Suc (card A)"
  by (simp add: card_insert_if)

text \<open>The step of a worker, given what becomes of its phase and of the queue.\<close>

lemma effort_worker:
  assumes ok: "effort_ok v W e" and w: "w \<in> W"
    and p': "p_workers e' = (p_workers e)(w := ph)" and u: "undelivered e' = undelivered e"
    and fin: "finite (pend v (p_queue e'))" "finite (waits v (p_queue e'))"
    and count: "c + 4 * card (pend v (p_queue e')) + 5 * card (waits v (p_queue e')) +
        steps_left_of ph \<le> 4 * card (pend v (p_queue e)) + 5 * card (waits v (p_queue e)) +
        steps_left_of (p_workers e w) + g"
  shows "effort_ok v W e' \<and> c + effort v W e' \<le> effort v W e + g"
proof
  show "effort_ok v W e'" using ok w fin unfolding effort_ok_def p' by auto
  show "c + effort v W e' \<le> effort v W e + g"
    using steps_left_update [of W w "p_workers e" ph] ok w count
    unfolding effort_def p' u effort_ok_def by linarith
qed

lemma worker_step_effort:
  assumes Q: "queue_lawful (queue D) v" and ok: "effort_ok v W e" and w: "w \<in> W"
    and step: "worker_step D w e e'"
  defines "g \<equiv> (if \<exists>i err. p_workers e w = Applied i (Some err) then 5 else 0)"
  shows "effort_ok v W e' \<and> 1 + effort v W e' \<le> effort v W e + g"
proof -
  have fin: "finite (pend v (p_queue e))" "finite (waits v (p_queue e))"
    using ok by (auto simp: effort_ok_def)
  from step show ?thesis
  proof cases
    case (take i q)
    note G = Get_item [OF Q take(3)]
    have "Suc (card (pend v (p_queue e) - {i})) = card (pend v (p_queue e))"
      by (rule card_Suc_Diff1 [OF fin(1) G(1)])
    then show ?thesis
      by (intro effort_worker [OF ok w, of _ "Took i"])
         (use fin in \<open>simp_all add: take G undelivered_def\<close>)
  next
    case (read i f)
    show ?thesis
      by (intro effort_worker [OF ok w, of _ "Fetched i f"])
         (use fin in \<open>simp_all add: read undelivered_def\<close>)
  next
    case (act i f err c)
    have q: "c_queue c = p_queue e" using apply_fetched_frame [of D f "p_ctrl e"] act(3) by simp
    show ?thesis
      by (intro effort_worker [OF ok w, of _ "Applied i err"])
         (use fin in \<open>simp_all add: act q undelivered_def\<close>)
  next
    case (finish i err)
    show ?thesis
    proof (cases err)
      case None
      then show ?thesis
        by (intro effort_worker [OF ok w, of _ Idle])
           (use fin in \<open>simp_all add: finish finish_item_def Done_views [OF Q] Forget_views [OF Q]
              undelivered_def\<close>)
    next
      case (Some x)
      let ?q = "p_queue e" and ?q' = "wq_AddRateLimited (queue D) i (p_queue e)"
      have "g = 5" using finish Some by (auto simp: g_def)
      have "finite (pend v ?q') \<and> finite (waits v ?q') \<and>
          4 * card (pend v ?q') + 5 * card (waits v ?q') \<le>
          4 * card (pend v ?q) + 5 * card (waits v ?q) + 5"
        using AddRateLimited_views(6) [OF Q, of i ?q] fin
          card_insert_le' [OF fin(1), of i] card_insert_le' [OF fin(2), of i] by auto
      with \<open>g = 5\<close> show ?thesis
        by (intro effort_worker [OF ok w, of _ Idle])
           (simp_all add: finish Some finish_item_def Done_views [OF Q] undelivered_def)
    qed
  qed
qed

lemma timer_effort:
  assumes ok: "effort_ok v W e" and t: "timer_fires v (p_queue e) q"
  defines "e' \<equiv> e\<lparr>p_ctrl := (p_ctrl e)\<lparr>c_queue := q\<rparr>\<rparr>"
  shows "effort_ok v W e' \<and> 1 + effort v W e' \<le> effort v W e"
proof -
  let ?P = "pend v (p_queue e)" and ?W = "waits v (p_queue e)"
  let ?F = "?W - waits v q"
  have fin: "finite ?P" "finite ?W" using ok by (auto simp: effort_ok_def)
  have sub: "waits v q \<subset> ?W" and P: "pend v q = ?P \<union> ?F"
    using t by (auto simp: timer_fires_def)
  have finq: "finite (waits v q)" using sub fin(2) by (meson finite_subset psubset_imp_subset)
  have "card ?W = card (waits v q) + card ?F"
    using card_Diff_subset [OF finq] sub fin(2) by (simp add: card_mono psubset_imp_subset)
  moreover have "0 < card ?F" using sub fin(2) by (auto simp: card_gt_0_iff)
  moreover have "card (pend v q) \<le> card ?P + card ?F" unfolding P by (rule card_Un_le)
  ultimately have "1 + 4 * card (pend v q) + 5 * card (waits v q) \<le> 4 * card ?P + 5 * card ?W"
    by linarith
  moreover have "effort_ok v W e'"
    using ok P fin finq by (auto simp: effort_ok_def e'_def)
  ultimately show ?thesis by (simp add: effort_def e'_def undelivered_def)
qed

lemma deliver_effort:
  assumes Q: "queue_lawful (queue D) v" and ok: "effort_ok v W e"
    and "event_step D v api tells e e'" and n: "undelivered e = Suc (undelivered e')"
  shows "effort_ok v W e' \<and> 1 + effort v W e' \<le> effort v W e"
proof -
  obtain demand where d: "p_ctrl e' = (case demand of
      None \<Rightarrow> p_ctrl e | Some i \<Rightarrow> on_queue (wq_Add (queue D) i) (p_ctrl e))"
    and same: "p_workers e' = p_workers e"
    by (rule delivered [OF assms(3,4)])
  have fin: "finite (pend v (p_queue e))" using ok by (simp add: effort_ok_def)
  have "waits v (p_queue e') = waits v (p_queue e) \<and> finite (pend v (p_queue e')) \<and>
      card (pend v (p_queue e')) \<le> Suc (card (pend v (p_queue e)))"
    using d fin card_insert_le' [OF fin]
    by (auto simp: Add_views [OF Q] split: option.splits)
  with ok same n show ?thesis by (auto simp: effort_ok_def effort_def)
qed

lemma system_step_paid:
  assumes Q: "queue_lawful (queue D) v" and step: "system_step D v W api tells l e e'"
    and ok: "effort_ok v W e"
  shows "effort_ok v W e' \<and> step_cost l + effort v W e' \<le> effort v W e + step_grant l"
  using step
proof cases
  case (work w)
  have "\<not> (\<exists>i err. p_workers e w = Applied i (Some err))" using work(4) by blast
  with worker_step_effort [OF Q ok work(2,3)] work(1) show ?thesis by simp
next
  case (retry w i err)
  then have "\<exists>i err. p_workers e w = Applied i (Some err)" by blast
  with worker_step_effort [OF Q ok retry(2,3)] retry(1) show ?thesis by simp
next
  case (timer q)
  with timer_effort [OF ok timer(3)] show ?thesis by simp
next
  case deliver
  with deliver_effort [OF Q ok deliver(2,3)] show ?thesis by simp
next
  case change
  with changed [OF change(2,3)] ok show ?thesis by (simp add: effort_ok_def effort_def)
next
  case (others s)
  with ok show ?thesis by (simp add: effort_ok_def effort_def undelivered_def)
qed

interpretation system_effort: amortized_system "system_step D v W api tells"
  "\<lambda>e. queue_lawful (queue D) v \<and> effort_ok v W e" "effort v W" step_cost step_grant
  by unfold_locales (use system_step_paid in blast)

text \<open>What the labels of a run add up to.\<close>

abbreviation is_own :: "system_label \<Rightarrow> bool" where
  "is_own l \<equiv> l = Own \<or> l = Retry"

abbreviation is_burst :: "system_label \<Rightarrow> bool" where
  "is_burst l \<equiv> l = Change \<or> l = Retry"

lemma run_costs: "sum_list (map step_cost ls) = length (filter is_own ls)"
proof (induction ls)
  case (Cons l ls)
  then show ?case by (cases l) auto
qed simp

lemma run_grants: "sum_list (map step_grant ls) = 5 * length (filter is_burst ls)"
proof (induction ls)
  case (Cons l ls)
  then show ?case by (cases l) auto
qed simp

lemma system_run_effort:
  assumes "queue_lawful (queue D) v" and "effort_ok v W e"
    and "labelled_run (system_step D v W api tells) e ls e'"
  shows "effort_ok v W e' \<and> length (filter is_own ls) + effort v W e' \<le>
    effort v W e + 5 * length (filter is_burst ls)"
  using system_effort.run_paid [OF assms(3), of] assms(1,2) by (simp add: run_costs run_grants)

section \<open>Invariants\<close>

text \<open>A queue that starts empty never holds infinitely many items.\<close>

definition finite_queue :: "'q queue_view \<Rightarrow> ('k, 'q, 's) event_crew \<Rightarrow> bool" where
  "finite_queue v e \<longleftrightarrow> finite (pend v (p_queue e) \<union> waits v (p_queue e))"

lemma worker_step_finite:
  assumes Q: "queue_lawful (queue D) v" and "finite_queue v e" and "worker_step D w e e'"
  shows "finite_queue v e'"
  using assms(3)
proof cases
  case (take i q)
  with Get_item [OF Q take(3)] assms(2) show ?thesis by (simp add: finite_queue_def)
next
  case (act i f err c)
  with apply_fetched_frame [of D f "p_ctrl e"] assms(2) show ?thesis by (simp add: finite_queue_def)
next
  case (finish i err)
  with AddRateLimited_views(6) [OF Q, of i "p_queue e"] assms(2) show ?thesis
    by (cases err) (auto simp: finite_queue_def finish_item_def Done_views [OF Q] Forget_views [OF Q])
qed (use assms(2) in \<open>simp add: finite_queue_def\<close>)

lemma crew_step_finite:
  assumes Q: "queue_lawful (queue D) v" and "finite_queue v e" and "crew_step D v api e e'"
  shows "finite_queue v e'"
  using assms(3)
proof cases
  case (work w)
  from worker_step_finite [OF Q assms(2) work] show ?thesis .
qed (use assms(2) in \<open>simp_all add: finite_queue_def\<close>)

lemma delivery_finite:
  assumes Q: "queue_lawful (queue D) v" and "finite_queue v e"
    and "p_ctrl e' = (case demand of
      None \<Rightarrow> p_ctrl e | Some i \<Rightarrow> on_queue (wq_Add (queue D) i) (p_ctrl e))"
  shows "finite_queue v e'"
  using assms(2,3) by (auto simp: finite_queue_def Add_views [OF Q] split: option.splits)

lemma event_step_finite:
  assumes Q: "queue_lawful (queue D) v" and fin: "finite_queue v e"
    and "event_step D v api tells e e'"
  shows "finite_queue v e'"
  using assms(3)
proof cases
  case crew
  from crew_step_finite [OF Q fin crew] show ?thesis .
next
  case (policy_event ev evs c)
  with policy_events.handle_Returns [OF policy_event(3)] show ?thesis
    by (intro delivery_finite [OF Q fin]) simp
next
  case (binding_event ev evs c)
  with binding_events.handle_Returns [OF binding_event(3)] show ?thesis
    by (intro delivery_finite [OF Q fin]) simp
next
  case (status_event ev evs c)
  with status_events.handle_Returns [OF status_event(3)] show ?thesis
    by (intro delivery_finite [OF Q fin]) simp
qed (use fin in \<open>simp_all add: finite_queue_def\<close>)

text \<open>The events in the queues are of the type of their informer, so no handler panics.\<close>

definition typed_events :: "('k, 'q, 's) event_crew \<Rightarrow> bool" where
  "typed_events e \<longleftrightarrow> (\<forall>ev\<in>set (e_policies e). well_typed policy_meta ev) \<and>
     (\<forall>ev\<in>set (e_bindings e). well_typed binding_meta ev) \<and>
     (\<forall>ev\<in>set (e_statuses e). well_typed status_meta ev)"

lemma informs_typed:
  assumes "informs before ev after" and "\<And>n obj. before n = Some obj \<Longrightarrow> meta obj \<noteq> None"
    and "\<And>n obj. after n = Some obj \<Longrightarrow> meta obj \<noteq> None"
  shows "well_typed meta ev"
proof (cases ev)
  case (Added obj)
  with assms(1) obtain n where "after = before(n \<mapsto> obj)" by auto
  then have "after n = Some obj" by simp
  from assms(3) [OF this] Added show ?thesis by simp
next
  case (Updated old new)
  with assms(1) obtain n where b: "before n = Some old" and "after = before(n \<mapsto> new)" by auto
  then have "after n = Some new" by simp
  from assms(2) [OF b] assms(3) [OF this] Updated show ?thesis by simp
next
  case (Deleted obj)
  with assms(1) obtain n where "before n = Some (final_state obj)" by auto
  from assms(2) [OF this] Deleted show ?thesis by simp
qed

lemma policy_at_meta: "index_lawful D \<Longrightarrow> policy_at D k n = Some obj \<Longrightarrow> policy_meta obj \<noteq> None"
  by (erule policy_at_typed) auto

lemma binding_at_meta: "binding_at D k n = Some obj \<Longrightarrow> binding_meta obj \<noteq> None"
  by (auto simp: binding_at_def split: sum.splits)

lemma status_at_meta: "status_at D k n = Some obj \<Longrightarrow> status_meta obj \<noteq> None"
  by (auto simp: status_at_def split: sum.splits)

lemma crew_step_events:
  assumes "crew_step D v api e e'"
  shows "e_policies e' = e_policies e" "e_bindings e' = e_bindings e" "e_statuses e' = e_statuses e"
proof -
  have "e_policies e' = e_policies e \<and> e_bindings e' = e_bindings e \<and> e_statuses e' = e_statuses e"
    using assms by cases (auto elim!: worker_step.cases)
  then show "e_policies e' = e_policies e" "e_bindings e' = e_bindings e"
    "e_statuses e' = e_statuses e" by auto
qed

lemma event_step_typed:
  assumes I: "index_lawful D" and typed: "typed_events e" and "event_step D v api tells e e'"
  shows "typed_events e'"
  using assms(3)
proof cases
  case crew
  from typed show ?thesis unfolding typed_events_def crew_step_events [OF crew] .
next
  case (policy_change ev k)
  have "well_typed policy_meta ev"
    by (rule informs_typed [OF policy_change(2)]; erule policy_at_meta [OF I])
  with typed policy_change(1) show ?thesis by (auto simp: typed_events_def)
next
  case (binding_change ev k)
  have "well_typed binding_meta ev"
    by (rule informs_typed [OF binding_change(2)]; erule binding_at_meta)
  with typed binding_change(1) show ?thesis by (auto simp: typed_events_def)
next
  case (status_change ev k)
  have "well_typed status_meta ev"
    by (rule informs_typed [OF status_change(2)]; erule status_at_meta)
  with typed status_change(1) show ?thesis by (auto simp: typed_events_def)
qed (use typed in \<open>simp_all add: typed_events_def\<close>)

interpretation event_invariants: invariant_system
  "\<lambda>e. event_init D v sinit e" "event_step D v api tells"
  "\<lambda>e. queue_lawful (queue D) v \<longrightarrow> index_lawful D \<longrightarrow> finite_queue v e \<and> typed_events e"
proof
  show "queue_lawful (queue D) v \<longrightarrow> index_lawful D \<longrightarrow> finite_queue v e \<and> typed_events e"
    if "event_init D v sinit e" for e
    using that by (simp add: event_init_def pool_init_def finite_queue_def typed_events_def no_events_def)
qed (use event_step_finite event_step_typed in blast)

section \<open>Where the system stops\<close>

text \<open>No step of the system's own: no worker of \<open>W\<close>, timer or delivery can go on.\<close>

definition stuck ::
  "('sel, 'k, 'q, 's) controller_deps \<Rightarrow> 'q queue_view \<Rightarrow> nat set \<Rightarrow> ('s \<Rightarrow> 's \<Rightarrow> bool) \<Rightarrow>
   (event \<Rightarrow> bool) \<Rightarrow> ('k, 'q, 's) event_crew \<Rightarrow> bool" where
  "stuck D v W api tells e \<longleftrightarrow> (\<nexists>l e'. is_own l \<and> system_step D v W api tells l e e')"

lemma stuck_worker:
  assumes "stuck D v W api tells e" and "w \<in> W"
  shows "\<not> worker_step D w e e'"
proof
  assume step: "worker_step D w e e'"
  show False
  proof (cases "\<exists>i err. p_workers e w = Applied i (Some err)")
    case True
    then obtain i err where "p_workers e w = Applied i (Some err)" by blast
    from system_step.retry [OF assms(2) step this] assms(1) show False
      unfolding stuck_def by blast
  next
    case False
    then have "p_workers e w \<noteq> Applied i (Some err)" for i err by blast
    from system_step.work [OF assms(2) step this] assms(1) show False
      unfolding stuck_def by blast
  qed
qed

lemma stuck_idle:
  assumes st: "stuck D v W api tells e" and w: "w \<in> W" and I: "index_lawful D"
    and np: "\<not> panicking D e"
  shows "p_workers e w = Idle"
proof (cases "p_workers e w")
  case (Took i)
  obtain f where "fetch D i (p_cache e) = Returns f" using fetch_total [OF I] by blast
  from stuck_worker [OF st w] worker_step.read [OF Took this] show ?thesis by blast
next
  case (Fetched i f)
  obtain out c where ap: "apply_fetched D f (p_ctrl e) = (out, c)" by fastforce
  have "fst (apply_fetched D f (p_ctrl e)) \<noteq> Panics x" for x
    using np Fetched unfolding panicking_def by blast
  with ap obtain err where "out = Returns err" by (cases out) auto
  from stuck_worker [OF st w] worker_step.act [OF Fetched ap [unfolded this]] show ?thesis by blast
next
  case (Applied i err)
  from stuck_worker [OF st w] worker_step.finish [OF Applied] show ?thesis by blast
qed

text \<open>A typed event can be delivered.\<close>

lemma stuck_no_events:
  assumes st: "stuck D v W api tells e" and typed: "typed_events e"
  shows "no_events e"
proof (rule ccontr)
  assume "\<not> no_events e"
  then consider ev evs where "e_policies e = ev # evs" | ev evs where "e_bindings e = ev # evs"
    | ev evs where "e_statuses e = ev # evs"
    by (auto simp: no_events_def neq_Nil_conv)
  then have "\<exists>e'. event_step D v api tells e e' \<and> undelivered e = Suc (undelivered e')"
  proof cases
    case (1 ev evs)
    with typed have "well_typed policy_meta ev" by (simp add: typed_events_def)
    from policy_events.handle_typed [OF this] obtain c where
      "handle (stagedBindingPolicyHandlers D) ev (p_ctrl e) = (Returns (), c)" by blast
    from event_step.policy_event [OF 1 this] 1 show ?thesis
      by (intro exI [of _ "e\<lparr>p_ctrl := c, e_policies := evs\<rparr>"]) (simp add: undelivered_def)
  next
    case (2 ev evs)
    with typed have "well_typed binding_meta ev" by (simp add: typed_events_def)
    from binding_events.handle_typed [OF this] obtain c where
      "handle (bindingHandlers D) ev (p_ctrl e) = (Returns (), c)" by blast
    from event_step.binding_event [OF 2 this] 2 show ?thesis
      by (intro exI [of _ "e\<lparr>p_ctrl := c, e_bindings := evs\<rparr>"]) (simp add: undelivered_def)
  next
    case (3 ev evs)
    with typed have "well_typed status_meta ev" by (simp add: typed_events_def)
    from status_events.handle_typed [OF this] obtain c where
      "handle (combinedStatusHandlers D) ev (p_ctrl e) = (Returns (), c)" by blast
    from event_step.status_event [OF 3 this] 3 show ?thesis
      by (intro exI [of _ "e\<lparr>p_ctrl := c, e_statuses := evs\<rparr>"]) (simp add: undelivered_def)
  qed
  with st show False unfolding stuck_def by (blast intro: system_step.deliver)
qed

lemma stuck_settled:
  assumes Q: "queue_lawful (queue D) v" and I: "index_lawful D" and T: "timers_lawful v"
    and st: "stuck D v W api tells e" and np: "\<not> panicking D e" and typed: "typed_events e"
    and ex: "exclusive v e" and ns: "\<not> shut v (p_queue e)"
    and W: "W \<noteq> {}" "\<And>w. w \<notin> W \<Longrightarrow> p_workers e w = Idle"
  shows "settled v e"
proof -
  have idle: "p_workers e w = Idle" for w using stuck_idle [OF st _ I np] W(2) by blast
  then have ws: "p_workers e = (\<lambda>w. Idle)" by (rule ext)
  have waits: "waits v (p_queue e) = {}"
  proof (rule ccontr)
    assume "waits v (p_queue e) \<noteq> {}"
    with T obtain q where "timer_fires v (p_queue e) q" unfolding timers_lawful_def by blast
    from system_step.timer [OF this] st show False unfolding stuck_def by blast
  qed
  have busy: "busy v (p_queue e) = {}" using ex idle by (auto simp: exclusive_def sole_holders_def)
  obtain w where w: "w \<in> W" using W(1) by blast
  have "pend v (p_queue e) = {}"
  proof (cases "wq_Get (queue D) (p_queue e)")
    case None
    with Get_blocks(2) [OF Q None] busy show ?thesis by simp
  next
    case (Some xq)
    then obtain x q where g: "wq_Get (queue D) (p_queue e) = Some (x, q)" by (cases xq) auto
    show ?thesis
    proof (cases x)
      case None
      with g Get_shutdown(1) [OF Q] ns show ?thesis by simp
    next
      case (Some i)
      from stuck_worker [OF st w] worker_step.take [OF idle g [unfolded Some]] show ?thesis by blast
    qed
  qed
  with ws waits stuck_no_events [OF st typed] show ?thesis by (simp add: settled_def)
qed

text \<open>Where a run of the whole system stops.\<close>

lemma system_stops_settled:
  assumes laws: "controller_lawful c D v" and T: "timers_lawful v"
    and init: "event_init D v fresh_resolver e0"
    and run: "(event_step D v api_change generation_tells)\<^sup>*\<^sup>* e0 e"
    and W: "W \<noteq> {}" "\<And>w. w \<notin> W \<Longrightarrow> p_workers e w = Idle"
    and st: "stuck D v W api_change generation_tells e" and np: "\<not> panicking D e"
  shows "settled v e \<and> tracked_contents (p_resolver e) = cached_content D (p_cache e)"
proof -
  have Q: "queue_lawful (queue D) v" and I: "index_lawful D"
    using laws by (auto simp: controller_lawful_def)
  note pool = event_run_abstract [OF I run]
  have p0: "pool_init D v fresh_resolver (pool_of D e0)" using init by (simp add: event_init_def)
  have "consistent D v tracked_contents (pool_of D e)"
    using worker_pool.reachable_inv [OF _ pool, of c] laws p0 by blast
  from consistentD(1,2) [OF this] have ns: "\<not> shut v (p_queue e)" and ex: "exclusive v e"
    by (simp_all add: exclusive_def)
  have typed: "typed_events e" using event_invariants.reachable_inv [OF init run] Q I by blast
  have s: "settled v e" by (rule stuck_settled [OF Q I T st np typed ex ns W])
  with pool_settles [OF laws p0 pool settled_quiescent [OF s]] show ?thesis by simp
qed

end
