(* ===== verification/Demo_System.thy ===== *)
theory Demo_System
  imports Demo_Controller System_Rollout System_Effort
begin

text \<open>
  A run of the composed system for the witnesses, on the cluster of \<open>Demo_Cluster\<close>: a policy
  appears and its first stage is deployed; then the stage is fulfilled, a Binding appears, and
  the policy moves on.
\<close>

section \<open>A run of the composed system\<close>

definition demo_system ::
  "demo_cache \<Rightarrow> work_item list \<Rightarrow> demo_world resolver \<Rightarrow> event list \<Rightarrow> event list \<Rightarrow>
   (demo_cache, demo_queue, demo_world resolver) event_crew" where
  "demo_system k items r evs sts =
     \<lparr>p_ctrl = \<lparr>c_cache = k, c_queue = demo_empty_queue\<lparr>dq_items := items\<rparr>, c_resolver = r\<rparr>,
      p_workers = (\<lambda>w. Idle), e_policies = evs, e_bindings = [], e_statuses = sts\<rparr>"

definition demo_no_cache :: demo_cache where
  "demo_no_cache = \<lparr>dc_policies = [], dc_bindings = [], dc_statuses = []\<rparr>"

abbreviation demo_event_step where
  "demo_event_step \<equiv> event_step demo_deps demo_view api_change generation_tells"

lemma demo_system_sel [simp]:
  "p_ctrl (demo_system k items r evs sts) =
     \<lparr>c_cache = k, c_queue = demo_empty_queue\<lparr>dq_items := items\<rparr>, c_resolver = r\<rparr>"
  "p_workers (demo_system k items r evs sts) w = Idle"
  "e_policies (demo_system k items r evs sts) = evs"
  "e_bindings (demo_system k items r evs sts) = []"
  "e_statuses (demo_system k items r evs sts) = sts"
  by (simp_all add: demo_system_def)

lemma demo_policy_at:
  "policy_at demo_deps k n =
     map_option SBPObject (find (\<lambda>sbp. sbp_name sbp = n) (dc_policies k))"
  by (simp add: policy_at_def demo_deps_def NewStagedBindingPolicyLister_def demo_indexer_def
      split: option.split)

lemma demo_other_at:
  "dc_bindings k' = dc_bindings k \<Longrightarrow> binding_at demo_deps k' = binding_at demo_deps k"
  "dc_statuses k' = dc_statuses k \<Longrightarrow> status_at demo_deps k' = status_at demo_deps k"
  by (simp_all add: fun_eq_iff binding_at_def status_at_def)

lemma demo_system_init: "event_init demo_deps demo_view fresh_resolver
    (demo_system demo_no_cache [] (new_resolver demo_start) [] [])"
  by (simp add: event_init_def pool_init_def demo_empty_queue_def demo_content cached_def
      fresh_resolver_def new_resolver_def no_events_def asked_def demo_system_def demo_no_cache_def)

lemma demo_system_settled: "settled demo_view (demo_system k [] r [] [])"
  by (simp add: settled_def no_events_def demo_system_def demo_empty_queue_def)

lemma event_of_crew:
  "(crew_step D v api)\<^sup>*\<^sup>* e e' \<Longrightarrow> (event_step D v api tells)\<^sup>*\<^sup>* e e'"
  by (erule rtranclp_mono [THEN predicate2D, rotated]) (auto intro: event_step.crew)

text \<open>The policy is made, its event is delivered, and a worker takes it.\<close>

lemma demo_change:
  assumes "informs (policy_at demo_deps k) ev (policy_at demo_deps k')" "generation_tells ev"
    and "dc_bindings k' = dc_bindings k" "dc_statuses k' = dc_statuses k"
  shows "event_step demo_deps demo_view api generation_tells
    (demo_system k [] r [] []) (demo_system k' [] r [ev] [])"
proof -
  have "demo_system k' [] r [ev] [] = (demo_system k [] r [] [])
      \<lparr>p_ctrl := (p_ctrl (demo_system k [] r [] []))\<lparr>c_cache := k'\<rparr>,
       e_policies := e_policies (demo_system k [] r [] []) @ [ev]\<rparr>"
    by (simp add: demo_system_def)
  moreover have "event_step demo_deps demo_view api generation_tells
      (demo_system k [] r [] []) \<dots>"
    by (rule event_step.policy_change)
       (simp_all add: assms(1,2) demo_other_at(1) [OF assms(3)] demo_other_at(2) [OF assms(4)])
  ultimately show ?thesis by simp
qed

lemma demo_policy_appears: "event_step demo_deps demo_view api generation_tells
    (demo_system demo_no_cache [] r [] []) (demo_system demo_full_cache [] r [Added (SBPObject demo_policy)] [])"
  by (rule demo_change)
     (auto simp: demo_policy_at demo_full_cache_def demo_no_cache_def fun_eq_iff)

lemma demo_policy_delivered:
  "event_step demo_deps demo_view api generation_tells
     (demo_system k [] r [Added (SBPObject demo_policy)] [])
     (demo_system k [demo_web] r [] [])"
proof -
  let ?e = "demo_system k [] r [Added (SBPObject demo_policy)] []"
  have "event_step demo_deps demo_view api generation_tells ?e
      (?e\<lparr>p_ctrl := on_queue (wq_Add demo_wq demo_web) (p_ctrl ?e), e_policies := []\<rparr>)"
    by (rule event_step.policy_event [where ev = "Added (SBPObject demo_policy)"])
       (simp_all add: handler_simps)
  moreover have "?e\<lparr>p_ctrl := on_queue (wq_Add demo_wq demo_web) (p_ctrl ?e), e_policies := []\<rparr> =
      demo_system k [demo_web] r [] []"
    by (simp add: demo_system_def on_queue_def demo_empty_queue_def)
  ultimately show ?thesis by simp
qed

section \<open>A managed run\<close>

text \<open>The states in between, with worker 0 in phase \<open>ph\<close>.\<close>

definition demo_at ::
  "demo_cache \<Rightarrow> demo_queue \<Rightarrow> phase \<Rightarrow> event list \<Rightarrow> demo_world resolver \<Rightarrow>
   (demo_cache, demo_queue, demo_world resolver) event_crew" where
  "demo_at k q ph evs r =
     \<lparr>p_ctrl = \<lparr>c_cache = k, c_queue = q, c_resolver = r\<rparr>, p_workers = (\<lambda>w. Idle)(0 := ph),
      e_policies = [], e_bindings = evs, e_statuses = []\<rparr>"

abbreviation demo_managed_step where
  "demo_managed_step \<equiv> managed_event_step demo_deps demo_view demo_deployed generation_tells"

abbreviation demo_others_step where
  "demo_others_step \<equiv> event_step demo_deps demo_view (others_remove demo_deployed) generation_tells"

lemma demo_system_at:
  "demo_system k items r [] [] = demo_at k (demo_empty_queue\<lparr>dq_items := items\<rparr>) Idle [] r"
  by (simp add: demo_system_def demo_at_def fun_upd_idem)

lemma demo_at_sel [simp]:
  "p_ctrl (demo_at k q ph evs r) = \<lparr>c_cache = k, c_queue = q, c_resolver = r\<rparr>"
  "p_workers (demo_at k q ph evs r) = (\<lambda>w. Idle)(0 := ph)"
  "e_policies (demo_at k q ph evs r) = []" "e_bindings (demo_at k q ph evs r) = evs"
  "e_statuses (demo_at k q ph evs r) = []"
  by (simp_all add: demo_at_def)

lemma managed_no_policy:
  assumes "event_step D v (others_remove dep) tells e e'"
    and "\<And>w i sbp. p_workers e w \<noteq> Fetched i (FetchedPolicy sbp)"
  shows "managed_event_step D v dep tells e e'"
  using assms by (auto intro!: managed_event_step.managed simp: acts_def)

text \<open>The steps of the worker, one by one.\<close>

lemma demo_at_take:
  "demo_managed_step (demo_at k (demo_empty_queue\<lparr>dq_items := [i]\<rparr>) Idle [] r)
     (demo_at k (demo_empty_queue\<lparr>dq_busy := [i]\<rparr>) (Took i) [] r)"
proof (rule managed_no_policy)
  let ?e = "demo_at k (demo_empty_queue\<lparr>dq_items := [i]\<rparr>) Idle [] r"
  show "demo_others_step ?e (demo_at k (demo_empty_queue\<lparr>dq_busy := [i]\<rparr>) (Took i) [] r)"
    using worker_step.take [THEN crew_step.work, THEN event_step.crew, of ?e 0 demo_deps i
        "demo_empty_queue\<lparr>dq_busy := [i]\<rparr>" demo_view "others_remove demo_deployed"
        generation_tells]
    by (simp add: demo_at_def demo_Get demo_empty_queue_def)
qed simp

lemma demo_at_read:
  assumes "fetch demo_deps i k = Returns f"
  shows "demo_managed_step (demo_at k q (Took i) [] r) (demo_at k q (Fetched i f) [] r)"
proof (rule managed_no_policy)
  let ?e = "demo_at k q (Took i) [] r"
  show "demo_others_step ?e (demo_at k q (Fetched i f) [] r)"
    using worker_step.read [THEN crew_step.work, THEN event_step.crew, of ?e 0 i demo_deps f
        demo_view "others_remove demo_deployed" generation_tells] assms
    by (simp add: demo_at_def)
qed simp

lemma demo_at_act:
  assumes "apply_fetched demo_deps f \<lparr>c_cache = k, c_queue = q, c_resolver = r\<rparr> =
      (Returns err, \<lparr>c_cache = k, c_queue = q, c_resolver = r'\<rparr>)"
  shows "demo_others_step (demo_at k q (Fetched i f) [] r) (demo_at k q (Applied i err) [] r')"
    and "acts demo_deps 0 i f (demo_at k q (Fetched i f) [] r) (demo_at k q (Applied i err) [] r')"
    and "(\<And>sbp. f = FetchedPolicy sbp \<Longrightarrow> noted_in_step demo_deployed sbp r) \<Longrightarrow>
      demo_managed_step (demo_at k q (Fetched i f) [] r) (demo_at k q (Applied i err) [] r')"
proof -
  let ?e = "demo_at k q (Fetched i f) [] r" and ?e' = "demo_at k q (Applied i err) [] r'"
  show s: "demo_others_step ?e ?e'"
    using worker_step.act [THEN crew_step.work, THEN event_step.crew, of ?e 0 i f demo_deps err
        _ demo_view "others_remove demo_deployed" generation_tells] assms
    by (simp add: demo_at_def)
  show "acts demo_deps 0 i f ?e ?e'" using assms by (simp add: acts_def demo_at_def)
  show "demo_managed_step ?e ?e'"
    if "\<And>sbp. f = FetchedPolicy sbp \<Longrightarrow> noted_in_step demo_deployed sbp r"
    using that
    by (intro managed_event_step.managed [OF s]) (auto simp: acts_def split: if_splits)
qed

lemma demo_at_finish:
  "demo_managed_step (demo_at k (demo_empty_queue\<lparr>dq_busy := [i]\<rparr>) (Applied i None) [] r)
     (demo_at k demo_empty_queue Idle [] r)"
proof (rule managed_no_policy)
  let ?e = "demo_at k (demo_empty_queue\<lparr>dq_busy := [i]\<rparr>) (Applied i None) [] r"
  show "demo_others_step ?e (demo_at k demo_empty_queue Idle [] r)"
    using worker_step.finish [THEN crew_step.work, THEN event_step.crew, of ?e 0 i None demo_deps
        demo_view "others_remove demo_deployed" generation_tells]
    by (simp add: demo_at_def finish_item_def on_queue_def demo_empty_queue_def)
qed simp

lemma demo_at_turn:
  assumes "fetch demo_deps i k = Returns f"
    and "apply_fetched demo_deps f
      \<lparr>c_cache = k, c_queue = demo_empty_queue\<lparr>dq_busy := [i]\<rparr>, c_resolver = r\<rparr> =
      (Returns None,
       \<lparr>c_cache = k, c_queue = demo_empty_queue\<lparr>dq_busy := [i]\<rparr>, c_resolver = r'\<rparr>)"
    and "\<And>sbp. f = FetchedPolicy sbp \<Longrightarrow> noted_in_step demo_deployed sbp r"
  shows "demo_managed_step\<^sup>*\<^sup>* (demo_system k [i] r [] []) (demo_system k [] r' [] [])"
proof -
  have "demo_empty_queue\<lparr>dq_items := []\<rparr> = demo_empty_queue" by (simp add: demo_empty_queue_def)
  with demo_at_finish demo_at_act(3) [OF assms(2,3)] demo_at_read [OF assms(1)] demo_at_take
  show ?thesis unfolding demo_system_at
    by (metis converse_rtranclp_into_rtranclp r_into_rtranclp)
qed

lemma others_remove_change: "others_remove dep r s \<Longrightarrow> api_change r s"
  by (auto simp: others_remove_def api_change_def)

lemma event_step_mono:
  assumes "event_step D v api tells e e'" and "\<And>r s. api r s \<Longrightarrow> api' r s"
  shows "event_step D v api' tells e e'"
  using assms(1)
proof cases
  case crew
  then show ?thesis
    by cases (use assms(2) in \<open>auto intro: event_step.crew crew_step.intros\<close>)
qed (auto intro: event_step.intros)

lemma managed_event: "demo_managed_step e e' \<Longrightarrow> demo_event_step e e'"
  by (auto elim!: managed_event_step.cases intro: event_step_mono others_remove_change)

lemma managed_run:
  assumes "demo_managed_step\<^sup>*\<^sup>* e e'" shows "demo_event_step\<^sup>*\<^sup>* e e'"
  using assms by (rule rtranclp_mono [THEN predicate2D, rotated]) (auto intro: managed_event)

lemma demo_policy_turn_managed: "demo_managed_step\<^sup>*\<^sup>*
    (demo_system demo_full_cache [demo_web] (new_resolver demo_start) [] [])
    (demo_system demo_full_cache [] demo_started [] [])"
proof (rule demo_at_turn)
  show "fetch demo_deps demo_web demo_full_cache = Returns (FetchedPolicy demo_policy)"
    by (simp add: fetch_def demo_lister_Get demo_full_cache_def)
  show "noted_in_step demo_deployed sbp (new_resolver demo_start)"
    if "FetchedPolicy demo_policy = FetchedPolicy sbp" for sbp
    using that demo_noted_in_step by simp
qed (simp add: apply_fetched_def call_resolver_def demo_note)

lemmas demo_policy_turn = managed_run [OF demo_policy_turn_managed]

lemma demo_system_run: "demo_event_step\<^sup>*\<^sup>*
    (demo_system demo_no_cache [] (new_resolver demo_start) [] [])
    (demo_system demo_full_cache [] demo_started [] [])"
  using converse_rtranclp_into_rtranclp [OF demo_policy_appears
      converse_rtranclp_into_rtranclp [OF demo_policy_delivered demo_policy_turn]] .

section \<open>The policy moves on\<close>

text \<open>The combined status appears on the API server, and the Binding in the cache.\<close>

abbreviation demo_ref :: work_item where
  "demo_ref \<equiv> BindingRef ''web.stage.dev''"

definition demo_bound_cache :: demo_cache where
  "demo_bound_cache = demo_full_cache\<lparr>dc_bindings := [demo_binding]\<rparr>"

lemma demo_at_observed:
  "demo_managed_step (demo_at k q Idle [] demo_started) (demo_at k q Idle [] demo_observed)"
proof (rule managed_no_policy)
  let ?e = "demo_at k q Idle [] demo_started"
  have "others_remove demo_deployed (p_resolver ?e) demo_observed"
    unfolding others_remove_def
    by (rule exI [of _ "world demo_observed"]) (simp add: demo_observed_def demo_deployed_def)
  from crew_step.others [THEN event_step.crew, of "others_remove demo_deployed", OF this,
      of demo_deps demo_view generation_tells]
  show "demo_others_step ?e (demo_at k q Idle [] demo_observed)" by (simp add: demo_at_def)
qed simp

lemma demo_at_binding:
  "demo_managed_step (demo_at demo_full_cache q Idle [] r)
     (demo_at demo_bound_cache q Idle [Added (BindingObject demo_binding)] r)"
proof (rule managed_no_policy)
  let ?e = "demo_at demo_full_cache q Idle [] r" and ?ev = "Added (BindingObject demo_binding)"
  have same: "status_at demo_deps demo_bound_cache = status_at demo_deps demo_full_cache"
    "policy_at demo_deps demo_bound_cache = policy_at demo_deps demo_full_cache"
    by (rule demo_other_at(2), simp add: demo_bound_cache_def)
       (simp add: fun_eq_iff demo_policy_at demo_bound_cache_def)
  have "binding_at demo_deps demo_full_cache = Map.empty"
    "binding_at demo_deps demo_bound_cache = [''web.stage.dev'' \<mapsto> BindingObject demo_binding]"
    by (auto simp: fun_eq_iff binding_at_def demo_full_cache_def demo_bound_cache_def)
  then have "informs (binding_at demo_deps (p_cache ?e)) ?ev (binding_at demo_deps demo_bound_cache)"
    by simp (rule exI [of _ "''web.stage.dev''"], simp)
  then have "demo_others_step ?e (?e\<lparr>p_ctrl := (p_ctrl ?e)\<lparr>c_cache := demo_bound_cache\<rparr>,
      e_bindings := e_bindings ?e @ [?ev]\<rparr>)"
    by (rule event_step.binding_change) (simp_all add: same)
  then show "demo_others_step ?e (demo_at demo_bound_cache q Idle [?ev] r)"
    by (simp add: demo_at_def)
qed simp

lemma demo_at_binding_event:
  "demo_managed_step
     (demo_at k demo_empty_queue Idle [Added (BindingObject demo_binding)] r)
     (demo_at k (demo_empty_queue\<lparr>dq_items := [demo_ref]\<rparr>) Idle [] r)"
proof (rule managed_no_policy)
  let ?e = "demo_at k demo_empty_queue Idle [Added (BindingObject demo_binding)] r"
  have "demo_others_step ?e
      (?e\<lparr>p_ctrl := on_queue (wq_Add demo_wq demo_ref) (p_ctrl ?e), e_bindings := []\<rparr>)"
    by (rule event_step.binding_event [where ev = "Added (BindingObject demo_binding)"])
       (simp_all add: handler_simps)
  then show "demo_others_step ?e (demo_at k (demo_empty_queue\<lparr>dq_items := [demo_ref]\<rparr>) Idle [] r)"
    by (simp add: demo_at_def on_queue_def demo_empty_queue_def)
qed simp

text \<open>The state in which worker 0 is about to note the Binding, and the one after it.\<close>

definition demo_about :: "(demo_cache, demo_queue, demo_world resolver) event_crew" where
  "demo_about = demo_at demo_bound_cache (demo_empty_queue\<lparr>dq_busy := [demo_ref]\<rparr>)
     (Fetched demo_ref (FetchedBinding demo_binding)) [] demo_observed"

definition demo_moved ::
  "demo_world resolver \<Rightarrow> (demo_cache, demo_queue, demo_world resolver) event_crew" where
  "demo_moved r = demo_at demo_bound_cache (demo_empty_queue\<lparr>dq_busy := [demo_ref]\<rparr>)
     (Applied demo_ref None) [] r"

lemma demo_read_binding:
  "fetch demo_deps demo_ref demo_bound_cache = Returns (FetchedBinding demo_binding)"
  by (simp add: fetch_def demo_bound_cache_def)

lemma demo_about_run: "demo_managed_step\<^sup>*\<^sup>*
    (demo_system demo_no_cache [] (new_resolver demo_start) [] []) demo_about"
proof -
  note step = rtranclp.rtrancl_into_rtrancl [where r = demo_managed_step]
  have appears: "demo_managed_step (demo_system demo_no_cache [] r [] [])
      (demo_system demo_full_cache [] r [Added (SBPObject demo_policy)] [])"
    and delivered: "demo_managed_step (demo_system k [] r [Added (SBPObject demo_policy)] [])
      (demo_system k [demo_web] r [] [])" for k r
    by (rule managed_no_policy [OF demo_policy_appears] managed_no_policy [OF demo_policy_delivered];
        simp)+
  have empty: "demo_empty_queue\<lparr>dq_items := []\<rparr> = demo_empty_queue"
    by (simp add: demo_empty_queue_def)
  have "demo_managed_step\<^sup>*\<^sup>* (demo_system demo_no_cache [] (new_resolver demo_start) [] [])
      (demo_system demo_full_cache [] demo_started [] [])"
    using converse_rtranclp_into_rtranclp [OF appears
        converse_rtranclp_into_rtranclp [OF delivered demo_policy_turn_managed]] .
  then have "demo_managed_step\<^sup>*\<^sup>* (demo_system demo_no_cache [] (new_resolver demo_start) [] [])
      (demo_at demo_full_cache demo_empty_queue Idle [] demo_started)"
    by (simp only: demo_system_at [of demo_full_cache] empty)
  from step [OF step [OF step [OF step [OF step [OF this
      demo_at_observed] demo_at_binding] demo_at_binding_event] demo_at_take]
      demo_at_read [OF demo_read_binding]]
  show ?thesis by (simp add: demo_about_def)
qed

lemma demo_moves:
  obtains r where "acts demo_deps 0 demo_ref (FetchedBinding demo_binding) demo_about (demo_moved r)"
    and "demo_managed_step demo_about (demo_moved r)"
    and "stagedBindingPolicies r ''web'' = Some (demo_data [demo_dev, demo_prod] 1)"
proof -
  obtain r where bound: "NoteBinding demo_clients demo_binding demo_observed = (Returns (), r)"
    and d: "stagedBindingPolicies r ''web'' = Some (demo_data [demo_dev, demo_prod] 1)"
    using demo_bind by blast
  have "apply_fetched demo_deps (FetchedBinding demo_binding)
      \<lparr>c_cache = demo_bound_cache, c_queue = demo_empty_queue\<lparr>dq_busy := [demo_ref]\<rparr>,
       c_resolver = demo_observed\<rparr> =
      (Returns None, \<lparr>c_cache = demo_bound_cache,
       c_queue = demo_empty_queue\<lparr>dq_busy := [demo_ref]\<rparr>, c_resolver = r\<rparr>)"
    by (simp add: apply_fetched_def call_resolver_def bound)
  from demo_at_act(2,3) [OF this, of demo_ref] d show thesis
    by (intro that [of r]) (simp_all add: demo_about_def demo_moved_def)
qed

lemma demo_about_worker:
  assumes "acts demo_deps w i f demo_about e" shows "f = FetchedBinding demo_binding"
  using assms by (auto simp: acts_def demo_about_def split: if_splits)

lemma demo_about_resolver [simp]:
  "p_resolver demo_about = demo_observed" "p_resolver (demo_moved r) = r"
  by (simp_all add: demo_about_def demo_moved_def)

section \<open>The same turn, step by step\<close>

lemma demo_timers_lawful: "timers_lawful demo_view"
  unfolding timers_lawful_def
proof (intro allI impI)
  fix q :: demo_queue assume "waits demo_view q \<noteq> {}"
  then have "timer_fires demo_view q (q\<lparr>dq_items := dq_items q @ dq_waits q, dq_waits := []\<rparr>)"
    by (auto simp: timer_fires_def)
  then show "\<exists>q'. timer_fires demo_view q q'" ..
qed

abbreviation demo_labelled_step where
  "demo_labelled_step \<equiv> system_step demo_deps demo_view {0} api_change generation_tells"

lemma demo_labelled_work:
  assumes "worker_step demo_deps 0 e e'" and "\<And>i err. p_workers e 0 \<noteq> Applied i (Some err)"
  shows "demo_labelled_step Own e e'"
  using assms by (intro system_step.work) auto

lemma demo_labelled_turn:
  "labelled_run demo_labelled_step
     (demo_system demo_full_cache [demo_web] (new_resolver demo_start) [] []) [Own, Own, Own, Own]
     (demo_system demo_full_cache [] demo_started [] [])"
proof -
  let ?busy = "demo_empty_queue\<lparr>dq_busy := [demo_web]\<rparr>" and ?r = "new_resolver demo_start"
  let ?f = "FetchedPolicy demo_policy"
  let ?e0 = "demo_at demo_full_cache (demo_empty_queue\<lparr>dq_items := [demo_web]\<rparr>) Idle [] ?r"
  let ?e1 = "demo_at demo_full_cache ?busy (Took demo_web) [] ?r"
  let ?e2 = "demo_at demo_full_cache ?busy (Fetched demo_web ?f) [] ?r"
  let ?e3 = "demo_at demo_full_cache ?busy (Applied demo_web None) [] demo_started"
  let ?e4 = "demo_at demo_full_cache demo_empty_queue Idle [] demo_started"
  have "worker_step demo_deps 0 ?e0 ?e1"
    using worker_step.take [of ?e0 0 demo_deps demo_web ?busy]
    by (simp add: demo_at_def demo_Get demo_empty_queue_def)
  from demo_labelled_work [OF this] have 1: "demo_labelled_step Own ?e0 ?e1" by simp
  have "worker_step demo_deps 0 ?e1 ?e2"
    using worker_step.read [of ?e1 0 demo_web demo_deps ?f]
    by (simp add: demo_at_def fetch_def demo_lister_Get demo_full_cache_def)
  from demo_labelled_work [OF this] have 2: "demo_labelled_step Own ?e1 ?e2" by simp
  have "worker_step demo_deps 0 ?e2 ?e3"
    using worker_step.act [of ?e2 0 demo_web ?f demo_deps None
        "\<lparr>c_cache = demo_full_cache, c_queue = ?busy, c_resolver = demo_started\<rparr>"]
    by (simp add: demo_at_def apply_fetched_def call_resolver_def demo_note)
  from demo_labelled_work [OF this] have 3: "demo_labelled_step Own ?e2 ?e3" by simp
  have "worker_step demo_deps 0 ?e3 ?e4"
    using worker_step.finish [of ?e3 0 demo_web None demo_deps]
    by (simp add: demo_at_def finish_item_def on_queue_def demo_empty_queue_def)
  from demo_labelled_work [OF this] have 4: "demo_labelled_step Own ?e3 ?e4" by simp
  have "demo_empty_queue\<lparr>dq_items := []\<rparr> = demo_empty_queue" by (simp add: demo_empty_queue_def)
  moreover note more = labelled_run.more [where step = demo_labelled_step]
  note more [OF more [OF more [OF more [OF labelled_run.start 1] 2] 3] 4]
  ultimately show ?thesis by (simp add: demo_system_at)
qed

lemma demo_stuck:
  "stuck demo_deps demo_view {0} api_change generation_tells
     (demo_system demo_full_cache [] demo_started [] [])"
proof -
  let ?e = "demo_system demo_full_cache [] demo_started [] []"
  have "\<not> worker_step demo_deps 0 ?e e'" for e'
    by (auto simp: demo_Get demo_empty_queue_def elim!: worker_step.cases)
  moreover have "\<not> timer_fires demo_view (p_queue ?e) q" for q
    by (simp add: timer_fires_def demo_empty_queue_def)
  moreover have "undelivered ?e = 0" by (simp add: undelivered_def)
  ultimately show ?thesis unfolding stuck_def by (auto elim!: system_step.cases)
qed

end
