(* ===== verification/Informer_Factory.thy ===== *)
theory Informer_Factory
  imports Lister
begin

text \<open>
  The shared informer factory (\<open>pkg/generated/informers/externalversions/factory.go\<close>): one
  informer per type, made on demand, each started once. An informer is a value \<open>'inf\<close> of
  client-go; making one allocates, so it acts on a world \<open>'w\<close>. Each method holds the factory's
  lock and is one atomic step.
\<close>

section \<open>State\<close>

text \<open>
  \<open>sf_running\<close> is the list of types whose informer's \<open>Run\<close> a goroutine was started for, and
  \<open>sf_wg\<close> the counter of the wait group. The two Go maps to booleans and durations are a set
  and a partial map.
\<close>

record ('client, 'opts, 'ty, 'inf) sharedInformerFactory =
  sf_client :: 'client
  sf_namespace :: string
  sf_tweakListOptions :: "('opts \<Rightarrow> 'opts) option"
  sf_defaultResync :: int
  sf_customResync :: "'ty \<rightharpoonup> int"
  sf_informers :: "'ty \<rightharpoonup> 'inf"
  sf_startedInformers :: "'ty set"
  sf_wg :: nat
  sf_shuttingDown :: bool
  sf_running :: "'ty list"

type_synonym ('client, 'opts, 'ty, 'inf) factory_option =
  "('client, 'opts, 'ty, 'inf) sharedInformerFactory \<Rightarrow>
   ('client, 'opts, 'ty, 'inf) sharedInformerFactory"

section \<open>Construction\<close>

text \<open>The resync configuration maps objects to durations; its keys' types are what counts.\<close>

fun set_resyncs :: "('ty \<times> int) list \<Rightarrow> ('ty \<rightharpoonup> int) \<Rightarrow> ('ty \<rightharpoonup> int)" where
  "set_resyncs [] m = m"
| "set_resyncs ((k, v) # kvs) m = set_resyncs kvs (m(k \<mapsto> v))"

definition WithCustomResyncConfig ::
  "('obj \<Rightarrow> 'ty) \<Rightarrow> ('obj \<times> int) list \<Rightarrow> ('client, 'opts, 'ty, 'inf) factory_option" where
  "WithCustomResyncConfig TypeOf resyncConfig factory =
     factory\<lparr>sf_customResync :=
       set_resyncs (map (\<lambda>(k, v). (TypeOf k, v)) resyncConfig) (sf_customResync factory)\<rparr>"

definition WithTweakListOptions ::
  "('opts \<Rightarrow> 'opts) option \<Rightarrow> ('client, 'opts, 'ty, 'inf) factory_option" where
  "WithTweakListOptions tweakListOptions factory =
     factory\<lparr>sf_tweakListOptions := tweakListOptions\<rparr>"

definition WithNamespace :: "string \<Rightarrow> ('client, 'opts, 'ty, 'inf) factory_option" where
  "WithNamespace namespace factory = factory\<lparr>sf_namespace := namespace\<rparr>"

text \<open>\<open>v1.NamespaceAll\<close> is the empty string.\<close>

definition NewSharedInformerFactoryWithOptions ::
  "'client \<Rightarrow> int \<Rightarrow> ('client, 'opts, 'ty, 'inf) factory_option list \<Rightarrow>
   ('client, 'opts, 'ty, 'inf) sharedInformerFactory" where
  "NewSharedInformerFactoryWithOptions client defaultResync options =
     foldl (\<lambda>factory opt. opt factory)
       \<lparr>sf_client = client, sf_namespace = [], sf_tweakListOptions = None,
        sf_defaultResync = defaultResync, sf_customResync = Map.empty,
        sf_informers = Map.empty, sf_startedInformers = {}, sf_wg = 0,
        sf_shuttingDown = False, sf_running = []\<rparr>
       options"

definition NewSharedInformerFactory ::
  "'client \<Rightarrow> int \<Rightarrow> ('client, 'opts, 'ty, 'inf) sharedInformerFactory" where
  "NewSharedInformerFactory client defaultResync =
     NewSharedInformerFactoryWithOptions client defaultResync []"

definition NewFilteredSharedInformerFactory ::
  "'client \<Rightarrow> int \<Rightarrow> string \<Rightarrow> ('opts \<Rightarrow> 'opts) option \<Rightarrow>
   ('client, 'opts, 'ty, 'inf) sharedInformerFactory" where
  "NewFilteredSharedInformerFactory client defaultResync namespace tweakListOptions =
     NewSharedInformerFactoryWithOptions client defaultResync
       [WithNamespace namespace, WithTweakListOptions tweakListOptions]"

section \<open>Operations\<close>

text \<open>\<open>newFunc\<close> makes an informer from the client and the resync period.\<close>

definition InformerFor ::
  "'ty \<Rightarrow> ('client \<Rightarrow> int \<Rightarrow> 'w \<Rightarrow> 'inf \<times> 'w) \<Rightarrow>
   ('client, 'opts, 'ty, 'inf) sharedInformerFactory \<Rightarrow> 'w \<Rightarrow>
   'inf \<times> ('client, 'opts, 'ty, 'inf) sharedInformerFactory \<times> 'w" where
  "InformerFor informerType newFunc f w =
     (case sf_informers f informerType of
        Some informer \<Rightarrow> (informer, f, w)
      | None \<Rightarrow>
          (let resyncPeriod = (case sf_customResync f informerType of
                 Some period \<Rightarrow> period | None \<Rightarrow> sf_defaultResync f) in
           case newFunc (sf_client f) resyncPeriod w of
             (informer, w') \<Rightarrow>
               (informer, f\<lparr>sf_informers := (sf_informers f)(informerType \<mapsto> informer)\<rparr>, w')))"

text \<open>The body of the loop of \<open>Start\<close>, and the loop over the map in some order.\<close>

definition start_one ::
  "'ty \<Rightarrow> ('client, 'opts, 'ty, 'inf) sharedInformerFactory \<Rightarrow>
   ('client, 'opts, 'ty, 'inf) sharedInformerFactory" where
  "start_one informerType f =
     (if informerType \<notin> sf_startedInformers f then
        f\<lparr>sf_wg := sf_wg f + 1, sf_running := sf_running f @ [informerType],
          sf_startedInformers := insert informerType (sf_startedInformers f)\<rparr>
      else f)"

definition Start ::
  "'ty list \<Rightarrow> ('client, 'opts, 'ty, 'inf) sharedInformerFactory \<Rightarrow>
   ('client, 'opts, 'ty, 'inf) sharedInformerFactory" where
  "Start order f = (if sf_shuttingDown f then f else fold start_one order f)"

text \<open>
  \<open>Shutdown\<close> sets its flag under the lock and then waits for the goroutines; a goroutine that
  ends decrements the wait group (its deferred \<open>Done\<close>). \<open>Shutdown\<close> returns once the
  counter is zero.
\<close>

definition Shutdown_begin ::
  "('client, 'opts, 'ty, 'inf) sharedInformerFactory \<Rightarrow>
   ('client, 'opts, 'ty, 'inf) sharedInformerFactory" where
  "Shutdown_begin f = f\<lparr>sf_shuttingDown := True\<rparr>"

definition Shutdown_returns :: "('client, 'opts, 'ty, 'inf) sharedInformerFactory \<Rightarrow> bool" where
  "Shutdown_returns f \<longleftrightarrow> sf_shuttingDown f \<and> sf_wg f = 0"

definition goroutine_ends ::
  "('client, 'opts, 'ty, 'inf) sharedInformerFactory \<Rightarrow>
   ('client, 'opts, 'ty, 'inf) sharedInformerFactory" where
  "goroutine_ends f = f\<lparr>sf_wg := sf_wg f - 1\<rparr>"

text \<open>\<open>cache.WaitForCacheSync\<close> on one informer is a parameter.\<close>

definition WaitForCacheSync ::
  "('inf \<Rightarrow> bool) \<Rightarrow> ('client, 'opts, 'ty, 'inf) sharedInformerFactory \<Rightarrow> 'ty \<rightharpoonup> bool" where
  "WaitForCacheSync synced f =
     (\<lambda>informType. if informType \<in> sf_startedInformers f
        then map_option synced (sf_informers f informType) else None)"

section \<open>Runs\<close>

text \<open>
  What the factory's users and goroutines do, in any order. A loop over the map of informers
  visits each of its keys once.
\<close>

inductive factory_step ::
  "('client, 'opts, 'ty, 'inf) sharedInformerFactory \<times> 'w \<Rightarrow>
   ('client, 'opts, 'ty, 'inf) sharedInformerFactory \<times> 'w \<Rightarrow> bool" where
  informer_for: "InformerFor ty newFunc f w = (inform, f', w') \<Longrightarrow> factory_step (f, w) (f', w')"
| start: "set order = dom (sf_informers f) \<Longrightarrow> distinct order \<Longrightarrow>
    factory_step (f, w) (Start order f, w)"
| shutdown: "factory_step (f, w) (Shutdown_begin f, w)"
| goroutine: "sf_wg f > 0 \<Longrightarrow> factory_step (f, w) (goroutine_ends f, w)"
| world: "factory_step (f, w) (f, w')"

definition factory_ok :: "('client, 'opts, 'ty, 'inf) sharedInformerFactory \<times> 'w \<Rightarrow> bool" where
  "factory_ok s \<longleftrightarrow> (case s of (f, w) \<Rightarrow>
     distinct (sf_running f) \<and> set (sf_running f) = sf_startedInformers f \<and>
     sf_startedInformers f \<subseteq> dom (sf_informers f) \<and> sf_wg f \<le> length (sf_running f))"

lemma fold_start_one:
  "sf_informers (fold start_one order f) = sf_informers f"
  "sf_shuttingDown (fold start_one order f) = sf_shuttingDown f"
  "sf_startedInformers (fold start_one order f) = sf_startedInformers f \<union> set order"
  by (induction order arbitrary: f) (auto simp: start_one_def)

lemma start_one_ok:
  "factory_ok (f, w) \<Longrightarrow> ty \<in> dom (sf_informers f) \<Longrightarrow> factory_ok (start_one ty f, w)"
  by (auto simp: factory_ok_def start_one_def)

lemma fold_start_one_ok:
  "factory_ok (f, w) \<Longrightarrow> set order \<subseteq> dom (sf_informers f) \<Longrightarrow>
   factory_ok (fold start_one order f, w)"
proof (induction order arbitrary: f)
  case Nil
  then show ?case by simp
next
  case (Cons ty order)
  have "sf_informers (start_one ty f) = sf_informers f" by (simp add: start_one_def)
  with Cons.prems Cons.IH [OF start_one_ok [OF Cons.prems(1), of ty]] show ?case by simp
qed

lemma factory_step_ok: "factory_step s t \<Longrightarrow> factory_ok s \<Longrightarrow> factory_ok t"
proof (induction rule: factory_step.induct)
  case (informer_for ty newFunc f w inform f' w')
  then show ?case
    by (auto simp: InformerFor_def factory_ok_def Let_def split: option.splits prod.splits)
next
  case (start order f w)
  then show ?case by (simp add: Start_def fold_start_one_ok)
qed (auto simp: factory_ok_def Shutdown_begin_def goroutine_ends_def)

text \<open>A new factory: no informers yet, whatever its options.\<close>

definition factory_new :: "('client, 'opts, 'ty, 'inf) sharedInformerFactory \<Rightarrow> bool" where
  "factory_new f \<longleftrightarrow> sf_informers f = Map.empty \<and> sf_startedInformers f = {} \<and>
     sf_wg f = 0 \<and> \<not> sf_shuttingDown f \<and> sf_running f = []"

interpretation informer_factory: invariant_system "\<lambda>s. factory_new (fst s)" factory_step factory_ok
proof
  show "factory_new (fst s) \<Longrightarrow> factory_ok s" for s
    by (cases s) (simp add: factory_new_def factory_ok_def)
qed (rule factory_step_ok)

text \<open>An informer once made stays the informer of its type.\<close>

lemma factory_step_informer:
  "factory_step s t \<Longrightarrow> sf_informers (fst s) ty = Some inform \<Longrightarrow> sf_informers (fst t) ty = Some inform"
  by (induction rule: factory_step.induct)
     (auto simp: InformerFor_def Start_def fold_start_one Shutdown_begin_def goroutine_ends_def
        Let_def split: option.splits prod.splits if_splits)

interpretation kept_informer: invariant_system "\<lambda>s. sf_informers (fst s) ty = Some inform"
  factory_step "\<lambda>s. sf_informers (fst s) ty = Some inform"
  by (unfold_locales; (assumption | rule factory_step_informer))

lemma InformerFor_registers:
  "InformerFor ty newFunc f w = (inform, f', w') \<Longrightarrow> sf_informers f' ty = Some inform"
  by (auto simp: InformerFor_def Let_def split: option.splits prod.splits)

lemma InformerFor_known:
  "sf_informers f ty = Some inform \<Longrightarrow> InformerFor ty newFunc f w = (inform, f, w)"
  by (simp add: InformerFor_def)

text \<open>Nothing is started once the factory shuts down.\<close>

lemma factory_step_shut:
  "factory_step s t \<Longrightarrow> sf_shuttingDown (fst s) \<and> sf_running (fst s) = rs \<Longrightarrow>
   sf_shuttingDown (fst t) \<and> sf_running (fst t) = rs"
  by (induction rule: factory_step.induct)
     (auto simp: InformerFor_def Start_def Shutdown_begin_def goroutine_ends_def
        Let_def split: option.splits prod.splits)

interpretation shut_factory: invariant_system
  "\<lambda>s. sf_shuttingDown (fst s) \<and> sf_running (fst s) = rs" factory_step
  "\<lambda>s. sf_shuttingDown (fst s) \<and> sf_running (fst s) = rs"
  by (unfold_locales; (assumption | rule factory_step_shut))

section \<open>The informer of StagedBindingPolicies\<close>

text \<open>
  \<open>informers/externalversions/community\<close>: the group and version values carry the factory, a
  namespace and the list options' tweak; the informer is asked for at the factory. The
  factory is the receiver's state and so an argument of the operations here.
\<close>

record 'opts group =
  grp_namespace :: string
  grp_tweakListOptions :: "('opts \<Rightarrow> 'opts) option"

record 'opts version =
  ver_namespace :: string
  ver_tweakListOptions :: "('opts \<Rightarrow> 'opts) option"

record 'opts stagedBindingPolicyInformer =
  inf_tweakListOptions :: "('opts \<Rightarrow> 'opts) option"

definition New_group :: "string \<Rightarrow> ('opts \<Rightarrow> 'opts) option \<Rightarrow> 'opts group" where
  "New_group namespace tweakListOptions =
     \<lparr>grp_namespace = namespace, grp_tweakListOptions = tweakListOptions\<rparr>"

definition New_version :: "string \<Rightarrow> ('opts \<Rightarrow> 'opts) option \<Rightarrow> 'opts version" where
  "New_version namespace tweakListOptions =
     \<lparr>ver_namespace = namespace, ver_tweakListOptions = tweakListOptions\<rparr>"

definition Community ::
  "('client, 'opts, 'ty, 'inf) sharedInformerFactory \<Rightarrow> 'opts group" where
  "Community f = New_group (sf_namespace f) (sf_tweakListOptions f)"

definition V1alpha1 :: "'opts group \<Rightarrow> 'opts version" where
  "V1alpha1 g = New_version (grp_namespace g) (grp_tweakListOptions g)"

definition StagedBindingPolicies :: "'opts version \<Rightarrow> 'opts stagedBindingPolicyInformer" where
  "StagedBindingPolicies v = \<lparr>inf_tweakListOptions = ver_tweakListOptions v\<rparr>"

text \<open>
  The list and watch functions of the informer over the client's, which are parameters; the
  library's constructor of an informer takes them, the type, the period and the index names.
\<close>

record ('opts, 'l, 'wt) list_watch =
  ListFunc :: "'opts \<Rightarrow> 'l"
  WatchFunc :: "'opts \<Rightarrow> 'wt"

definition tweaked :: "('opts \<Rightarrow> 'opts) option \<Rightarrow> 'opts \<Rightarrow> 'opts" where
  "tweaked tweakListOptions options =
     (case tweakListOptions of None \<Rightarrow> options | Some tweak \<Rightarrow> tweak options)"

definition NewFilteredStagedBindingPolicyInformer ::
  "(('opts, 'l, 'wt) list_watch \<Rightarrow> 'ty \<Rightarrow> int \<Rightarrow> string list \<Rightarrow> 'w \<Rightarrow> 'inf \<times> 'w) \<Rightarrow> 'ty \<Rightarrow>
   ('client \<Rightarrow> 'opts \<Rightarrow> 'l) \<Rightarrow> ('client \<Rightarrow> 'opts \<Rightarrow> 'wt) \<Rightarrow>
   'client \<Rightarrow> int \<Rightarrow> string list \<Rightarrow> ('opts \<Rightarrow> 'opts) option \<Rightarrow> 'w \<Rightarrow> 'inf \<times> 'w" where
  "NewFilteredStagedBindingPolicyInformer NewSharedIndexInformer sbpType list watch
     client resyncPeriod indexers tweakListOptions =
     NewSharedIndexInformer
       \<lparr>ListFunc = (\<lambda>options. list client (tweaked tweakListOptions options)),
        WatchFunc = (\<lambda>options. watch client (tweaked tweakListOptions options))\<rparr>
       sbpType resyncPeriod indexers"

definition NewStagedBindingPolicyInformer ::
  "(('opts, 'l, 'wt) list_watch \<Rightarrow> 'ty \<Rightarrow> int \<Rightarrow> string list \<Rightarrow> 'w \<Rightarrow> 'inf \<times> 'w) \<Rightarrow> 'ty \<Rightarrow>
   ('client \<Rightarrow> 'opts \<Rightarrow> 'l) \<Rightarrow> ('client \<Rightarrow> 'opts \<Rightarrow> 'wt) \<Rightarrow>
   'client \<Rightarrow> int \<Rightarrow> string list \<Rightarrow> 'w \<Rightarrow> 'inf \<times> 'w" where
  "NewStagedBindingPolicyInformer NewSharedIndexInformer sbpType list watch
     client resyncPeriod indexers =
     NewFilteredStagedBindingPolicyInformer NewSharedIndexInformer sbpType list watch
       client resyncPeriod indexers None"

text \<open>\<open>cache.NamespaceIndex\<close> is the name \<open>namespace\<close>.\<close>

definition defaultInformer ::
  "(('opts, 'l, 'wt) list_watch \<Rightarrow> 'ty \<Rightarrow> int \<Rightarrow> string list \<Rightarrow> 'w \<Rightarrow> 'inf \<times> 'w) \<Rightarrow> 'ty \<Rightarrow>
   ('client \<Rightarrow> 'opts \<Rightarrow> 'l) \<Rightarrow> ('client \<Rightarrow> 'opts \<Rightarrow> 'wt) \<Rightarrow>
   'opts stagedBindingPolicyInformer \<Rightarrow> 'client \<Rightarrow> int \<Rightarrow> 'w \<Rightarrow> 'inf \<times> 'w" where
  "defaultInformer NewSharedIndexInformer sbpType list watch i client resyncPeriod =
     NewFilteredStagedBindingPolicyInformer NewSharedIndexInformer sbpType list watch
       client resyncPeriod [''namespace''] (inf_tweakListOptions i)"

definition Informer ::
  "(('opts, 'l, 'wt) list_watch \<Rightarrow> 'ty \<Rightarrow> int \<Rightarrow> string list \<Rightarrow> 'w \<Rightarrow> 'inf \<times> 'w) \<Rightarrow> 'ty \<Rightarrow>
   ('client \<Rightarrow> 'opts \<Rightarrow> 'l) \<Rightarrow> ('client \<Rightarrow> 'opts \<Rightarrow> 'wt) \<Rightarrow>
   'opts stagedBindingPolicyInformer \<Rightarrow>
   ('client, 'opts, 'ty, 'inf) sharedInformerFactory \<Rightarrow> 'w \<Rightarrow>
   'inf \<times> ('client, 'opts, 'ty, 'inf) sharedInformerFactory \<times> 'w" where
  "Informer NewSharedIndexInformer sbpType list watch i f w =
     InformerFor sbpType (defaultInformer NewSharedIndexInformer sbpType list watch i) f w"

text \<open>The lister is over the index of the informer.\<close>

definition informer_Lister ::
  "('inf \<Rightarrow> ('sel, 'k) indexer) \<Rightarrow>
   (('opts, 'l, 'wt) list_watch \<Rightarrow> 'ty \<Rightarrow> int \<Rightarrow> string list \<Rightarrow> 'w \<Rightarrow> 'inf \<times> 'w) \<Rightarrow> 'ty \<Rightarrow>
   ('client \<Rightarrow> 'opts \<Rightarrow> 'l) \<Rightarrow> ('client \<Rightarrow> 'opts \<Rightarrow> 'wt) \<Rightarrow>
   'opts stagedBindingPolicyInformer \<Rightarrow>
   ('client, 'opts, 'ty, 'inf) sharedInformerFactory \<Rightarrow> 'w \<Rightarrow>
   ('sel, 'k) stagedBindingPolicyLister \<times>
   ('client, 'opts, 'ty, 'inf) sharedInformerFactory \<times> 'w" where
  "informer_Lister GetIndexer NewSharedIndexInformer sbpType list watch i f w =
     (case Informer NewSharedIndexInformer sbpType list watch i f w of
        (inform, f', w') \<Rightarrow> (NewStagedBindingPolicyLister (GetIndexer inform), f', w'))"

text \<open>\<open>generic.go\<close>: the only resource a generic informer is known for.\<close>

type_synonym group_version_resource = "group_version \<times> string"

definition GroupResource :: "group_version_resource \<Rightarrow> group_resource" where
  "GroupResource gvr = (fst (fst gvr), snd gvr)"

record 'inf genericInformer =
  gen_informer :: 'inf
  gen_resource :: group_resource

definition ForResource ::
  "(('opts, 'l, 'wt) list_watch \<Rightarrow> 'ty \<Rightarrow> int \<Rightarrow> string list \<Rightarrow> 'w \<Rightarrow> 'inf \<times> 'w) \<Rightarrow> 'ty \<Rightarrow>
   ('client \<Rightarrow> 'opts \<Rightarrow> 'l) \<Rightarrow> ('client \<Rightarrow> 'opts \<Rightarrow> 'wt) \<Rightarrow>
   group_version_resource \<Rightarrow>
   ('client, 'opts, 'ty, 'inf) sharedInformerFactory \<Rightarrow> 'w \<Rightarrow>
   (go_error + 'inf genericInformer) \<times>
   ('client, 'opts, 'ty, 'inf) sharedInformerFactory \<times> 'w" where
  "ForResource NewSharedIndexInformer sbpType list watch resource f w =
     (if resource = (SchemeGroupVersion, ''stagedbindingpolicies'') then
        (case Informer NewSharedIndexInformer sbpType list watch
                (StagedBindingPolicies (V1alpha1 (Community f))) f w of
           (inform, f', w') \<Rightarrow>
             (Inr \<lparr>gen_informer = inform, gen_resource = GroupResource resource\<rparr>, f', w'))
      else (Inl (ErrorText ''no informer found''), f, w))"

end
