(* ===== verification/Typed_Client.thy ===== *)
theory Typed_Client
  imports Complex_Main Lister
begin

text \<open>
  The generated clients of the API group
  (\<open>pkg/generated/clientset/versioned/typed/community/v1alpha1\<close> and
  \<open>pkg/generated/clientset/versioned/clientset.go\<close>): how each call on StagedBindingPolicies
  becomes a request, and how the clients are made from a configuration. The REST client is
  not in the repository; a request is the sequence of builder calls the code makes on it.
\<close>

section \<open>Requests\<close>

text \<open>Options and bodies the code only passes on; \<open>'p\<close> is the type of patch data and types.\<close>

record list_options =
  lo_TimeoutSeconds :: "int option"
  lo_Watch :: bool
  lo_LabelSelector :: string

datatype params = GetParams go_any | ListParams list_options | WriteParams go_any

datatype body = PolicyBody staged_binding_policy | OptionsBody go_any | DataBody string

datatype builder_call =
    Get | Post | Put | Delete | Patch string
  | ResourceCall string
  | NameCall string
  | SubResource "string list"
  | VersionedParams params
  | Timeout int
  | Body body

type_synonym request = "builder_call list"

text \<open>
  What the REST client does with a finished request: \<open>Do(ctx).Into(result)\<close> for one object or
  a list, \<open>Do(ctx).Error()\<close>, and \<open>Watch(ctx)\<close>, which gives a watch \<open>'wt\<close>.
\<close>

record ('wt, 'w) rest_client =
  Do_Into :: "request \<Rightarrow> 'w \<Rightarrow> (go_error + staged_binding_policy) \<times> 'w"
  Do_IntoList :: "request \<Rightarrow> 'w \<Rightarrow> (go_error + staged_binding_policy list) \<times> 'w"
  Do_Error :: "request \<Rightarrow> 'w \<Rightarrow> go_error option \<times> 'w"
  Do_Watch :: "request \<Rightarrow> 'w \<Rightarrow> (go_error + 'wt) \<times> 'w"

section \<open>The client of StagedBindingPolicies\<close>

text \<open>\<open>time.Second\<close> in nanoseconds; \<open>time.Duration\<close> is a 64-bit integer that wraps.\<close>

definition time_Second :: int where
  "time_Second = 1000000000"

definition wrap64 :: "int \<Rightarrow> int" where
  "wrap64 n = (n + 2 ^ 63) mod 2 ^ 64 - 2 ^ 63"

definition list_timeout :: "list_options \<Rightarrow> int" where
  "list_timeout opts =
     (case lo_TimeoutSeconds opts of None \<Rightarrow> 0 | Some s \<Rightarrow> wrap64 (s * time_Second))"

definition sbp_client_Get ::
  "('wt, 'w) rest_client \<Rightarrow> string \<Rightarrow> go_any \<Rightarrow> 'w \<Rightarrow> (go_error + staged_binding_policy) \<times> 'w"
  where
  "sbp_client_Get client name options =
     Do_Into client
       [Get, ResourceCall ''stagedbindingpolicies'', NameCall name,
        VersionedParams (GetParams options)]"

definition sbp_client_List ::
  "('wt, 'w) rest_client \<Rightarrow> list_options \<Rightarrow> 'w \<Rightarrow> (go_error + staged_binding_policy list) \<times> 'w"
  where
  "sbp_client_List client opts =
     Do_IntoList client
       [Get, ResourceCall ''stagedbindingpolicies'', VersionedParams (ListParams opts),
        Timeout (list_timeout opts)]"

definition sbp_client_Watch ::
  "('wt, 'w) rest_client \<Rightarrow> list_options \<Rightarrow> 'w \<Rightarrow> (go_error + 'wt) \<times> 'w" where
  "sbp_client_Watch client opts =
     Do_Watch client
       [Get, ResourceCall ''stagedbindingpolicies'',
        VersionedParams (ListParams (opts\<lparr>lo_Watch := True\<rparr>)), Timeout (list_timeout opts)]"

definition sbp_client_Create ::
  "('wt, 'w) rest_client \<Rightarrow> staged_binding_policy \<Rightarrow> go_any \<Rightarrow> 'w \<Rightarrow>
   (go_error + staged_binding_policy) \<times> 'w" where
  "sbp_client_Create client sbp opts =
     Do_Into client
       [Post, ResourceCall ''stagedbindingpolicies'', VersionedParams (WriteParams opts),
        Body (PolicyBody sbp)]"

definition sbp_client_Update ::
  "('wt, 'w) rest_client \<Rightarrow> staged_binding_policy \<Rightarrow> go_any \<Rightarrow> 'w \<Rightarrow>
   (go_error + staged_binding_policy) \<times> 'w" where
  "sbp_client_Update client sbp opts =
     Do_Into client
       [Put, ResourceCall ''stagedbindingpolicies'', NameCall (sbp_name sbp),
        VersionedParams (WriteParams opts), Body (PolicyBody sbp)]"

definition sbp_client_UpdateStatus ::
  "('wt, 'w) rest_client \<Rightarrow> staged_binding_policy \<Rightarrow> go_any \<Rightarrow> 'w \<Rightarrow>
   (go_error + staged_binding_policy) \<times> 'w" where
  "sbp_client_UpdateStatus client sbp opts =
     Do_Into client
       [Put, ResourceCall ''stagedbindingpolicies'', NameCall (sbp_name sbp),
        SubResource [''status''], VersionedParams (WriteParams opts), Body (PolicyBody sbp)]"

definition sbp_client_Delete ::
  "('wt, 'w) rest_client \<Rightarrow> string \<Rightarrow> go_any \<Rightarrow> 'w \<Rightarrow> go_error option \<times> 'w" where
  "sbp_client_Delete client name opts =
     Do_Error client
       [Delete, ResourceCall ''stagedbindingpolicies'', NameCall name, Body (OptionsBody opts)]"

definition sbp_client_DeleteCollection ::
  "('wt, 'w) rest_client \<Rightarrow> go_any \<Rightarrow> list_options \<Rightarrow> 'w \<Rightarrow> go_error option \<times> 'w" where
  "sbp_client_DeleteCollection client opts listOpts =
     Do_Error client
       [Delete, ResourceCall ''stagedbindingpolicies'', VersionedParams (ListParams listOpts),
        Timeout (list_timeout listOpts), Body (OptionsBody opts)]"

definition sbp_client_Patch ::
  "('wt, 'w) rest_client \<Rightarrow> string \<Rightarrow> string \<Rightarrow> string \<Rightarrow> go_any \<Rightarrow> string list \<Rightarrow> 'w \<Rightarrow>
   (go_error + staged_binding_policy) \<times> 'w" where
  "sbp_client_Patch client name pt data opts subresources =
     Do_Into client
       [Patch pt, ResourceCall ''stagedbindingpolicies'', NameCall name,
        SubResource subresources, VersionedParams (WriteParams opts), Body (DataBody data)]"

section \<open>Clients from a configuration\<close>

text \<open>
  The fields of \<open>rest.Config\<close> the code reads or writes; the rest of it is \<open>'rest\<close>. A float32
  rate is a rational number; \<open>'lim\<close> is the type of rate limiters.
\<close>

record ('lim, 'cod, 'rest) rest_config =
  cfg_UserAgent :: string
  cfg_QPS :: rat
  cfg_Burst :: int
  cfg_RateLimiter :: "'lim option"
  cfg_GroupVersion :: "group_version option"
  cfg_APIPath :: string
  cfg_NegotiatedSerializer :: "'cod option"
  cfg_rest :: 'rest

text \<open>The library functions the constructors call: \<open>'http\<close> clients, REST clients \<open>'rc\<close>,
  discovery clients \<open>'disc\<close>.\<close>

record ('lim, 'cod, 'rest, 'http, 'rc, 'disc) rest_lib =
  DefaultKubernetesUserAgent :: string
  HTTPClientFor :: "('lim, 'cod, 'rest) rest_config \<Rightarrow> go_error + 'http"
  RESTClientForConfigAndClient :: "('lim, 'cod, 'rest) rest_config \<Rightarrow> 'http \<Rightarrow> go_error + 'rc"
  NewDiscoveryClientForConfigAndClient ::
    "('lim, 'cod, 'rest) rest_config \<Rightarrow> 'http \<Rightarrow> go_error + 'disc"
  NewTokenBucketRateLimiter :: "rat \<Rightarrow> int \<Rightarrow> 'lim"
  Codecs_WithoutConversion :: 'cod

text \<open>\<open>setConfigDefaults\<close> never fails; its error result is always nil.\<close>

definition setConfigDefaults ::
  "('lim, 'cod, 'rest, 'http, 'rc, 'disc) rest_lib \<Rightarrow> ('lim, 'cod, 'rest) rest_config \<Rightarrow>
   go_error option \<times> ('lim, 'cod, 'rest) rest_config" where
  "setConfigDefaults L config =
     (let config = config\<lparr>cfg_GroupVersion := Some SchemeGroupVersion, cfg_APIPath := ''/apis'',
            cfg_NegotiatedSerializer := Some (Codecs_WithoutConversion L)\<rparr> in
      (None,
       if cfg_UserAgent config = []
       then config\<lparr>cfg_UserAgent := DefaultKubernetesUserAgent L\<rparr> else config))"

record 'rc communityV1alpha1Client =
  restClient :: 'rc

definition community_NewForConfigAndClient ::
  "('lim, 'cod, 'rest, 'http, 'rc, 'disc) rest_lib \<Rightarrow> ('lim, 'cod, 'rest) rest_config \<Rightarrow>
   'http \<Rightarrow> go_error + 'rc communityV1alpha1Client" where
  "community_NewForConfigAndClient L c h =
     (case setConfigDefaults L c of
        (Some err, config) \<Rightarrow> Inl err
      | (None, config) \<Rightarrow>
          (case RESTClientForConfigAndClient L config h of
             Inl err \<Rightarrow> Inl err | Inr client \<Rightarrow> Inr \<lparr>restClient = client\<rparr>))"

definition community_NewForConfig ::
  "('lim, 'cod, 'rest, 'http, 'rc, 'disc) rest_lib \<Rightarrow> ('lim, 'cod, 'rest) rest_config \<Rightarrow>
   go_error + 'rc communityV1alpha1Client" where
  "community_NewForConfig L c =
     (case setConfigDefaults L c of
        (Some err, config) \<Rightarrow> Inl err
      | (None, config) \<Rightarrow>
          (case HTTPClientFor L config of
             Inl err \<Rightarrow> Inl err
           | Inr httpClient \<Rightarrow> community_NewForConfigAndClient L config httpClient))"

definition community_NewForConfigOrDie ::
  "('lim, 'cod, 'rest, 'http, 'rc, 'disc) rest_lib \<Rightarrow> ('lim, 'cod, 'rest) rest_config \<Rightarrow>
   'rc communityV1alpha1Client outcome" where
  "community_NewForConfigOrDie L c =
     (case community_NewForConfig L c of
        Inl err \<Rightarrow> Panics ExplicitPanic | Inr client \<Rightarrow> Returns client)"

text \<open>\<open>RESTClient\<close> on a nil client is nil.\<close>

definition RESTClient :: "'rc communityV1alpha1Client option \<Rightarrow> 'rc option" where
  "RESTClient c = (case c of None \<Rightarrow> None | Some client \<Rightarrow> Some (restClient client))"

text \<open>The client of the policies, on the REST client of the group.\<close>

record 'rc stagedBindingPolicies_client =
  sbps_client :: 'rc

definition newStagedBindingPolicies ::
  "'rc communityV1alpha1Client \<Rightarrow> 'rc stagedBindingPolicies_client" where
  "newStagedBindingPolicies c = \<lparr>sbps_client = restClient c\<rparr>"

definition community_StagedBindingPolicies ::
  "'rc communityV1alpha1Client \<Rightarrow> 'rc stagedBindingPolicies_client" where
  "community_StagedBindingPolicies c = newStagedBindingPolicies c"

record ('rc, 'disc) clientset =
  communityV1alpha1 :: "'rc communityV1alpha1Client"
  discoveryClient :: 'disc

definition burst_error :: go_error where
  "burst_error = ErrorText ''burst is required to be greater than 0''"

definition NewForConfigAndClient ::
  "('lim, 'cod, 'rest, 'http, 'rc, 'disc) rest_lib \<Rightarrow> ('lim, 'cod, 'rest) rest_config \<Rightarrow>
   'http \<Rightarrow> go_error + ('rc, 'disc) clientset" where
  "NewForConfigAndClient L c httpClient =
     (if cfg_RateLimiter c = None \<and> cfg_QPS c > 0 \<and> cfg_Burst c \<le> 0 then Inl burst_error
      else
        (let config = (if cfg_RateLimiter c = None \<and> cfg_QPS c > 0
               then c\<lparr>cfg_RateLimiter := Some (NewTokenBucketRateLimiter L (cfg_QPS c) (cfg_Burst c))\<rparr>
               else c) in
         case community_NewForConfigAndClient L config httpClient of
           Inl err \<Rightarrow> Inl err
         | Inr client \<Rightarrow>
             (case NewDiscoveryClientForConfigAndClient L config httpClient of
                Inl err \<Rightarrow> Inl err
              | Inr disc \<Rightarrow> Inr \<lparr>communityV1alpha1 = client, discoveryClient = disc\<rparr>)))"

definition NewForConfig ::
  "('lim, 'cod, 'rest, 'http, 'rc, 'disc) rest_lib \<Rightarrow> ('lim, 'cod, 'rest) rest_config \<Rightarrow>
   go_error + ('rc, 'disc) clientset" where
  "NewForConfig L c =
     (let config = (if cfg_UserAgent c = []
            then c\<lparr>cfg_UserAgent := DefaultKubernetesUserAgent L\<rparr> else c) in
      case HTTPClientFor L config of
        Inl err \<Rightarrow> Inl err
      | Inr httpClient \<Rightarrow> NewForConfigAndClient L config httpClient)"

definition NewForConfigOrDie ::
  "('lim, 'cod, 'rest, 'http, 'rc, 'disc) rest_lib \<Rightarrow> ('lim, 'cod, 'rest) rest_config \<Rightarrow>
   ('rc, 'disc) clientset outcome" where
  "NewForConfigOrDie L c =
     (case NewForConfig L c of Inl err \<Rightarrow> Panics ExplicitPanic | Inr cs \<Rightarrow> Returns cs)"

text \<open>Over a REST client, with no error possible; and what a set gives out, nil for a nil set.\<close>

definition community_New :: "'rc \<Rightarrow> 'rc communityV1alpha1Client" where
  "community_New c = \<lparr>restClient = c\<rparr>"

definition New :: "('rc \<Rightarrow> 'disc) \<Rightarrow> 'rc \<Rightarrow> ('rc, 'disc) clientset" where
  "New NewDiscoveryClient c =
     \<lparr>communityV1alpha1 = community_New c, discoveryClient = NewDiscoveryClient c\<rparr>"

definition Discovery :: "('rc, 'disc) clientset option \<Rightarrow> 'disc option" where
  "Discovery c = (case c of None \<Rightarrow> None | Some cs \<Rightarrow> Some (discoveryClient cs))"

definition clientset_CommunityV1alpha1 ::
  "('rc, 'disc) clientset \<Rightarrow> 'rc communityV1alpha1Client" where
  "clientset_CommunityV1alpha1 c = communityV1alpha1 c"

text \<open>The client of the policies that a clientset over a REST client gives out uses that one.\<close>

lemma New_policies_client:
  "sbps_client (community_StagedBindingPolicies (clientset_CommunityV1alpha1 (New f rc))) = rc"
  by (simp add: community_StagedBindingPolicies_def newStagedBindingPolicies_def
      clientset_CommunityV1alpha1_def New_def community_New_def)

section \<open>What a clientset is made of\<close>

text \<open>The configuration both clients of a set share, and what the group's client gets of it.\<close>

definition shared_config ::
  "('lim, 'cod, 'rest, 'http, 'rc, 'disc) rest_lib \<Rightarrow> ('lim, 'cod, 'rest) rest_config \<Rightarrow>
   ('lim, 'cod, 'rest) rest_config" where
  "shared_config L c = c\<lparr>
     cfg_UserAgent := (if cfg_UserAgent c = [] then DefaultKubernetesUserAgent L else cfg_UserAgent c),
     cfg_RateLimiter :=
       (if cfg_RateLimiter c = None \<and> cfg_QPS c > 0
        then Some (NewTokenBucketRateLimiter L (cfg_QPS c) (cfg_Burst c)) else cfg_RateLimiter c)\<rparr>"

definition group_config ::
  "('lim, 'cod, 'rest, 'http, 'rc, 'disc) rest_lib \<Rightarrow> ('lim, 'cod, 'rest) rest_config \<Rightarrow>
   ('lim, 'cod, 'rest) rest_config" where
  "group_config L c = (shared_config L c)\<lparr>
     cfg_UserAgent := (if cfg_UserAgent (shared_config L c) = [] then DefaultKubernetesUserAgent L
       else cfg_UserAgent (shared_config L c)),
     cfg_GroupVersion := Some GroupVersion, cfg_APIPath := ''/apis'',
     cfg_NegotiatedSerializer := Some (Codecs_WithoutConversion L)\<rparr>"

lemma NewForConfig_Inr:
  "NewForConfig L c = Inr cs \<longleftrightarrow>
   (cfg_RateLimiter c = None \<and> cfg_QPS c > 0 \<longrightarrow> cfg_Burst c > 0) \<and>
   (\<exists>http. HTTPClientFor L ((shared_config L c)\<lparr>cfg_RateLimiter := cfg_RateLimiter c\<rparr>) = Inr http \<and>
     RESTClientForConfigAndClient L (group_config L c) http = Inr (restClient (communityV1alpha1 cs)) \<and>
     NewDiscoveryClientForConfigAndClient L (shared_config L c) http = Inr (discoveryClient cs))"
proof -
  let ?c = "if cfg_UserAgent c = [] then c\<lparr>cfg_UserAgent := DefaultKubernetesUserAgent L\<rparr> else c"
  have c: "?c = (shared_config L c)\<lparr>cfg_RateLimiter := cfg_RateLimiter c\<rparr>"
    by (cases c) (simp add: shared_config_def)
  have sc: "(if cfg_RateLimiter ?c = None \<and> cfg_QPS ?c > 0
       then ?c\<lparr>cfg_RateLimiter := Some (NewTokenBucketRateLimiter L (cfg_QPS ?c) (cfg_Burst ?c))\<rparr>
       else ?c) = shared_config L c"
    by (cases c) (simp add: shared_config_def)
  have gc: "setConfigDefaults L (shared_config L c) = (None, group_config L c)"
    by (cases c) (simp add: setConfigDefaults_def group_config_def shared_config_def Let_def
        SchemeGroupVersion_eq_GroupVersion)
  have b: "(cfg_RateLimiter ?c = None \<and> cfg_QPS ?c > 0 \<and> cfg_Burst ?c \<le> 0) \<longleftrightarrow>
      \<not> (cfg_RateLimiter c = None \<and> cfg_QPS c > 0 \<longrightarrow> cfg_Burst c > 0)"
    by auto
  have cs: "Inr \<lparr>communityV1alpha1 = \<lparr>restClient = a\<rparr>, discoveryClient = d\<rparr> =
        (Inr cs :: go_error + _) \<longleftrightarrow>
      a = restClient (communityV1alpha1 cs) \<and> d = discoveryClient cs" for a d
    by (cases cs; cases "communityV1alpha1 cs") auto
  show ?thesis
    unfolding NewForConfig_def Let_def NewForConfigAndClient_def sc b c [symmetric]
      community_NewForConfigAndClient_def gc prod.case
    by (auto simp: cs [symmetric] split: sum.splits)
qed

end
