(* ===== verification/Startup.thy ===== *)
theory Startup
  imports Event_Handlers Informer_Factory Typed_Client
begin

text \<open>
  From \<open>main\<close> to the running workers: \<open>cmd/controller-manager/main.go\<close> and, of
  \<open>controller.go\<close>, \<open>NewController\<close>, \<open>makeController\<close>, \<open>Start\<close> and \<open>run\<close>. What the library
  makes (managers, KubeStellar's clients, factories and informers, queues) are values \<open>'o\<close>;
  its calls act on a world \<open>'w\<close>. Logging is left out.
\<close>

section \<open>The library\<close>

text \<open>The constants of the rate limiters, durations in nanoseconds.\<close>

record queue_config =
  qc_baseDelay :: int
  qc_maxDelay :: int
  qc_limit :: nat
  qc_burst :: nat
  qc_name :: string

record manager_options =
  mo_metrics :: string
  mo_pprof :: string
  mo_probe :: string
  mo_LeaderElection :: bool
  mo_LeaderElectionID :: string

type_synonym 'o config = "('o, 'o, 'o) rest_config"

type_synonym 'o sbp_factory = "(('o, 'o) clientset, 'o, string, 'o) sharedInformerFactory"

text \<open>
  \<open>GetConfigOrDie\<close> ends the process when there is no configuration (\<open>None\<close>). \<open>await_start\<close> is
  what the \<open>select\<close> of \<open>Start\<close> takes first: the result of \<open>run\<close> or, after three seconds, nil.
\<close>

record ('o, 'ast, 'prog, 's, 'w) startup_lib =
  rest :: "('o, 'o, 'o, 'o, 'o, 'o) rest_lib"
  cel_NewEnv :: "cel_decl list \<Rightarrow> go_error + ('ast, 'prog) cel_env"
  LimitConfig :: "'o config \<Rightarrow> 'o config"
  ks_ControlV1alpha1 :: "'o \<Rightarrow> 'o"
  GetIndexer :: "'o \<Rightarrow> ('o, 'o) indexer"
  sbp_list :: "('o, 'o) clientset \<Rightarrow> 'o \<Rightarrow> 'o"
  sbp_watch :: "('o, 'o) clientset \<Rightarrow> 'o \<Rightarrow> 'o"
  range_types :: "(string \<rightharpoonup> 'o) \<Rightarrow> string list"
  GetConfigOrDie :: "'w \<Rightarrow> 'o option \<times> 'w"
  NewManager :: "'o \<Rightarrow> manager_options \<Rightarrow> 'w \<Rightarrow> (go_error + 'o) \<times> 'w"
  AddHealthzCheck :: "'o \<Rightarrow> string \<Rightarrow> 'w \<Rightarrow> go_error option \<times> 'w"
  AddReadyzCheck :: "'o \<Rightarrow> string \<Rightarrow> 'w \<Rightarrow> go_error option \<times> 'w"
  GetWDSKubeconfig :: "string \<Rightarrow> 'w \<Rightarrow> (go_error + 'o config \<times> string) \<times> 'w"
  ks_NewForConfig :: "'o config \<Rightarrow> 'w \<Rightarrow> (go_error + 'o) \<times> 'w"
  ks_NewSharedInformerFactory :: "'o \<Rightarrow> int \<Rightarrow> 'w \<Rightarrow> 'o \<times> 'w"
  Bindings_Informer :: "'o \<Rightarrow> 'w \<Rightarrow> 'o \<times> 'w"
  Bindings_Lister :: "'o \<Rightarrow> 'w \<Rightarrow> 'o \<times> 'w"
  CombinedStatuses_Informer :: "'o \<Rightarrow> 'w \<Rightarrow> 'o \<times> 'w"
  CombinedStatuses_Lister :: "'o \<Rightarrow> 'w \<Rightarrow> 'o \<times> 'w"
  NewSharedIndexInformer ::
    "('o, 'o, 'o) list_watch \<Rightarrow> string \<Rightarrow> int \<Rightarrow> string list \<Rightarrow> 'w \<Rightarrow> 'o \<times> 'w"
  NewRateLimitingQueue :: "queue_config \<Rightarrow> 'w \<Rightarrow> 'o \<times> 'w"
  AddEventHandler :: "'o \<Rightarrow> ('o, 'o, 's) handlers \<Rightarrow> 'w \<Rightarrow> go_error option \<times> 'w"
  ks_Start :: "'o \<Rightarrow> 'w \<Rightarrow> 'w"
  go_Run :: "'o \<Rightarrow> 'w \<Rightarrow> 'w"
  cache_WaitForCacheSync :: "'o list \<Rightarrow> 'w \<Rightarrow> bool \<times> 'w"
  await_start :: "int \<Rightarrow> 'w \<Rightarrow> go_error option \<times> 'w"
  mgr_Start :: "'o \<Rightarrow> 'w \<Rightarrow> go_error option \<times> 'w"

section \<open>Making the controller\<close>

text \<open>What \<open>NewResolver\<close> is called with.\<close>

record ('o, 'ast, 'prog) resolver_parts =
  rp_combinedStatusLister :: 'o
  rp_controlClient :: 'o
  rp_communityClient :: "'o communityV1alpha1Client"
  rp_celEvaluator :: "('ast, 'prog) celEvaluator"

text \<open>The two \<open>Start\<close> methods it holds are those of its factories.\<close>

record ('o, 'ast, 'prog) controller_struct =
  ctl_wdsName :: string
  ctl_controlClient :: 'o
  ctl_communityClient :: "'o communityV1alpha1Client"
  ctl_ksFactory :: 'o
  ctl_sbpFactory :: "'o sbp_factory"
  ctl_bindingInformer :: 'o
  ctl_bindingLister :: 'o
  ctl_combinedStatusInformer :: 'o
  ctl_combinedStatusLister :: 'o
  ctl_sbpInformer :: 'o
  ctl_sbpLister :: "('o, 'o) stagedBindingPolicyLister"
  ctl_workqueue :: 'o
  ctl_resolver :: "('o, 'ast, 'prog) resolver_parts option"

definition ControllerName :: string where
  "ControllerName = ''StagedBindingPolicyController''"

definition defaultResyncPeriod :: int where
  "defaultResyncPeriod = 0"

definition sbpType :: string where
  "sbpType = ''StagedBindingPolicy''"

definition controller_queue_config :: "string \<Rightarrow> queue_config" where
  "controller_queue_config wdsName =
     \<lparr>qc_baseDelay = 5 * 1000000, qc_maxDelay = 1000 * 1000000000,
      qc_limit = 50, qc_burst = 300, qc_name = ControllerName @ ''-'' @ wdsName\<rparr>"

definition makeController ::
  "('o, 'ast, 'prog, 's, 'w) startup_lib \<Rightarrow> 'o \<Rightarrow> 'o communityV1alpha1Client \<Rightarrow> 'o \<Rightarrow>
   'o sbp_factory \<Rightarrow> string \<Rightarrow> 'w \<Rightarrow>
   (go_error + ('o, 'ast, 'prog) controller_struct) \<times> 'w" where
  "makeController L controlClient communityClient ksFactory sbpFactory wdsName w =
     (let sbps = StagedBindingPolicies (V1alpha1 (Community sbpFactory)) in
      case Bindings_Informer L ksFactory w of (bi, w1) \<Rightarrow>
      case Bindings_Lister L ksFactory w1 of (bl, w2) \<Rightarrow>
      case CombinedStatuses_Informer L ksFactory w2 of (ci, w3) \<Rightarrow>
      case CombinedStatuses_Lister L ksFactory w3 of (cl, w4) \<Rightarrow>
      case Informer (NewSharedIndexInformer L) sbpType (sbp_list L) (sbp_watch L)
             sbps sbpFactory w4 of (si, f1, w5) \<Rightarrow>
      case informer_Lister (GetIndexer L) (NewSharedIndexInformer L) sbpType (sbp_list L)
             (sbp_watch L) sbps f1 w5 of (sl, f2, w6) \<Rightarrow>
      case NewRateLimitingQueue L (controller_queue_config wdsName) w6 of (wq, w7) \<Rightarrow>
        (Inr \<lparr>ctl_wdsName = wdsName, ctl_controlClient = controlClient,
              ctl_communityClient = communityClient, ctl_ksFactory = ksFactory,
              ctl_sbpFactory = f2, ctl_bindingInformer = bi, ctl_bindingLister = bl,
              ctl_combinedStatusInformer = ci, ctl_combinedStatusLister = cl,
              ctl_sbpInformer = si, ctl_sbpLister = sl, ctl_workqueue = wq,
              ctl_resolver = None\<rparr>, w7))"

definition NewController ::
  "('o, 'ast, 'prog, 's, 'w) startup_lib \<Rightarrow> 'o config \<Rightarrow> string \<Rightarrow> 'w \<Rightarrow>
   (go_error + ('o, 'ast, 'prog) controller_struct) \<times> 'w" where
  "NewController L wdsRestConfig wdsName w =
     (case ks_NewForConfig L wdsRestConfig w of
        (Inl err, w1) \<Rightarrow> (Inl err, w1)
      | (Inr ksClient, w1) \<Rightarrow>
          (case NewForConfig (rest L) wdsRestConfig of
             Inl err \<Rightarrow> (Inl err, w1)
           | Inr sbpClient \<Rightarrow>
               (case ks_NewSharedInformerFactory L ksClient defaultResyncPeriod w1 of
                  (ksInformerFactory, w2) \<Rightarrow>
                    makeController L (ks_ControlV1alpha1 L ksClient) (communityV1alpha1 sbpClient)
                      ksInformerFactory (NewSharedInformerFactory sbpClient defaultResyncPeriod)
                      wdsName w2)))"

section \<open>Starting it\<close>

text \<open>
  The handlers work on the controller that \<open>D\<close> describes (\<open>Controller\<close>, \<open>Event_Handlers\<close>); an
  error of the registration is returned.
\<close>

definition setupBindingInformer where
  "setupBindingInformer L D c = AddEventHandler L (ctl_bindingInformer c) (bindingHandlers D)"

definition setupCombinedStatusInformer where
  "setupCombinedStatusInformer L D c =
     AddEventHandler L (ctl_combinedStatusInformer c) (combinedStatusHandlers D)"

definition setupStagedBindingPolicyInformer where
  "setupStagedBindingPolicyInformer L D c =
     AddEventHandler L (ctl_sbpInformer c) (stagedBindingPolicyHandlers D)"

text \<open>
  Starting the policy informer's factory: the informers that were not running yet are run, each
  in a goroutine.
\<close>

definition sbpInformerFactoryStart ::
  "('o, 'ast, 'prog, 's, 'w) startup_lib \<Rightarrow> 'o sbp_factory \<Rightarrow> 'w \<Rightarrow> 'o sbp_factory \<times> 'w" where
  "sbpInformerFactoryStart L f w =
     (let f' = Start (range_types L (sf_informers f)) f;
          started = drop (length (sf_running f)) (sf_running f') in
      (f', fold (go_Run L) (List.map_filter (sf_informers f) started) w))"

definition Start_controller ::
  "('o, 'ast, 'prog, 's, 'w) startup_lib \<Rightarrow> ('o, 'o, 'o, 's) controller_deps \<Rightarrow> int \<Rightarrow>
   ('o, 'ast, 'prog) controller_struct \<Rightarrow> 'w \<Rightarrow>
   go_error option \<times> ('o, 'ast, 'prog) controller_struct \<times> 'w" where
  "Start_controller L D workers c w =
     (case setupBindingInformer L D c w of
        (Some err, w1) \<Rightarrow> (Some err, c, w1)
      | (None, w1) \<Rightarrow>
     (case setupCombinedStatusInformer L D c w1 of
        (Some err, w2) \<Rightarrow> (Some err, c, w2)
      | (None, w2) \<Rightarrow>
     (case setupStagedBindingPolicyInformer L D c w2 of
        (Some err, w3) \<Rightarrow> (Some err, c, w3)
      | (None, w3) \<Rightarrow>
     (case newCELEvaluator (cel_NewEnv L) of
        Inl err \<Rightarrow> (Some err, c, w3)
      | Inr evaluator \<Rightarrow>
        (let c1 = c\<lparr>ctl_resolver := Some
               \<lparr>rp_combinedStatusLister = ctl_combinedStatusLister c,
                rp_controlClient = ctl_controlClient c,
                rp_communityClient = ctl_communityClient c,
                rp_celEvaluator = evaluator\<rparr>\<rparr>;
             w4 = ks_Start L (ctl_ksFactory c1) w3 in
     (case cache_WaitForCacheSync L [ctl_bindingInformer c1, ctl_combinedStatusInformer c1] w4 of
        (False, w5) \<Rightarrow>
          (Some (ErrorText ''failed to wait for KubeStellar informers to sync''), c1, w5)
      | (True, w5) \<Rightarrow>
     (case sbpInformerFactoryStart L (ctl_sbpFactory c1) w5 of
        (f, w6) \<Rightarrow>
        (let c2 = c1\<lparr>ctl_sbpFactory := f\<rparr> in
     (case cache_WaitForCacheSync L [ctl_sbpInformer c2] w6 of
        (False, w7) \<Rightarrow>
          (Some (ErrorText ''failed to wait for StagedBindingPolicy informers to sync''), c2, w7)
      | (True, w7) \<Rightarrow>
          (case await_start L workers w7 of (err, w8) \<Rightarrow> (err, c2, w8)))))))))))"

section \<open>The main function\<close>

text \<open>\<open>init\<close>.\<close>

definition init_scheme :: "('sch \<Rightarrow> go_error option \<times> 'sch) \<Rightarrow>
    ('sch \<Rightarrow> go_error option \<times> 'sch) \<Rightarrow> 'sch \<Rightarrow> unit outcome \<times> 'sch" where
  "init_scheme clientgo_AddToScheme v1alpha1_AddToScheme scheme =
     (case clientgo_AddToScheme scheme of
        (err, scheme1) \<Rightarrow> st_bind (Must err, scheme1)
          (\<lambda>_ scheme. case v1alpha1_AddToScheme scheme of (err, scheme2) \<Rightarrow> (Must err, scheme2)))"

record flags =
  fl_metricsAddr :: string
  fl_pprofAddr :: string
  fl_probeAddr :: string
  fl_wdsName :: string
  fl_enableLeaderElection :: bool

definition default_flags :: flags where
  "default_flags = \<lparr>fl_metricsAddr = '':8080'', fl_pprofAddr = '':8082'',
     fl_probeAddr = '':8081'', fl_wdsName = [], fl_enableLeaderElection = False\<rparr>"

definition workers :: int where
  "workers = 4"

definition options_of :: "flags \<Rightarrow> manager_options" where
  "options_of fl = \<lparr>mo_metrics = fl_metricsAddr fl, mo_pprof = fl_pprofAddr fl,
     mo_probe = fl_probeAddr fl, mo_LeaderElection = fl_enableLeaderElection fl,
     mo_LeaderElectionID = ''placement-stager.community.kubestellar.org''\<rparr>"

text \<open>\<open>os.Exit\<close>, or the empty \<open>select\<close> at the end, which never goes on.\<close>

datatype main_end = Exit nat | BlocksForever

text \<open>What \<open>main\<close> does once it has the configuration of the WDS.\<close>

definition main_controller ::
  "('o, 'ast, 'prog, 's, 'w) startup_lib \<Rightarrow> ('o, 'o, 'o, 's) controller_deps \<Rightarrow> 'o \<Rightarrow>
   'o config \<Rightarrow> string \<Rightarrow> 'w \<Rightarrow> main_end \<times> 'w" where
  "main_controller L D mgr cfg n w =
     (case NewController L (LimitConfig L cfg) n w of
        (Inl err, w6) \<Rightarrow> (Exit 1, w6)
      | (Inr c, w6) \<Rightarrow>
          (case Start_controller L D workers c w6 of
             (Some err, c', w7) \<Rightarrow> (Exit 1, w7)
           | (None, c', w7) \<Rightarrow>
               (case mgr_Start L mgr w7 of
                  (Some err, w8) \<Rightarrow> (Exit 1, w8) | (None, w8) \<Rightarrow> (BlocksForever, w8))))"

text \<open>After the flags are parsed.\<close>

definition main ::
  "('o, 'ast, 'prog, 's, 'w) startup_lib \<Rightarrow> ('o, 'o, 'o, 's) controller_deps \<Rightarrow> flags \<Rightarrow> 'w \<Rightarrow>
   main_end \<times> 'w" where
  "main L D fl w =
     (case GetConfigOrDie L w of
        (None, w1) \<Rightarrow> (Exit 1, w1)
      | (Some config, w1) \<Rightarrow>
     (case NewManager L config (options_of fl) w1 of
        (Inl err, w2) \<Rightarrow> (Exit 1, w2)
      | (Inr mgr, w2) \<Rightarrow>
     (case AddHealthzCheck L mgr ''healthz'' w2 of
        (Some err, w3) \<Rightarrow> (Exit 1, w3)
      | (None, w3) \<Rightarrow>
     (case AddReadyzCheck L mgr ''readyz'' w3 of
        (Some err, w4) \<Rightarrow> (Exit 1, w4)
      | (None, w4) \<Rightarrow>
     (case GetWDSKubeconfig L (fl_wdsName fl) w4 of
        (Inl err, w5) \<Rightarrow> (Exit 1, w5)
      | (Inr (wdsRestConfig, wdsName), w5) \<Rightarrow>
     main_controller L D mgr wdsRestConfig wdsName w5)))))"

section \<open>Running the workers\<close>

text \<open>
  \<open>run\<close> in its goroutine beside the \<open>select\<close> of \<open>Start\<close>. \<open>rs_errChan\<close> is the channel of
  capacity one; \<open>rs_started\<close> is the result of \<open>Start\<close> once it has one. The context ends only
  when it can be cancelled; \<open>main\<close> gives \<open>context.Background()\<close>, which cannot.
\<close>

datatype run_pc = Spawning int | AwaitDone | RunReturned "go_error option" | Sent

record run_state =
  rs_pc :: run_pc
  rs_spawned :: nat
  rs_initialized :: bool
  rs_ctxDone :: bool
  rs_queueShutDown :: bool
  rs_errChan :: "go_error option list"
  rs_started :: "go_error option option"

definition run_init :: run_state where
  "run_init = \<lparr>rs_pc = Spawning 0, rs_spawned = 0, rs_initialized = False, rs_ctxDone = False,
     rs_queueShutDown = False, rs_errChan = [], rs_started = None\<rparr>"

inductive run_step :: "bool \<Rightarrow> int \<Rightarrow> run_state \<Rightarrow> run_state \<Rightarrow> bool" for cancellable workers where
  spawn: "rs_pc s = Spawning i \<Longrightarrow> i < workers \<Longrightarrow>
    run_step cancellable workers s (s\<lparr>rs_pc := Spawning (i + 1), rs_spawned := rs_spawned s + 1\<rparr>)"
| spawned: "rs_pc s = Spawning i \<Longrightarrow> \<not> i < workers \<Longrightarrow>
    run_step cancellable workers s (s\<lparr>rs_pc := AwaitDone, rs_initialized := True\<rparr>)"
| cancel: "cancellable \<Longrightarrow> run_step cancellable workers s (s\<lparr>rs_ctxDone := True\<rparr>)"
| stop: "rs_pc s = AwaitDone \<Longrightarrow> rs_ctxDone s \<Longrightarrow>
    run_step cancellable workers s (s\<lparr>rs_pc := RunReturned None, rs_queueShutDown := True\<rparr>)"
| send: "rs_pc s = RunReturned err \<Longrightarrow> rs_errChan s = [] \<Longrightarrow>
    run_step cancellable workers s (s\<lparr>rs_pc := Sent, rs_errChan := [err]\<rparr>)"
| receive: "rs_started s = None \<Longrightarrow> rs_errChan s = [err] \<Longrightarrow>
    run_step cancellable workers s (s\<lparr>rs_started := Some err, rs_errChan := []\<rparr>)"
| after_3s: "rs_started s = None \<Longrightarrow>
    run_step cancellable workers s (s\<lparr>rs_started := Some None\<rparr>)"

end
