(* ===== verification/Startup_Order.thy ===== *)
theory Startup_Order
  imports Startup
begin

text \<open>
  What the startup does in which order: the calls of the library are written to a log, with
  what they answer. And what \<open>run\<close> can do to the \<open>select\<close> of \<open>Start\<close>: an invariant of its steps.
\<close>

section \<open>Calls beside a log\<close>

datatype ('o, 's) startup_call =
    GetConfigCall
  | NewManagerCall manager_options
  | HealthzCall string
  | ReadyzCall string
  | KubeconfigCall string
  | KsClientCall
  | KsFactoryCall int
  | BindingInformerCall
  | BindingListerCall
  | StatusInformerCall
  | StatusListerCall
  | PolicyInformerCall string int
  | QueueCall queue_config
  | HandlerCall 'o "('o, 'o, 's) handlers"
  | KsStartCall
  | RunCall 'o
  | WaitCall "'o list"
  | AwaitCall int
  | ManagerStartCall

text \<open>Whether a call succeeded; the configuration of the WDS, which later calls depend on.\<close>

datatype 'o answer = Succeeded | Failed | GotConfig "'o config" string

type_synonym ('o, 's) startup_log = "(('o, 's) startup_call \<times> 'o answer) list"

fun answer_found :: "'a option \<Rightarrow> 'o answer" where
  "answer_found None = Failed"
| "answer_found (Some x) = Succeeded"

fun answer_err :: "go_error option \<Rightarrow> 'o answer" where
  "answer_err None = Succeeded"
| "answer_err (Some e) = Failed"

fun answer_sum :: "go_error + 'a \<Rightarrow> 'o answer" where
  "answer_sum (Inl e) = Failed"
| "answer_sum (Inr x) = Succeeded"

fun answer_bool :: "bool \<Rightarrow> 'o answer" where
  "answer_bool b = (if b then Succeeded else Failed)"

fun answer_config :: "go_error + 'o config \<times> string \<Rightarrow> 'o answer" where
  "answer_config (Inl e) = Failed"
| "answer_config (Inr (cfg, n)) = GotConfig cfg n"

definition logged ::
  "'c \<Rightarrow> ('r \<Rightarrow> 'a) \<Rightarrow> ('w \<Rightarrow> 'r \<times> 'w) \<Rightarrow> ('c \<times> 'a) list \<times> 'w \<Rightarrow> 'r \<times> ('c \<times> 'a) list \<times> 'w" where
  "logged t a f s = (case f (snd s) of (r, w) \<Rightarrow> (r, (fst s @ [(t, a r)], w)))"

definition logged_effect ::
  "'c \<times> 'a \<Rightarrow> ('w \<Rightarrow> 'w) \<Rightarrow> ('c \<times> 'a) list \<times> 'w \<Rightarrow> ('c \<times> 'a) list \<times> 'w" where
  "logged_effect t f s = (fst s @ [t], f (snd s))"

abbreviation always :: "'r \<Rightarrow> 'o answer" where
  "always r \<equiv> Succeeded"

text \<open>The call was made and succeeded.\<close>

abbreviation ok_call :: "('o, 's) startup_call \<Rightarrow> ('o, 's) startup_call \<times> 'o answer" where
  "ok_call t \<equiv> (t, Succeeded)"

definition traced ::
  "('o, 'ast, 'prog, 's, 'w) startup_lib \<Rightarrow>
   ('o, 'ast, 'prog, 's, ('o, 's) startup_log \<times> 'w) startup_lib" where
  "traced L =
     \<lparr>rest = rest L, cel_NewEnv = cel_NewEnv L, LimitConfig = LimitConfig L,
      ks_ControlV1alpha1 = ks_ControlV1alpha1 L, GetIndexer = GetIndexer L,
      sbp_list = sbp_list L, sbp_watch = sbp_watch L, range_types = range_types L,
      GetConfigOrDie = logged GetConfigCall answer_found (GetConfigOrDie L),
      NewManager = (\<lambda>c opts. logged (NewManagerCall opts) answer_sum (NewManager L c opts)),
      AddHealthzCheck = (\<lambda>m n. logged (HealthzCall n) answer_err (AddHealthzCheck L m n)),
      AddReadyzCheck = (\<lambda>m n. logged (ReadyzCall n) answer_err (AddReadyzCheck L m n)),
      GetWDSKubeconfig = (\<lambda>n. logged (KubeconfigCall n) answer_config (GetWDSKubeconfig L n)),
      ks_NewForConfig = (\<lambda>c. logged KsClientCall answer_sum (ks_NewForConfig L c)),
      ks_NewSharedInformerFactory =
        (\<lambda>k d. logged (KsFactoryCall d) always (ks_NewSharedInformerFactory L k d)),
      Bindings_Informer = (\<lambda>k. logged BindingInformerCall always (Bindings_Informer L k)),
      Bindings_Lister = (\<lambda>k. logged BindingListerCall always (Bindings_Lister L k)),
      CombinedStatuses_Informer =
        (\<lambda>k. logged StatusInformerCall always (CombinedStatuses_Informer L k)),
      CombinedStatuses_Lister = (\<lambda>k. logged StatusListerCall always (CombinedStatuses_Lister L k)),
      NewSharedIndexInformer = (\<lambda>lw ty d ix. logged (PolicyInformerCall ty d) always
        (NewSharedIndexInformer L lw ty d ix)),
      NewRateLimitingQueue = (\<lambda>q. logged (QueueCall q) always (NewRateLimitingQueue L q)),
      AddEventHandler = (\<lambda>i h. logged (HandlerCall i h) answer_err (AddEventHandler L i h)),
      ks_Start = (\<lambda>k. logged_effect (ok_call KsStartCall) (ks_Start L k)),
      go_Run = (\<lambda>i. logged_effect (ok_call (RunCall i)) (go_Run L i)),
      cache_WaitForCacheSync =
        (\<lambda>is. logged (WaitCall is) answer_bool (cache_WaitForCacheSync L is)),
      await_start = (\<lambda>n. logged (AwaitCall n) answer_err (await_start L n)),
      mgr_Start = (\<lambda>m. logged ManagerStartCall answer_err (mgr_Start L m))\<rparr>"

text \<open>The calls of each part when nothing fails.\<close>

definition manager_calls ::
  "flags \<Rightarrow> 'o config \<Rightarrow> string \<Rightarrow> ('o, 's) startup_log" where
  "manager_calls fl cfg wdsName =
     [ok_call GetConfigCall, ok_call (NewManagerCall (options_of fl)), ok_call (HealthzCall ''healthz''),
      ok_call (ReadyzCall ''readyz''), (KubeconfigCall (fl_wdsName fl), GotConfig cfg wdsName)]"

definition making_calls :: "string \<Rightarrow> ('o, 's) startup_log" where
  "making_calls wdsName =
     [ok_call KsClientCall, ok_call (KsFactoryCall 0), ok_call BindingInformerCall, ok_call BindingListerCall,
      ok_call StatusInformerCall, ok_call StatusListerCall, ok_call (PolicyInformerCall sbpType 0),
      ok_call (QueueCall (controller_queue_config wdsName))]"

definition starting_calls ::
  "('o, 'o, 'o, 's) controller_deps \<Rightarrow> ('o, 'ast, 'prog) controller_struct \<Rightarrow> int \<Rightarrow>
   ('o, 's) startup_log" where
  "starting_calls D c n =
     [ok_call (HandlerCall (ctl_bindingInformer c) (bindingHandlers D)),
      ok_call (HandlerCall (ctl_combinedStatusInformer c) (combinedStatusHandlers D)),
      ok_call (HandlerCall (ctl_sbpInformer c) (stagedBindingPolicyHandlers D)), ok_call KsStartCall,
      ok_call (WaitCall [ctl_bindingInformer c, ctl_combinedStatusInformer c]),
      ok_call (RunCall (ctl_sbpInformer c)), ok_call (WaitCall [ctl_sbpInformer c]), ok_call (AwaitCall n)]"

text \<open>The log ends with the first of the calls that failed.\<close>

fun first_failure :: "('c \<times> 'o answer) list \<Rightarrow> ('c \<times> 'o answer) list \<Rightarrow> bool" where
  "first_failure ((t, a) # calls) (entry # l) \<longleftrightarrow>
     entry = (t, Failed) \<and> l = [] \<or> entry = (t, a) \<and> first_failure calls l"
| "first_failure calls l \<longleftrightarrow> False"

lemma first_failure_more: "first_failure calls l \<Longrightarrow> first_failure (calls @ later) l"
  by (induction calls l rule: first_failure.induct) auto

lemma first_failure_after: "first_failure calls l \<Longrightarrow> first_failure (before @ calls) (before @ l)"
  by (induction before) auto

section \<open>The controller is made over its own informer\<close>

text \<open>
  Ranging over a map visits each key once; the factory of this repository only ever holds
  informers of the one type.
\<close>

definition ranges_lawful :: "('o, 'ast, 'prog, 's, 'w) startup_lib \<Rightarrow> bool" where
  "ranges_lawful L \<longleftrightarrow> (\<forall>m. dom m \<subseteq> {sbpType} \<longrightarrow>
     set (range_types L m) = dom m \<and> distinct (range_types L m))"

text \<open>The factory has one informer, the one the controller holds and lists from.\<close>

definition wired ::
  "('o, 'ast, 'prog, 's, 'w) startup_lib \<Rightarrow> ('o, 'ast, 'prog) controller_struct \<Rightarrow> bool" where
  "wired L c \<longleftrightarrow> sf_informers (ctl_sbpFactory c) = [sbpType \<mapsto> ctl_sbpInformer c] \<and>
     ctl_sbpLister c = NewStagedBindingPolicyLister (GetIndexer L (ctl_sbpInformer c)) \<and>
     sf_running (ctl_sbpFactory c) = [] \<and> sf_startedInformers (ctl_sbpFactory c) = {} \<and>
     \<not> sf_shuttingDown (ctl_sbpFactory c)"

lemma NewSharedInformerFactory_sel [simp]:
  "sf_informers (NewSharedInformerFactory cl d) = Map.empty"
  "sf_running (NewSharedInformerFactory cl d) = []"
  "sf_startedInformers (NewSharedInformerFactory cl d) = {}"
  "\<not> sf_shuttingDown (NewSharedInformerFactory cl d)"
  "sf_customResync (NewSharedInformerFactory cl d) = Map.empty"
  "sf_defaultResync (NewSharedInformerFactory cl d) = d"
  by (simp_all add: NewSharedInformerFactory_def NewSharedInformerFactoryWithOptions_def)

lemma InformerFor_new:
  assumes "sf_informers f ty = None" "InformerFor ty newFunc f w = (i, f', w')"
  shows "f' = f\<lparr>sf_informers := (sf_informers f)(ty \<mapsto> i)\<rparr>"
    and "newFunc (sf_client f) (case sf_customResync f ty of Some p \<Rightarrow> p
      | None \<Rightarrow> sf_defaultResync f) w = (i, w')"
  using assms by (auto simp: InformerFor_def Let_def split: prod.splits)

lemma makeController_wired:
  assumes new: "sf_informers f = Map.empty" "sf_running f = []" "sf_startedInformers f = {}"
      "\<not> sf_shuttingDown f"
    and "makeController L kc cc kf f n w = (Inr c, w')"
  shows "wired L c"
proof -
  let ?sbps = "StagedBindingPolicies (V1alpha1 (Community f))"
  let ?inf = "Informer (NewSharedIndexInformer L) sbpType (sbp_list L) (sbp_watch L) ?sbps"
  from assms(5) obtain i w1 w2 f1 f2 l w3 where i: "?inf f w1 = (i, f1, w2)"
    and l: "informer_Lister (GetIndexer L) (NewSharedIndexInformer L) sbpType (sbp_list L)
      (sbp_watch L) ?sbps f1 w2 = (l, f2, w3)"
    and c: "ctl_sbpFactory c = f2" "ctl_sbpInformer c = i" "ctl_sbpLister c = l"
    by (auto simp: makeController_def Let_def split: prod.splits)
  have f1: "f1 = f\<lparr>sf_informers := [sbpType \<mapsto> i]\<rparr>"
    using InformerFor_new(1) [OF _ i [unfolded Informer_def]] new(1) by simp
  then have "?inf f1 w2 = (i, f1, w2)" by (simp add: Informer_def InformerFor_known)
  with l have "l = NewStagedBindingPolicyLister (GetIndexer L i)" "f2 = f1"
    by (simp_all add: informer_Lister_def)
  with c f1 new show ?thesis by (simp add: wired_def)
qed

lemma makeController_Inr: "\<exists>c w'. makeController L kc cc kf f n w = (Inr c, w')"
  by (simp add: makeController_def Let_def split: prod.splits)

lemma NewController_cases:
  assumes "NewController L cfg n w = (r, w')"
  obtains (failed) e where "r = Inl e" "ks_NewForConfig L cfg w = (Inl e, w')"
  | (no_client) k e where "r = Inl e" "ks_NewForConfig L cfg w = (Inr k, w')"
      "NewForConfig (rest L) cfg = Inl e"
  | (made) k w1 sc kf w2 where "ks_NewForConfig L cfg w = (Inr k, w1)"
      "NewForConfig (rest L) cfg = Inr sc"
      "ks_NewSharedInformerFactory L k defaultResyncPeriod w1 = (kf, w2)"
      "makeController L (ks_ControlV1alpha1 L k) (communityV1alpha1 sc) kf
         (NewSharedInformerFactory sc defaultResyncPeriod) n w2 = (r, w')"
  using assms by (auto simp: NewController_def split: sum.splits prod.splits)

lemma NewController_Inr:
  assumes "ks_NewForConfig L cfg w = (Inr k, w1)" "NewForConfig (rest L) cfg = Inr sc"
  shows "\<exists>c w'. NewController L cfg n w = (Inr c, w')"
proof -
  obtain kf w2 where "ks_NewSharedInformerFactory L k defaultResyncPeriod w1 = (kf, w2)"
    by fastforce
  with assms makeController_Inr show ?thesis by (simp add: NewController_def)
qed

lemma NewController_wired:
  assumes "NewController L cfg n w = (Inr c, w')"
  shows "wired L c"
  using assms
proof (cases rule: NewController_cases)
  case (made k w1 sc kf w2)
  from makeController_wired [OF _ _ _ _ made(4)] show ?thesis by simp
qed simp_all

lemma NewController_resolver:
  "NewController L cfg n w = (Inr c, w') \<Longrightarrow> ctl_resolver c = None"
  by (auto simp: NewController_def makeController_def Let_def split: sum.splits prod.splits)

section \<open>Logs of the parts\<close>

lemma traced_sel [simp]:
  "rest (traced L) = rest L" "cel_NewEnv (traced L) = cel_NewEnv L"
  "LimitConfig (traced L) = LimitConfig L" "ks_ControlV1alpha1 (traced L) = ks_ControlV1alpha1 L"
  "GetIndexer (traced L) = GetIndexer L" "sbp_list (traced L) = sbp_list L"
  "sbp_watch (traced L) = sbp_watch L" "range_types (traced L) = range_types L"
  by (simp_all add: traced_def)

lemma traced_go_Run: "go_Run (traced L) i (l, w) = (l @ [ok_call (RunCall i)], go_Run L i w)"
  by (simp add: traced_def logged_effect_def)

lemma logged_conv [simp]:
  "logged t a f (l, w) = (r, l', w') \<longleftrightarrow> f w = (r, w') \<and> l' = l @ [(t, a r)]"
  by (auto simp: logged_def split: prod.splits)

text \<open>The informer is made once: the lister finds it.\<close>

lemma makeController_log:
  assumes "makeController (traced L) kc cc kf f n (l, w) = (r, l', w')"
    and "sf_informers f = Map.empty" "sf_customResync f = Map.empty" "sf_defaultResync f = 0"
  shows "\<exists>c. r = Inr c \<and> l' = l @ tl (tl (making_calls n))"
  using assms
  by (auto simp: makeController_def traced_def logged_def informer_Lister_def Informer_def
      InformerFor_def defaultInformer_def NewFilteredStagedBindingPolicyInformer_def
      making_calls_def Let_def split: prod.splits)

lemma NewController_log:
  assumes "NewController (traced L) cfg n (l, w) = (r, l', w')"
  shows "case r of
      Inl e \<Rightarrow> l' = l @ [(KsClientCall, Failed)] \<or>
        l' = l @ [ok_call KsClientCall] \<and> NewForConfig (rest L) cfg = Inl e
    | Inr c \<Rightarrow> l' = l @ making_calls n \<and> (\<exists>cs. NewForConfig (rest L) cfg = Inr cs)"
  using assms
proof (cases rule: NewController_cases)
  case (failed e)
  then show ?thesis by (simp add: traced_def)
next
  case (no_client k e)
  then show ?thesis by (simp add: traced_def)
next
  case (made k w1 sc kf w2)
  obtain l1 v1 l2 v2 where w: "w1 = (l1, v1)" "w2 = (l2, v2)" by fastforce
  with made(1,3) have "l2 = l @ [ok_call KsClientCall, ok_call (KsFactoryCall 0)]"
    by (auto simp: traced_def defaultResyncPeriod_def)
  with makeController_log [OF made(4) [unfolded w]] made(2) show ?thesis
    by (auto simp: defaultResyncPeriod_def making_calls_def)
qed

lemma distinct_single:
  assumes "set xs = {x}" "distinct xs"
  shows "xs = [x]"
proof (cases xs)
  case (Cons y ys)
  with assms have "y = x" "set ys \<subseteq> {x}" "x \<notin> set ys" by auto
  then have "set ys = {}" using subset_singletonD [of "set ys" x] by auto
  with \<open>y = x\<close> Cons show ?thesis by simp
qed (use assms in simp)

text \<open>The factory's start runs the one informer.\<close>

lemma wired_start:
  assumes "wired L c" "ranges_lawful L"
  shows "sbpInformerFactoryStart L (ctl_sbpFactory c) w =
    ((ctl_sbpFactory c)\<lparr>sf_wg := sf_wg (ctl_sbpFactory c) + 1, sf_running := [sbpType],
       sf_startedInformers := {sbpType}\<rparr>, go_Run L (ctl_sbpInformer c) w)"
proof -
  have "set (range_types L [sbpType \<mapsto> ctl_sbpInformer c]) = {sbpType}"
    "distinct (range_types L [sbpType \<mapsto> ctl_sbpInformer c])"
    using assms(2) by (simp_all add: ranges_lawful_def)
  then have "range_types L [sbpType \<mapsto> ctl_sbpInformer c] = [sbpType]"
    by (rule distinct_single)
  then show ?thesis
    using assms(1) by (simp add: wired_def sbpInformerFactoryStart_def Start_def start_one_def
        map_filter_simps)
qed

lemma traced_laws [simp]:
  "wired (traced L) c = wired L c" "ranges_lawful (traced L) = ranges_lawful L"
  by (simp_all add: wired_def ranges_lawful_def)

lemma wired_after_setup [simp]: "wired L (c\<lparr>ctl_resolver := x\<rparr>) = wired L c"
  by (simp add: wired_def)

text \<open>What a start that returns nil has done to the controller.\<close>

lemma Start_done:
  assumes "Start_controller L D n c w = (err, c', w')" and "wired L c" "ranges_lawful L"
  shows "sf_running (ctl_sbpFactory c') \<in> {[], [sbpType]} \<and>
    sf_informers (ctl_sbpFactory c') = sf_informers (ctl_sbpFactory c) \<and>
    ctl_sbpInformer c' = ctl_sbpInformer c \<and> ctl_sbpLister c' = ctl_sbpLister c \<and>
    (err = None \<longrightarrow> sf_running (ctl_sbpFactory c') = [sbpType] \<and>
      (\<exists>ev. newCELEvaluator (cel_NewEnv L) = Inr ev \<and>
        ctl_resolver c' = Some
          \<lparr>rp_combinedStatusLister = ctl_combinedStatusLister c,
           rp_controlClient = ctl_controlClient c,
           rp_communityClient = ctl_communityClient c, rp_celEvaluator = ev\<rparr>))"
  using assms(1) wired_start [OF assms(2,3)] assms(2)
  by (auto simp: Start_controller_def Let_def wired_def
      split: prod.splits option.splits sum.splits bool.splits)

text \<open>
  The log of a start: all calls, all of which succeeded, when it returns nil; else it ends with
  the first one that failed, or before the KubeStellar informers are started when the evaluator
  cannot be made.
\<close>

lemma Start_log:
  assumes "Start_controller (traced L) D n c (l, w) = (err, c', l', w')"
    and "wired L c" "ranges_lawful L"
  shows "\<exists>cs. l' = l @ cs \<and>
    (if err = None then cs = starting_calls D c n
     else first_failure (starting_calls D c n) cs \<or>
       cs = take 3 (starting_calls D c n) \<and> newCELEvaluator (cel_NewEnv L) = Inl (the err)) \<and>
    (length cs > 3 \<longrightarrow> (\<exists>ev. newCELEvaluator (cel_NewEnv L) = Inr ev))"
proof -
  have start: "sbpInformerFactoryStart (traced L) (ctl_sbpFactory c) (l, w) =
      ((ctl_sbpFactory c)\<lparr>sf_wg := sf_wg (ctl_sbpFactory c) + 1, sf_running := [sbpType],
         sf_startedInformers := {sbpType}\<rparr>,
       (l @ [ok_call (RunCall (ctl_sbpInformer c))], go_Run L (ctl_sbpInformer c) w))" for l w
    using wired_start [of "traced L" c] assms(2,3) by (simp add: traced_go_Run)
  have h: "AddEventHandler (traced L) i h (l, w) =
      (case AddEventHandler L i h w of (r, w1) \<Rightarrow> (r, l @ [(HandlerCall i h, answer_err r)], w1))"
    for i h l w by (simp add: traced_def logged_def)
  have k: "ks_Start (traced L) f (l, w) = (l @ [ok_call KsStartCall], ks_Start L f w)" for f l w
    by (simp add: traced_def logged_effect_def)
  have s: "cache_WaitForCacheSync (traced L) is (l, w) = (case cache_WaitForCacheSync L is w of
      (r, w1) \<Rightarrow> (r, l @ [(WaitCall is, answer_bool r)], w1))" for "is" l w
    by (simp add: traced_def logged_def)
  have a: "await_start (traced L) m (l, w) =
      (case await_start L m w of (r, w1) \<Rightarrow> (r, l @ [(AwaitCall m, answer_err r)], w1))" for m l w
    by (simp add: traced_def logged_def)
  obtain r1 w1 where 1: "AddEventHandler L (ctl_bindingInformer c) (bindingHandlers D) w = (r1, w1)"
    by fastforce
  obtain r2 w2 where 2: "AddEventHandler L (ctl_combinedStatusInformer c)
      (combinedStatusHandlers D) w1 = (r2, w2)" by fastforce
  obtain r3 w3 where 3: "AddEventHandler L (ctl_sbpInformer c)
      (stagedBindingPolicyHandlers D) w2 = (r3, w3)" by fastforce
  obtain r4 w4 where 4: "cache_WaitForCacheSync L [ctl_bindingInformer c,
      ctl_combinedStatusInformer c] (ks_Start L (ctl_ksFactory c) w3) = (r4, w4)" by fastforce
  obtain r5 w5 where 5: "cache_WaitForCacheSync L [ctl_sbpInformer c]
      (go_Run L (ctl_sbpInformer c) w4) = (r5, w5)" by fastforce
  obtain r6 w6 where 6: "await_start L n w5 = (r6, w6)" by fastforce
  note S = Start_controller_def setupBindingInformer_def setupCombinedStatusInformer_def
    setupStagedBindingPolicyInformer_def starting_calls_def Let_def h k s a start 1 2 3 4 5 6
  show ?thesis
    using assms(1) [symmetric]
    by (cases r1; cases r2; cases r3; cases "newCELEvaluator (cel_NewEnv L)"; cases r4; cases r5;
        cases r6; simp add: S)
qed

section \<open>The log of the whole startup\<close>

lemma main_cases:
  assumes "main (traced L) D fl ([], w) = (e, l', w')"
  obtains (early) "e = Exit 1" "\<And>cfg n. first_failure (manager_calls fl cfg n) l'"
  | (config) mgr cfg n v where
      "main_controller (traced L) D mgr cfg n (manager_calls fl cfg n, v) = (e, l', w')"
proof -
  have g: "GetConfigOrDie (traced L) (l, w) =
      (case GetConfigOrDie L w of (r, w1) \<Rightarrow> (r, l @ [(GetConfigCall, answer_found r)], w1))" for l w
    by (simp add: traced_def logged_def)
  have m: "NewManager (traced L) c opts (l, w) = (case NewManager L c opts w of
      (r, w1) \<Rightarrow> (r, l @ [(NewManagerCall opts, answer_sum r)], w1))" for c opts l w
    by (simp add: traced_def logged_def)
  have hz: "AddHealthzCheck (traced L) x y (l, w) = (case AddHealthzCheck L x y w of
      (r, w1) \<Rightarrow> (r, l @ [(HealthzCall y, answer_err r)], w1))" for x y l w
    by (simp add: traced_def logged_def)
  have rz: "AddReadyzCheck (traced L) x y (l, w) = (case AddReadyzCheck L x y w of
      (r, w1) \<Rightarrow> (r, l @ [(ReadyzCall y, answer_err r)], w1))" for x y l w
    by (simp add: traced_def logged_def)
  have kc: "GetWDSKubeconfig (traced L) x (l, w) = (case GetWDSKubeconfig L x w of
      (r, w1) \<Rightarrow> (r, l @ [(KubeconfigCall x, answer_config r)], w1))" for x l w
    by (simp add: traced_def logged_def)
  show thesis
    using assms that
    by (auto simp: main_def g m hz rz kc manager_calls_def
        split: prod.splits option.splits sum.splits)
qed

definition controller_calls ::
  "string \<Rightarrow> ('o, 'o, 'o, 's) controller_deps \<Rightarrow> ('o, 'ast, 'prog) controller_struct \<Rightarrow>
   ('o, 's) startup_log" where
  "controller_calls wdsName D c =
     making_calls wdsName @ starting_calls D c workers @ [ok_call ManagerStartCall]"

text \<open>
  How the log of a run compares with the calls it should make, when the first \<open>k\<close> of them come
  before the controller is made. The two functions that are not calls of the world, the
  generated client and the evaluator, come after \<open>k + 1\<close> and \<open>k + 11\<close> calls.
\<close>

definition log_matches ::
  "('o, 'ast, 'prog, 's, 'w) startup_lib \<Rightarrow> 'o config \<Rightarrow> nat \<Rightarrow> ('o, 's) startup_log \<Rightarrow> main_end \<Rightarrow>
   ('o, 's) startup_log \<Rightarrow> bool" where
  "log_matches L cfg k calls e l \<longleftrightarrow>
     (e = BlocksForever \<and> l = calls \<or>
      e = Exit 1 \<and> (first_failure calls l \<or>
        l = take (k + 1) calls \<and> (\<exists>err. NewForConfig (rest L) (LimitConfig L cfg) = Inl err) \<or>
        l = take (k + 11) calls \<and> (\<exists>err. newCELEvaluator (cel_NewEnv L) = Inl err))) \<and>
     (k + 1 < length l \<longrightarrow> (\<exists>cs. NewForConfig (rest L) (LimitConfig L cfg) = Inr cs)) \<and>
     (k + 11 < length l \<longrightarrow> (\<exists>ev. newCELEvaluator (cel_NewEnv L) = Inr ev))"

lemma log_matches_after:
  "log_matches L cfg 0 calls e l \<Longrightarrow> log_matches L cfg (length before) (before @ calls) e (before @ l)"
  unfolding log_matches_def using first_failure_after [of calls l before] by auto

lemma calls_lengths:
  "length (manager_calls fl cfg n) = 5" "length (making_calls n) = 8"
  "length (starting_calls D c m) = 8"
  by (simp_all add: manager_calls_def making_calls_def starting_calls_def)

lemma not_made_log:
  assumes "cs = [(KsClientCall, Failed)] \<or>
    cs = [ok_call KsClientCall] \<and> NewForConfig (rest L) (LimitConfig L cfg) = Inl err"
  shows "log_matches L cfg 0 (controller_calls n D c) (Exit 1) cs"
  using assms by (auto simp: log_matches_def controller_calls_def making_calls_def)

lemma not_started_log:
  assumes "first_failure (starting_calls D c workers) cs \<or>
      cs = take 3 (starting_calls D c workers) \<and> newCELEvaluator (cel_NewEnv L) = Inl err"
    and "length cs > 3 \<longrightarrow> (\<exists>ev. newCELEvaluator (cel_NewEnv L) = Inr ev)"
    and "NewForConfig (rest L) (LimitConfig L cfg) = Inr sc"
  shows "log_matches L cfg 0 (controller_calls n D c) (Exit 1) (making_calls n @ cs)"
proof -
  have "first_failure (controller_calls n D c) (making_calls n @ cs)"
    if "first_failure (starting_calls D c workers) cs"
    unfolding controller_calls_def
    by (rule first_failure_after [OF first_failure_more [OF that]])
  moreover have "take 11 (controller_calls n D c) = making_calls n @ take 3 (starting_calls D c workers)"
    by (simp add: controller_calls_def calls_lengths)
  ultimately show ?thesis using assms by (auto simp: log_matches_def calls_lengths)
qed

lemma main_controller_log:
  fixes L :: "('o, 'ast, 'prog, 's, 'w) startup_lib"
  assumes "main_controller (traced L) D mgr cfg n (l, v) = (e, l', w')" and R: "ranges_lawful L"
  shows "\<exists>(c :: ('o, 'ast, 'prog) controller_struct) cs. l' = l @ cs \<and>
    log_matches L cfg 0 (controller_calls n D c) e cs"
proof -
  obtain r l1 w1 where nc: "NewController (traced L) (LimitConfig L cfg) n (l, v) = (r, l1, w1)"
    by (metis prod_cases3)
  show ?thesis
  proof (cases r)
    case (Inl err)
    with nc assms(1) have e: "e = Exit 1" "l' = l1" by (simp_all add: main_controller_def)
    from NewController_log [OF nc] Inl obtain cs where "l1 = l @ cs"
      "cs = [(KsClientCall, Failed)] \<or>
        cs = [ok_call KsClientCall] \<and> NewForConfig (rest L) (LimitConfig L cfg) = Inl err" by auto
    with not_made_log e show ?thesis by blast
  next
    case (Inr c)
    with NewController_log [OF nc] obtain sc where l1: "l1 = l @ making_calls n"
      and sc: "NewForConfig (rest L) (LimitConfig L cfg) = Inr sc" by auto
    from NewController_wired [OF nc [unfolded Inr]] have "wired L c" by simp
    obtain err c' l2 w2 where st: "Start_controller (traced L) D workers c (l1, w1) =
        (err, c', l2, w2)" by (metis prod_cases4)
    from Start_log [OF st \<open>wired L c\<close> R] obtain cs where cs: "l2 = l1 @ cs"
      "if err = None then cs = starting_calls D c workers
       else first_failure (starting_calls D c workers) cs \<or>
         cs = take 3 (starting_calls D c workers) \<and> newCELEvaluator (cel_NewEnv L) = Inl (the err)"
      "length cs > 3 \<longrightarrow> (\<exists>ev. newCELEvaluator (cel_NewEnv L) = Inr ev)" by blast
    show ?thesis
    proof (cases err)
      case (Some x)
      with st nc Inr assms(1) have "e = Exit 1" "l' = l2" by (auto simp: main_controller_def)
      with not_started_log [OF _ cs(3) sc, of D c x n] cs(1,2) l1 Some show ?thesis by auto
    next
      case None
      obtain x w3 where ms: "mgr_Start L mgr w2 = (x, w3)" by fastforce
      then have "mgr_Start (traced L) mgr (l2, w2) = (x, l2 @ [(ManagerStartCall, answer_err x)], w3)"
        by (simp add: traced_def)
      with st nc Inr None assms(1) have e: "e = (case x of None \<Rightarrow> BlocksForever | Some err \<Rightarrow> Exit 1)"
        "l' = l2 @ [(ManagerStartCall, answer_err x)]"
        by (auto simp: main_controller_def split: option.splits)
      have "log_matches L cfg 0 (controller_calls n D c) e
          (making_calls n @ cs @ [(ManagerStartCall, answer_err x)])"
        using cs(2,3) None sc e(1)
          first_failure_after [of "[ok_call ManagerStartCall]" "[(ManagerStartCall, Failed)]"
            "making_calls n @ starting_calls D c workers"]
        by (cases x) (auto simp: log_matches_def controller_calls_def calls_lengths)
      with e(2) cs(1) l1 show ?thesis by auto
    qed
  qed
qed

lemma main_log:
  fixes L :: "('o, 'ast, 'prog, 's, 'w) startup_lib"
  assumes "main (traced L) D fl ([], w) = (e, l, w')" and "ranges_lawful L"
  shows "\<exists>cfg n (c :: ('o, 'ast, 'prog) controller_struct).
    log_matches L cfg 5 (manager_calls fl cfg n @ controller_calls n D c) e l"
  using assms(1)
proof (cases rule: main_cases)
  case early
  have "length l \<le> length calls" if "first_failure calls l" for calls
    using that by (induction calls l rule: first_failure.induct) auto
  from this [OF early(2)] have "length l \<le> 5" by (simp add: calls_lengths)
  with early first_failure_more [OF early(2)] show ?thesis by (auto simp: log_matches_def)
next
  case (config mgr cfg n v)
  from main_controller_log [OF this assms(2)] obtain c :: "('o, 'ast, 'prog) controller_struct" and cs
    where "l = manager_calls fl cfg n @ cs" "log_matches L cfg 0 (controller_calls n D c) e cs" by blast
  with log_matches_after [of L cfg "controller_calls n D c" e cs "manager_calls fl cfg n"]
  show ?thesis by (auto simp: calls_lengths)
qed

section \<open>Running\<close>

text \<open>
  All workers are started before the context is waited for; the queue is shut down when the
  context is done, not before; \<open>run\<close> returns nil, so nothing else is ever in the channel, and
  the channel has room when \<open>run\<close> returns.
\<close>

fun run_progress :: "int \<Rightarrow> run_pc \<Rightarrow> nat \<Rightarrow> bool \<Rightarrow> bool \<Rightarrow> bool" where
  "run_progress n (Spawning i) k initialized down \<longleftrightarrow>
     0 \<le> i \<and> i \<le> max 0 n \<and> k = nat i \<and> \<not> initialized \<and> \<not> down"
| "run_progress n AwaitDone k initialized down \<longleftrightarrow> k = nat n \<and> initialized \<and> \<not> down"
| "run_progress n (RunReturned e) k initialized down \<longleftrightarrow>
     k = nat n \<and> initialized \<and> down \<and> e = None"
| "run_progress n Sent k initialized down \<longleftrightarrow> k = nat n \<and> initialized \<and> down"

definition run_inv :: "bool \<Rightarrow> int \<Rightarrow> run_state \<Rightarrow> bool" where
  "run_inv cancellable n s \<longleftrightarrow>
     run_progress n (rs_pc s) (rs_spawned s) (rs_initialized s) (rs_queueShutDown s) \<and>
     (rs_queueShutDown s \<longrightarrow> rs_ctxDone s) \<and> (rs_ctxDone s \<longrightarrow> cancellable) \<and>
     rs_errChan s \<in> {[], [None]} \<and> (rs_errChan s \<noteq> [] \<longrightarrow> rs_pc s = Sent) \<and>
     rs_started s \<in> {None, Some None}"

lemma run_init_inv: "run_inv cancellable n run_init"
  by (simp add: run_inv_def run_init_def)

lemma run_step_inv: "run_step cancellable n s t \<Longrightarrow> run_inv cancellable n s \<Longrightarrow> run_inv cancellable n t"
  by (induction rule: run_step.induct) (auto simp: run_inv_def)

text \<open>\<open>run\<close> only goes forward: its places are ordered.\<close>

fun run_rank :: "run_pc \<Rightarrow> nat \<times> int" where
  "run_rank (Spawning i) = (0, i)"
| "run_rank AwaitDone = (1, 0)"
| "run_rank (RunReturned err) = (2, 0)"
| "run_rank Sent = (3, 0)"

instantiation run_pc :: preorder
begin

definition less_eq_run_pc :: "run_pc \<Rightarrow> run_pc \<Rightarrow> bool" where
  "p \<le> q \<longleftrightarrow> fst (run_rank p) < fst (run_rank q) \<or>
     fst (run_rank p) = fst (run_rank q) \<and> snd (run_rank p) \<le> snd (run_rank q)"

definition less_run_pc :: "run_pc \<Rightarrow> run_pc \<Rightarrow> bool" where
  "(p :: run_pc) < q \<longleftrightarrow> p \<le> q \<and> \<not> q \<le> p"

instance
  by standard (auto simp: less_eq_run_pc_def less_run_pc_def)

end

lemma run_step_forward:
  "run_step cancellable n s t \<Longrightarrow>
   rs_pc s \<le> rs_pc t \<and> (rs_queueShutDown s \<longrightarrow> rs_queueShutDown t)"
  by (induction rule: run_step.induct) (auto simp: less_eq_run_pc_def)

lemma run_steps_forward:
  "(run_step cancellable n)\<^sup>*\<^sup>* s t \<Longrightarrow>
   rs_pc s \<le> rs_pc t \<and> (rs_queueShutDown s \<longrightarrow> rs_queueShutDown t)"
  by (induction rule: rtranclp_induct) (auto dest: run_step_forward intro: order_trans)

interpretation run_system:
  invariant_system "\<lambda>s. s = run_init" "run_step cancellable n" "run_inv cancellable n"
  by unfold_locales (auto intro: run_init_inv run_step_inv)

lemma run_progress_spawned: "run_progress n pc k i s \<Longrightarrow> int k \<le> max 0 n \<and> (s \<longrightarrow> k = nat n)"
  by (cases pc) auto

text \<open>Once the context is done, \<open>run\<close> can go on to its end whatever \<open>Start\<close> does.\<close>

lemma spawning_goes_on:
  assumes "rs_pc s = Spawning i"
  shows "\<exists>t. (run_step cancellable n)\<^sup>*\<^sup>* s t \<and> rs_pc t = AwaitDone \<and> rs_ctxDone t = rs_ctxDone s"
  using assms
proof (induction "nat (n - i)" arbitrary: s i rule: less_induct)
  case less
  show ?case
  proof (cases "i < n")
    case True
    let ?s = "s\<lparr>rs_pc := Spawning (i + 1), rs_spawned := rs_spawned s + 1\<rparr>"
    from run_step.spawn [OF less.prems True] have st: "run_step cancellable n s ?s" .
    have "nat (n - (i + 1)) < nat (n - i)" "rs_pc ?s = Spawning (i + 1)" using True by simp_all
    from less.hyps [OF this] obtain t where "(run_step cancellable n)\<^sup>*\<^sup>* ?s t"
      "rs_pc t = AwaitDone" "rs_ctxDone t = rs_ctxDone s" by auto
    with st show ?thesis by (meson converse_rtranclp_into_rtranclp)
  next
    case False
    from run_step.spawned [OF less.prems False] show ?thesis
      by (intro exI [of _ "s\<lparr>rs_pc := AwaitDone, rs_initialized := True\<rparr>"]) auto
  qed
qed

lemma waiting_stops:
  assumes "rs_pc s = AwaitDone" "rs_ctxDone s"
  shows "\<exists>t. run_step cancellable n s t \<and> rs_queueShutDown t"
  using run_step.stop [OF assms] by (intro exI conjI) auto

lemma cancelled_run_shuts_queue:
  assumes inv: "run_inv cancellable n s" and ctx: "rs_ctxDone s"
  shows "\<exists>t. (run_step cancellable n)\<^sup>*\<^sup>* s t \<and> rs_queueShutDown t"
proof (cases "rs_pc s")
  case (Spawning i)
  from spawning_goes_on [OF this] ctx obtain t where t: "(run_step cancellable n)\<^sup>*\<^sup>* s t"
    "rs_pc t = AwaitDone" "rs_ctxDone t" by auto
  from waiting_stops [OF t(2,3)] t(1) show ?thesis by (meson rtranclp.rtrancl_into_rtrancl)
next
  case AwaitDone
  from waiting_stops [OF this ctx] show ?thesis by (meson r_into_rtranclp)
next
  case (RunReturned e)
  with inv show ?thesis by (auto simp: run_inv_def)
next
  case Sent
  with inv show ?thesis by (auto simp: run_inv_def)
qed

end
