(* ===== verification/Process_Run.thy ===== *)
theory Process_Run
  imports System_Effort Startup_Order
begin

text \<open>
  The whole process from the moment \<open>run\<close> is started: \<open>run\<close> spawns the workers and waits for its
  context, the workers begin one by one, informers and event handlers go on all the while, and
  in the end \<open>run\<close> shuts the queue down and the workers stop.
\<close>

section \<open>The process\<close>

text \<open>
  \<open>ps_begun\<close> are the workers that have called \<open>runWorker\<close>, \<open>ps_stopped\<close> those whose goroutine has
  ended.
\<close>

record ('k, 'q, 's) process =
  ps_run :: run_state
  ps_crew :: "('k, 'q, 's) event_crew"
  ps_begun :: "nat set"
  ps_stopped :: "nat set"

abbreviation ps_queue :: "('k, 'q, 's) process \<Rightarrow> 'q" where
  "ps_queue p \<equiv> p_queue (ps_crew p)"

abbreviation spawned :: "('k, 'q, 's) process \<Rightarrow> nat set" where
  "spawned p \<equiv> {..<rs_spawned (ps_run p)}"

text \<open>The worker is up and has not ended.\<close>

abbreviation up :: "('k, 'q, 's) process \<Rightarrow> nat \<Rightarrow> bool" where
  "up p w \<equiv> w \<in> spawned p \<and> w \<notin> ps_stopped p"

text \<open>
  \<open>wait.UntilWithContext\<close> calls \<open>runWorker\<close> unless the context is done (\<open>skip\<close>); when the loop
  has seen the shutdown of the queue and returns, the context is done, so it is not called
  again (\<open>leave\<close>). What is neither \<open>run\<close> nor a worker is \<open>outside\<close>: informers, event handlers,
  back-off periods and other actors; none of them adds to a queue that is shut down. The label
  tells the steps of workers from the others.
\<close>

inductive process_step ::
  "('sel, 'k, 'q, 's) controller_deps \<Rightarrow> 'q queue_view \<Rightarrow> ('s \<Rightarrow> 's \<Rightarrow> bool) \<Rightarrow>
   (event \<Rightarrow> bool) \<Rightarrow> bool \<Rightarrow> int \<Rightarrow> bool \<Rightarrow> ('k, 'q, 's) process \<Rightarrow> ('k, 'q, 's) process \<Rightarrow> bool"
  for D v api tells cancellable n where
  run: "run_step cancellable n (ps_run p) r \<Longrightarrow> rs_queueShutDown r = rs_queueShutDown (ps_run p) \<Longrightarrow>
    process_step D v api tells cancellable n False p (p\<lparr>ps_run := r\<rparr>)"
| shut_down: "run_step cancellable n (ps_run p) r \<Longrightarrow> rs_queueShutDown r \<Longrightarrow>
    \<not> rs_queueShutDown (ps_run p) \<Longrightarrow> shuts_down v (ps_queue p) q \<Longrightarrow>
    process_step D v api tells cancellable n False p
      (p\<lparr>ps_run := r, ps_crew := (ps_crew p)\<lparr>p_ctrl := (p_ctrl (ps_crew p))\<lparr>c_queue := q\<rparr>\<rparr>\<rparr>)"
| begin_work: "up p w \<Longrightarrow> w \<notin> ps_begun p \<Longrightarrow> \<not> rs_ctxDone (ps_run p) \<Longrightarrow>
    process_step D v api tells cancellable n True p (p\<lparr>ps_begun := insert w (ps_begun p)\<rparr>)"
| skip: "up p w \<Longrightarrow> w \<notin> ps_begun p \<Longrightarrow> rs_ctxDone (ps_run p) \<Longrightarrow>
    process_step D v api tells cancellable n True p (p\<lparr>ps_stopped := insert w (ps_stopped p)\<rparr>)"
| work: "up p w \<Longrightarrow> w \<in> ps_begun p \<Longrightarrow> worker_step D w (ps_crew p) e \<Longrightarrow>
    process_step D v api tells cancellable n True p (p\<lparr>ps_crew := e\<rparr>)"
| leave: "up p w \<Longrightarrow> w \<in> ps_begun p \<Longrightarrow> p_workers (ps_crew p) w = Idle \<Longrightarrow>
    wq_Get (queue D) (ps_queue p) = Some (None, q) \<Longrightarrow>
    process_step D v api tells cancellable n True p
      (p\<lparr>ps_crew := (ps_crew p)\<lparr>p_ctrl := (p_ctrl (ps_crew p))\<lparr>c_queue := q\<rparr>\<rparr>,
         ps_stopped := insert w (ps_stopped p)\<rparr>)"
| outside: "event_step D v api tells (ps_crew p) e \<Longrightarrow>
    p_workers e = p_workers (ps_crew p) \<Longrightarrow>
    (shut v (ps_queue p) \<Longrightarrow> pend v (p_queue e) = pend v (ps_queue p)) \<Longrightarrow>
    process_step D v api tells cancellable n False p (p\<lparr>ps_crew := e\<rparr>)"

definition process_init ::
  "('sel, 'k, 'q, 's) controller_deps \<Rightarrow> 'q queue_view \<Rightarrow> ('s \<Rightarrow> bool) \<Rightarrow>
   ('k, 'q, 's) process \<Rightarrow> bool" where
  "process_init D v sinit p \<longleftrightarrow> ps_run p = run_init \<and> event_init D v sinit (ps_crew p) \<and>
     ps_begun p = {} \<and> ps_stopped p = {}"

section \<open>Invariant\<close>

definition process_inv ::
  "'q queue_view \<Rightarrow> bool \<Rightarrow> int \<Rightarrow> ('k, 'q, 's) process \<Rightarrow> bool" where
  "process_inv v cancellable n p \<longleftrightarrow>
     run_inv cancellable n (ps_run p) \<and> shut v (ps_queue p) = rs_queueShutDown (ps_run p) \<and>
     exclusive v (ps_crew p) \<and> finite_queue v (ps_crew p) \<and>
     ps_begun p \<subseteq> spawned p \<and> ps_stopped p \<subseteq> spawned p \<and>
     (\<forall>w. w \<notin> ps_begun p \<or> w \<in> ps_stopped p \<longrightarrow> p_workers (ps_crew p) w = Idle) \<and>
     (ps_stopped p \<noteq> {} \<longrightarrow> rs_ctxDone (ps_run p)) \<and>
     (ps_begun p \<noteq> {} \<and> ps_begun p \<subseteq> ps_stopped p \<longrightarrow>
        rs_queueShutDown (ps_run p) \<and> pend v (ps_queue p) = {})"

lemma process_invD:
  assumes "process_inv v cancellable n p"
  shows "run_inv cancellable n (ps_run p)" "shut v (ps_queue p) = rs_queueShutDown (ps_run p)"
    "exclusive v (ps_crew p)" "finite_queue v (ps_crew p)"
    "ps_begun p \<subseteq> spawned p" "ps_stopped p \<subseteq> spawned p"
    "w \<notin> ps_begun p \<or> w \<in> ps_stopped p \<Longrightarrow> p_workers (ps_crew p) w = Idle"
    "ps_stopped p \<noteq> {} \<Longrightarrow> rs_ctxDone (ps_run p)"
    "ps_begun p \<noteq> {} \<Longrightarrow> ps_begun p \<subseteq> ps_stopped p \<Longrightarrow>
      rs_queueShutDown (ps_run p) \<and> pend v (ps_queue p) = {}"
  using assms unfolding process_inv_def by blast+

lemma run_step_monotone:
  assumes "run_step cancellable n s t"
  shows "rs_spawned s \<le> rs_spawned t" "rs_ctxDone s \<Longrightarrow> rs_ctxDone t"
    "rs_queueShutDown s \<Longrightarrow> rs_queueShutDown t"
  using assms by (auto elim!: run_step.cases)

lemma shut_down_spawned:
  assumes "run_inv cancellable n s" "rs_queueShutDown s"
  shows "rs_spawned s = nat n" "rs_ctxDone s"
  using assms run_progress_spawned [of n "rs_pc s" "rs_spawned s" "rs_initialized s" True]
  by (auto simp: run_inv_def)

lemma delivery_exclusive:
  assumes Q: "queue_lawful (queue D) v" and "exclusive v e"
    and "p_ctrl e' = (case demand of
      None \<Rightarrow> p_ctrl e | Some i \<Rightarrow> on_queue (wq_Add (queue D) i) (p_ctrl e))"
    and "p_workers e' = p_workers e"
  shows "exclusive v e'"
  using assms(2-4) by (auto simp: exclusive_def Add_views [OF Q] split: option.splits)

lemma crew_step_exclusive:
  assumes Q: "queue_lawful (queue D) v" and ex: "exclusive v e" and "crew_step D v api e e'"
  shows "exclusive v e'"
  using assms(3)
proof cases
  case (work w)
  from worker_step_exclusive [OF Q ex work] show ?thesis .
qed (use ex in \<open>simp_all add: exclusive_def\<close>)

lemma event_step_exclusive:
  assumes Q: "queue_lawful (queue D) v" and ex: "exclusive v e"
    and "event_step D v api tells e e'"
  shows "exclusive v e'"
  using assms(3)
proof cases
  case crew
  from crew_step_exclusive [OF Q ex crew] show ?thesis .
next
  case (policy_event ev evs c)
  with policy_events.handle_Returns [OF policy_event(3)] show ?thesis
    by (intro delivery_exclusive [OF Q ex]) simp_all
next
  case (binding_event ev evs c)
  with binding_events.handle_Returns [OF binding_event(3)] show ?thesis
    by (intro delivery_exclusive [OF Q ex]) simp_all
next
  case (status_event ev evs c)
  with status_events.handle_Returns [OF status_event(3)] show ?thesis
    by (intro delivery_exclusive [OF Q ex]) simp_all
qed (use ex in \<open>simp_all add: exclusive_def\<close>)

text \<open>The last worker that leaves has seen an empty queue.\<close>

lemma last_leaves:
  assumes Q: "queue_lawful (queue D) v" and inv: "process_inv v cancellable n p"
    and w: "p_workers (ps_crew p) w = Idle"
    and g: "wq_Get (queue D) (ps_queue p) = Some (None, q)"
    and all: "ps_begun p \<subseteq> insert w (ps_stopped p)"
  shows "pend v q = {}"
proof -
  note G = Get_shutdown [OF Q g]
  have "p_workers (ps_crew p) x = Idle" for x
    using all w process_invD(7) [OF inv, of x] by blast
  then have "busy v (ps_queue p) = {}"
    using process_invD(3) [OF inv] by (auto simp: exclusive_def sole_holders_def)
  with G(2,3) show ?thesis by simp
qed

lemma process_step_inv:
  assumes Q: "queue_lawful (queue D) v" and inv: "process_inv v cancellable n p"
    and step: "process_step D v api tells cancellable n l p p'"
  shows "process_inv v cancellable n p'"
proof -
  note I = process_invD [OF inv]
  from step show ?thesis
  proof cases
    case (run r)
    have "spawned p \<subseteq> {..<rs_spawned r}" using run_step_monotone(1) [OF run(3)] by auto
    with I run run_step_inv [OF run(3) I(1)] run_step_monotone(2) [OF run(3)] show ?thesis
      unfolding process_inv_def by auto
  next
    case (shut_down r q)
    have sub: "spawned p \<subseteq> {..<rs_spawned r}" using run_step_monotone(1) [OF shut_down(3)] by auto
    have q: "pend v q = pend v (ps_queue p)" "busy v q = busy v (ps_queue p)"
      "waits v q = waits v (ps_queue p)" "shut v q"
      using shut_down(6) by (auto simp: shuts_down_def)
    have nb: "\<not> (ps_begun p \<noteq> {} \<and> ps_begun p \<subseteq> ps_stopped p)" using I(9) shut_down(5) by blast
    have "exclusive v (ps_crew p')" "finite_queue v (ps_crew p')"
      using I(3,4) q by (simp_all add: shut_down(2) exclusive_def finite_queue_def)
    moreover have "run_inv cancellable n r" by (rule run_step_inv [OF shut_down(3) I(1)])
    ultimately show ?thesis
      using I(5-8) sub nb q(4) shut_down(4) run_step_monotone(2) [OF shut_down(3)]
      unfolding process_inv_def by (auto simp: shut_down(2))
  next
    case (begin_work w)
    have "ps_stopped p = {}" using I(8) begin_work by blast
    with I begin_work show ?thesis unfolding process_inv_def by auto
  next
    case (skip w)
    with I show ?thesis unfolding process_inv_def by auto
  next
    case (work w e)
    have "ps_begun p \<noteq> {}" "\<not> ps_begun p \<subseteq> ps_stopped p" using work by auto
    moreover have "p_workers e x = Idle" if "x \<notin> ps_begun p \<or> x \<in> ps_stopped p" for x
    proof -
      have "x \<noteq> w" using that work by auto
      from work(5) I(7) [OF that] this show ?thesis by cases simp_all
    qed
    moreover have "shut v (p_queue e) = shut v (ps_queue p)" by (rule worker_step_shut [OF Q work(5)])
    moreover have "exclusive v e" by (rule worker_step_exclusive [OF Q I(3) work(5)])
    moreover have "finite_queue v e" by (rule worker_step_finite [OF Q I(4) work(5)])
    ultimately show ?thesis using I(1,2,5,6,8) unfolding process_inv_def work(2) by simp
  next
    case (leave w q)
    note G = Get_shutdown [OF Q leave(6)]
    have rsd: "rs_queueShutDown (ps_run p)" using G(1) I(2) by simp
    have "pend v q = {}" if "ps_begun p \<subseteq> insert w (ps_stopped p)"
      by (rule last_leaves [OF Q inv leave(5,6) that])
    moreover have "exclusive v (ps_crew p')" "finite_queue v (ps_crew p')"
      using I(3,4) G by (simp_all add: leave(2) exclusive_def finite_queue_def)
    moreover have "rs_ctxDone (ps_run p)" by (rule shut_down_spawned(2) [OF I(1) rsd])
    ultimately show ?thesis
      using I(1,5-7) rsd G(6) leave(3-5) unfolding process_inv_def by (auto simp: leave(2))
  next
    case (outside e)
    have "shut v (p_queue e) = shut v (ps_queue p)" by (rule event_step_shut [OF Q outside(3)])
    moreover have "exclusive v e" by (rule event_step_exclusive [OF Q I(3) outside(3)])
    moreover have "finite_queue v e" by (rule event_step_finite [OF Q I(4) outside(3)])
    ultimately show ?thesis
      using I outside(4,5) unfolding process_inv_def outside(2) by simp
  qed
qed

lemma process_init_inv:
  assumes "process_init D v sinit p"
  shows "process_inv v cancellable n p"
  using assms run_init_inv [of cancellable n]
  by (auto simp: process_init_def event_init_def pool_init_def process_inv_def run_init_def
      exclusive_def sole_holders_def finite_queue_def)

interpretation process_system: invariant_system "\<lambda>p. process_init D v sinit p"
  "\<lambda>p p'. \<exists>l. process_step D v api tells cancellable n l p p'"
  "\<lambda>p. queue_lawful (queue D) v \<longrightarrow> process_inv v cancellable n p"
  by unfold_locales (use process_init_inv process_step_inv in blast)+

lemma process_run_inv:
  assumes "queue_lawful (queue D) v" and "process_init D v sinit p0"
    and "labelled_run (process_step D v api tells cancellable n) p0 ls p"
  shows "process_inv v cancellable n p"
  using process_system.reachable_inv [OF assms(2) labelled_run_steps [OF assms(3)]] assms(1) by blast

section \<open>While the queue is open\<close>

text \<open>A step that does not shut the queue down is a step of the composed system, or not seen by it.\<close>

lemma process_step_system:
  assumes Q: "queue_lawful (queue D) v" and inv: "process_inv v cancellable n p"
    and step: "process_step D v api tells cancellable n l p p'"
    and nd: "\<not> rs_queueShutDown (ps_run p')"
  shows "(event_step D v api tells)\<^sup>*\<^sup>* (ps_crew p) (ps_crew p') \<and> \<not> rs_queueShutDown (ps_run p)"
  using step
proof cases
  case (work w e)
  with nd event_step.crew [OF crew_step.work [OF work(5)]] show ?thesis by auto
next
  case (leave w q)
  from Get_shutdown(1) [OF Q leave(6)] process_invD(2) [OF inv] leave(2) nd show ?thesis by simp
qed (use nd in auto)

lemma process_run_system:
  assumes Q: "queue_lawful (queue D) v"
    and run: "labelled_run (process_step D v api tells cancellable n) p0 ls p"
  shows "process_inv v cancellable n p0 \<Longrightarrow> \<not> rs_queueShutDown (ps_run p) \<Longrightarrow>
    (event_step D v api tells)\<^sup>*\<^sup>* (ps_crew p0) (ps_crew p)"
  using run
proof induction
  case (more p0 ls p l p')
  have "(\<lambda>p p'. \<exists>l. process_step D v api tells cancellable n l p p')\<^sup>*\<^sup>* p0 p"
    by (rule labelled_run_steps [OF more.hyps(1)]) blast
  then have "process_inv v cancellable n p"
    using process_system.steps_inv [of D v api tells cancellable n p0 p] Q more.prems(1) by blast
  from process_step_system [OF Q this more.hyps(2) more.prems(2)] more.IH more.prems(1)
  show ?case by (meson rtranclp_trans)
qed simp

section \<open>The end\<close>

text \<open>
  What the workers have left to do: the steps of the items, and for each that has not ended one
  step to end.
\<close>

definition process_left :: "'q queue_view \<Rightarrow> ('k, 'q, 's) process \<Rightarrow> nat" where
  "process_left v p = work_left v (spawned p) (ps_crew p) + card (spawned p - ps_stopped p)"

definition closing_process :: "'q queue_view \<Rightarrow> bool \<Rightarrow> int \<Rightarrow> ('k, 'q, 's) process \<Rightarrow> bool" where
  "closing_process v cancellable n p \<longleftrightarrow>
     process_inv v cancellable n p \<and> rs_queueShutDown (ps_run p)"

lemma stop_one:
  assumes "up p w"
  shows "Suc (card (spawned p - insert w (ps_stopped p))) = card (spawned p - ps_stopped p)"
proof -
  have "Suc (card (spawned p - ps_stopped p - {w})) = card (spawned p - ps_stopped p)"
    by (rule card_Suc_Diff1) (use assms in auto)
  moreover have "spawned p - insert w (ps_stopped p) = spawned p - ps_stopped p - {w}" by blast
  ultimately show ?thesis by simp
qed

lemma closing_process_step:
  assumes Q: "queue_lawful (queue D) v" and c: "closing_process v cancellable n p"
    and step: "process_step D v api tells cancellable n l p p'"
  shows "closing_process v cancellable n p' \<and>
    (if l then 1 else 0) + process_left v p' \<le> process_left v p + 0"
proof -
  have inv: "process_inv v cancellable n p" and sd: "rs_queueShutDown (ps_run p)"
    using c by (auto simp: closing_process_def)
  note I = process_invD [OF inv]
  have sh: "shut v (ps_queue p)" using I(2) sd by simp
  have fin: "finite (pend v (ps_queue p))" using I(4) by (simp add: finite_queue_def)
  have inv': "process_inv v cancellable n p'" by (rule process_step_inv [OF Q inv step])
  from step have "rs_queueShutDown (ps_run p') \<and>
      (if l then 1 else 0) + process_left v p' \<le> process_left v p"
  proof cases
    case (run r)
    have "rs_spawned r = rs_spawned (ps_run p)"
      using shut_down_spawned(1) [OF I(1) sd] shut_down_spawned(1) [OF process_invD(1) [OF inv']]
        run sd by simp
    with run sd show ?thesis by (simp add: process_left_def work_left_def)
  next
    case (shut_down r q)
    with sd show ?thesis by simp
  next
    case (begin_work w)
    with shut_down_spawned(2) [OF I(1) sd] show ?thesis by simp
  next
    case (skip w)
    with stop_one [where p = p and w = w] sd show ?thesis by (simp add: process_left_def work_left_def)
  next
    case (work w e)
    from work_left_step [OF Q sh _ fin _ work(5), of "spawned p"] work(3)
    have "Suc (work_left v (spawned p) e) = work_left v (spawned p) (ps_crew p)" by blast
    with work sd show ?thesis by (simp add: process_left_def)
  next
    case (leave w q)
    note G = Get_shutdown [OF Q leave(6)]
    from leave stop_one [where p = p and w = w] sd G show ?thesis by (simp add: process_left_def work_left_def)
  next
    case (outside e)
    with sh sd show ?thesis by (simp add: process_left_def work_left_def)
  qed
  with inv' show ?thesis by (simp add: closing_process_def)
qed

interpretation closing_run: amortized_system "process_step D v api tells cancellable n"
  "\<lambda>p. queue_lawful (queue D) v \<and> closing_process v cancellable n p" "process_left v"
  "\<lambda>l. if l then 1 else 0" "\<lambda>l. 0"
  by unfold_locales (use closing_process_step in blast)

lemma worker_labels: "sum_list (map (\<lambda>l. if l then 1 else 0) ls) = length (filter (\<lambda>l. l) ls)"
  by (induction ls) auto

lemma zero_grants: "sum_list (map (\<lambda>l. 0) ls) = (0 :: nat)"
  by (induction ls) auto

text \<open>Where no worker can go on.\<close>

lemma closing_process_stuck:
  assumes Q: "queue_lawful (queue D) v" and I: "index_lawful D"
    and c: "closing_process v cancellable n p"
    and st: "\<nexists>p'. process_step D v api tells cancellable n True p p'"
    and np: "\<not> panicking D (ps_crew p)"
  shows "ps_stopped p = {..<nat n} \<and> busy v (ps_queue p) = {} \<and>
    (ps_begun p \<noteq> {} \<longrightarrow> pend v (ps_queue p) = {})"
proof -
  have inv: "process_inv v cancellable n p" and sd: "rs_queueShutDown (ps_run p)"
    using c by (auto simp: closing_process_def)
  note P = process_invD [OF inv]
  have sh: "shut v (ps_queue p)" using P(2) sd by simp
  have begun: "w \<in> ps_stopped p" if w: "w \<in> spawned p" for w
  proof (rule ccontr)
    assume ns: "w \<notin> ps_stopped p"
    show False
    proof (cases "w \<in> ps_begun p")
      case False
      from process_step.skip [OF _ this shut_down_spawned(2) [OF P(1) sd]] w ns st
      show False by blast
    next
      case True
      from worker_can_go_on [OF Q I np sh, of w] show False
      proof (elim disjE exE conjE)
        fix e assume "worker_step D w (ps_crew p) e"
        from process_step.work [OF _ True this] w ns st show False by blast
      next
        fix q assume "p_workers (ps_crew p) w = Idle" "wq_Get (queue D) (ps_queue p) = Some (None, q)"
        from process_step.leave [OF _ True this] w ns st show False by blast
      qed
    qed
  qed
  then have all: "ps_stopped p = spawned p" using P(6) by blast
  then have "p_workers (ps_crew p) w = Idle" for w
    using P(5) P(7) [of w] by blast
  then have "busy v (ps_queue p) = {}"
    using P(3) by (auto simp: exclusive_def sole_holders_def)
  with all P(5,9) shut_down_spawned(1) [OF P(1) sd] show ?thesis by auto
qed

lemma closing_process_run:
  assumes "queue_lawful (queue D) v" and "closing_process v cancellable n p"
    and "labelled_run (process_step D v api tells cancellable n) p ls p'"
  shows "closing_process v cancellable n p' \<and>
    length (filter (\<lambda>l. l) ls) + process_left v p' \<le> process_left v p"
  using closing_run.run_paid [OF assms(3)] assms(1,2) by (simp add: worker_labels zero_grants)

end
