(* ===== verification/Controller_Properties.thy ===== *)
theory Controller_Properties
  imports Demo_Controller Notification_Properties
begin

text \<open>
  Properties of the controller: the pool of workers over the shared queue, what becomes of an
  item, the error paths through the queue, and the event handlers. The witnesses run the
  controller of \<open>Demo_Controller\<close>.
\<close>

section \<open>The pool of workers\<close>

text \<open>
  C19: No two workers ever have the same item in hand, so the work on one policy, Binding or
  combined status is sequential although the controller runs several workers.
\<close>

theorem workers_exclude_each_other:
  assumes "controller_lawful c D v" and "pool_init D v fresh_resolver p0"
    and "(pool_step D v api_change)\<^sup>*\<^sup>* p0 p"
    and "item_of (p_workers p w) = Some i" and "item_of (p_workers p w') = Some i"
  shows "w = w'"
proof -
  have "consistent D v tracked_contents p"
    using worker_pool.reachable_inv [OF _ assms(3), of c] assms(1,2) by blast
  from exclusiveD(2) [OF consistentD(2) [OF this] assms(5,4)] show ?thesis .
qed

theorem workers_exclude_each_other_witness:
  "{w. item_of (p_workers (demo_pool [] [demo_web] (Took demo_web) {} (new_resolver demo_start)) w)
     = Some demo_web} = {2}"
proof -
  have "item_of (p_workers (demo_pool [] [demo_web] (Took demo_web) {} (new_resolver demo_start)) 2)
      = Some demo_web" by (simp add: demo_pool_def)
  with workers_exclude_each_other [OF demo_controller_lawful demo_pool_init demo_run_taken this]
  show ?thesis by blast
qed

text \<open>
  C26: In every state the pool reaches (a panic ends the process), each tracked policy is in
  one of its stages, whichever workers call the resolver in whatever order.
\<close>

theorem pool_keeps_stages_in_range:
  assumes "controller_lawful c D v" and "pool_init D v fresh_resolver p0"
    and "(pool_step D v api_change)\<^sup>*\<^sup>* p0 p"
    and "stagedBindingPolicies (p_resolver p) n = Some d"
  shows "d_activeIndex d < length (d_stages d)"
proof -
  have "tracked_ok (p_resolver p)"
    using worker_pool.reachable_inv [OF _ assms(3), of c] assms(1,2) by blast
  with assms(4) show ?thesis by (rule tracked_okD [rotated])
qed

theorem pool_keeps_stages_in_range_witness:
  "d_activeIndex ((newPolicyData demo_policy)\<lparr>d_activeBindingPolicyUID := ''uid-web.stage.dev''\<rparr>) < 2"
  using pool_keeps_stages_in_range [OF demo_controller_lawful demo_pool_init demo_run_done,
      of "''web''" "(newPolicyData demo_policy)\<lparr>d_activeBindingPolicyUID := ''uid-web.stage.dev''\<rparr>"]
  by (simp add: demo_pool_def demo_started_def newPolicyData_def demo_policy_def)

section \<open>One item\<close>

text \<open>
  C20: What becomes of an item a worker takes: the worker goes on unless the reconciliation
  panicked; the item is no longer marked busy, also after a panic; and it is due again (at
  once or after a back-off period) exactly when the reconciliation returned an error, unless
  the queue shuts down or the item waited already.
\<close>

theorem item_is_retried_on_error:
  assumes "queue_lawful (queue D) v"
    and "wq_Get (queue D) (c_queue st) = Some (Some i, q)"
    and "reconcile D i (st\<lparr>c_queue := q\<rparr>) = (res, st1)"
  shows "\<exists>st'. processNextWorkItem D st =
      Some (case res of Panics p \<Rightarrow> Panics p | Returns _ \<Rightarrow> Returns True, st') \<and>
    c_resolver st' = c_resolver st1 \<and> busy v (c_queue st') = busy v (c_queue st) \<and>
    pend v (c_queue st') \<union> waits v (c_queue st') =
      (pend v (c_queue st) - {i}) \<union> waits v (c_queue st) \<union>
      (if (\<exists>e. res = Returns (Some e)) \<and> \<not> shut v (c_queue st) then {i} else {})"
  by (rule item_outcome [OF assms])

text \<open>A controller with one item on its queue.\<close>

definition demo_ctrl ::
  "work_item \<Rightarrow> demo_cache \<Rightarrow> demo_world resolver \<Rightarrow>
   (demo_cache, demo_queue, demo_world resolver) controller" where
  "demo_ctrl i k r = \<lparr>c_cache = k, c_queue = demo_empty_queue\<lparr>dq_items := [i]\<rparr>, c_resolver = r\<rparr>"

definition demo_taken :: "work_item \<Rightarrow> demo_queue" where
  "demo_taken i = demo_empty_queue\<lparr>dq_busy := [i]\<rparr>"

lemma demo_ctrl_sel [simp]:
  "c_cache (demo_ctrl i k r) = k" "c_resolver (demo_ctrl i k r) = r"
  "dq_items (c_queue (demo_ctrl i k r)) = [i]" "dq_waits (c_queue (demo_ctrl i k r)) = []"
  "dq_busy (c_queue (demo_ctrl i k r)) = []" "\<not> dq_shut (c_queue (demo_ctrl i k r))"
  by (simp_all add: demo_ctrl_def demo_empty_queue_def)

lemma demo_ctrl_Get:
  "wq_Get (queue demo_deps) (c_queue (demo_ctrl i k r)) = Some (Some i, demo_taken i)"
  by (simp add: demo_Get demo_ctrl_def demo_empty_queue_def demo_taken_def)

lemma demo_queue_ok: "queue_lawful (queue demo_deps) demo_view"
  by (simp add: demo_queue_lawful)

lemma demo_bad_key:
  "SplitMetaNamespaceKey demo_deps ''a/b/c'' = Inl (LibError ''unexpected key'')"
proof -
  have "strings_Split ''a/b/c'' ''/'' = [''a'', ''b'', ''c'']" by code_simp
  then show ?thesis by (simp add: demo_split_key)
qed

theorem item_is_retried_on_error_witness:
  "\<exists>st'. processNextWorkItem demo_deps (demo_ctrl (CombinedStatusRef ''a/b/c'') demo_full_cache
       demo_ready) = Some (Returns True, st') \<and>
     set (dq_items (c_queue st')) \<union> set (dq_waits (c_queue st')) = {CombinedStatusRef ''a/b/c''}"
proof -
  have "reconcile demo_deps (CombinedStatusRef ''a/b/c'')
      ((demo_ctrl (CombinedStatusRef ''a/b/c'') demo_full_cache demo_ready)
        \<lparr>c_queue := demo_taken (CombinedStatusRef ''a/b/c'')\<rparr>) =
      (Returns (Some (LibError ''unexpected key'')),
       (demo_ctrl (CombinedStatusRef ''a/b/c'') demo_full_cache demo_ready)
        \<lparr>c_queue := demo_taken (CombinedStatusRef ''a/b/c'')\<rparr>)"
    by (simp add: reconcile_def processCombinedStatus_def demo_bad_key)
  from item_is_retried_on_error [OF demo_queue_ok demo_ctrl_Get this] show ?thesis by auto
qed

text \<open>
  C21: Synchronising one policy follows the cache: a policy that is cached is noted, one that
  is missing is dropped without an error, and if the call returns, what is tracked of the
  policy is what is cached of it, unless the index itself failed (an error, nothing changed).
\<close>

theorem sync_follows_cache:
  assumes "controller_lawful c D v" and "syncStagedBindingPolicy D n st = (Returns err, st')"
  shows "tracked_contents (c_resolver st') n = cached_content D (c_cache st) n \<and>
      (\<not> cached D (c_cache st) n \<longrightarrow> err = None) \<or>
    (err \<noteq> None \<and> st' = st)"
proof -
  have R: "the_resolver D = NewResolver c" and I: "index_lawful D"
    using assms(1) by (auto simp: controller_lawful_def)
  have "reconcile D (StagedBindingPolicyRef n) st = (Returns err, st')"
    using assms(2) by (simp add: reconcile_def)
  then obtain f where f: "fetch D (StagedBindingPolicyRef n) (c_cache st) = Returns f"
    and ap: "apply_fetched D f st = (Returns err, st')"
    by (auto simp: reconcile_eq split: outcome.splits)
  have con: "tracked_contents (c_resolver st') =
      contents_after f (tracked_contents (c_resolver st))"
    by (rule sbp_resolver.apply_contents [OF R ap])
  from fetch_policy [OF I f] show ?thesis
  proof (elim disjE exE conjE)
    fix e assume "f = Failed e"
    with ap show ?thesis by (auto simp: apply_fetched_def)
  next
    assume "f = MissingPolicy n" "cached_content D (c_cache st) n = None"
    with ap con show ?thesis
      by (auto simp: apply_fetched_def R call_resolver_def DeleteStagedBindingPolicy_def)
  qed (use con in \<open>auto simp: cached_def\<close>)
qed

theorem sync_follows_cache_witness:
  "\<exists>st'. syncStagedBindingPolicy demo_deps ''gone'' (demo_ctrl demo_web demo_full_cache demo_ready) =
     (Returns None, st') \<and> tracked_contents (c_resolver st') ''gone'' = None"
proof -
  let ?st = "demo_ctrl demo_web demo_full_cache demo_ready"
  have nc: "cached_content demo_deps (c_cache ?st) ''gone'' = None"
    by (simp add: demo_content demo_full_cache_def)
  obtain st' where s: "syncStagedBindingPolicy demo_deps ''gone'' ?st = (Returns None, st')"
    by (simp add: syncStagedBindingPolicy_def demo_lister_Get demo_full_cache_def
        call_resolver_def DeleteStagedBindingPolicy_def)
  from sync_follows_cache [OF demo_controller_lawful s] nc s show ?thesis by auto
qed

section \<open>Errors and lost work\<close>

lemma associatedName_empty: "associatedName [] = None"
  by code_simp


text \<open>The next stage's BindingPolicy exists already, so its creation fails.\<close>

definition demo_contended :: "demo_world resolver" where
  "demo_contended = demo_resolver [demo_dev, demo_prod] 0
     (demo_cluster [''web.stage.dev'', ''web.stage.prod''] [demo_status ''dev'' True])"

lemma demo_contended_sel [simp]:
  "stagedBindingPolicies demo_contended = [''web'' \<mapsto> demo_data [demo_dev, demo_prod] 0]"
  "world demo_contended =
     demo_cluster [''web.stage.dev'', ''web.stage.prod''] [demo_status ''dev'' True]"
  by (simp_all add: demo_contended_def)

definition demo_status_cache :: demo_cache where
  "demo_status_cache = demo_full_cache\<lparr>dc_statuses := [demo_status ''dev'' True]\<rparr>"

lemma demo_status_key:
  "SplitMetaNamespaceKey demo_deps ''cs.uid-web.stage.dev'' = Inr ([], ''cs.uid-web.stage.dev'')"
proof -
  have "strings_Split ''cs.uid-web.stage.dev'' ''/'' = [''cs.uid-web.stage.dev'']" by code_simp
  then show ?thesis by (simp add: demo_split_key)
qed


text \<open>
  C13: A policy that is already deployed and comes up again (its spec was edited, or the
  controller was restarted) fails to be noted, is put back for a retry, and leaves a world in
  which its BindingPolicy still exists, so that the retry fails as well. Its entry has lost
  its workload and the UID of its BindingPolicy.
\<close>

theorem edited_policy_fails_and_retries:
  assumes "controller_lawful c D v" and "api_lawful c dep"
    and "wq_Get (queue D) (c_queue st) = Some (Some (StagedBindingPolicyRef n), q)"
    and "\<not> shut v (c_queue st)"
    and "lister_Get (api_NewNotFound D) (sbpLister D) n (c_cache st) = Returns (Inr sbp)"
    and "stages_ok n (newPolicyData sbp)" and "spec_stages (sbp_spec sbp) \<noteq> []"
    and "activeStageIndex sbp \<in> placed dep (world (c_resolver st)) n (newPolicyData sbp)"
  shows "\<exists>st'. processNextWorkItem D st = Some (Returns True, st') \<and>
    StagedBindingPolicyRef n \<in> pend v (c_queue st') \<union> waits v (c_queue st') \<and>
    stagedBindingPolicies (c_resolver st') n = Some (newPolicyData sbp) \<and>
    activeStageIndex sbp \<in> placed dep (world (c_resolver st')) n (newPolicyData sbp)"
proof -
  let ?st = "st\<lparr>c_queue := q\<rparr>"
  have R: "the_resolver D = NewResolver c" and Q: "queue_lawful (queue D) v"
    and I: "index_lawful D"
    using assms(1) by (auto simp: controller_lawful_def)
  have n: "sbp_name sbp = n"
    using lister_Get_name [OF _ assms(5)] I by (simp add: index_lawful_def)
  obtain e w where nt: "NoteStagedBindingPolicy c sbp (c_resolver st) =
      (Returns (Some e), (noted sbp (c_resolver st))\<lparr>world := w\<rparr>)"
    and dep: "dep w (stagePolicyName n (newPolicyData sbp) (activeStageIndex sbp))"
    using note_existing [OF assms(2) _ assms(7), of "c_resolver st"] assms(6,8)
    by (auto simp: n placed_def)
  have rec: "reconcile D (StagedBindingPolicyRef n) ?st =
      (Returns (Some (Errorf ''failed to note StagedBindingPolicy'' e)),
       ?st\<lparr>c_resolver := (noted sbp (c_resolver st))\<lparr>world := w\<rparr>\<rparr>)"
    using assms(5) nt
    by (simp add: reconcile_def syncStagedBindingPolicy_def call_resolver_def R)
  have "activeStageIndex sbp \<in> placed dep w n (newPolicyData sbp)"
    using assms(8) dep by (simp add: placed_def)
  with item_outcome [OF Q assms(3) rec] assms(4) show ?thesis by (auto simp: n)
qed

theorem edited_policy_fails_and_retries_witness:
  "\<exists>st'. processNextWorkItem demo_deps (demo_ctrl demo_web demo_full_cache demo_ready) =
     Some (Returns True, st') \<and>
     demo_web \<in> set (dq_items (c_queue st')) \<union> set (dq_waits (c_queue st'))"
proof -
  have "activeStageIndex demo_policy = 0" "spec_stages (sbp_spec demo_policy) = [demo_dev, demo_prod]"
    by (simp_all add: demo_policy_def activeStageIndex_def)
  then show ?thesis
    using edited_policy_fails_and_retries [OF demo_controller_lawful demo_api_lawful
        demo_ctrl_Get [of demo_web demo_full_cache demo_ready], where sbp = demo_policy]
      demo_policy_stages_ok
    by (auto simp: demo_lister_Get demo_full_cache_def placed_def demo_deployed_def
        bindingPolicyName_def stage_suffix_def)
qed

text \<open>
  C35: A Binding whose policy is not tracked yet is lost: it is forgotten as processed and the
  resolver is unchanged. \<open>Start\<close> fills the queue with the Bindings before the informer of
  the policies is started, so after a restart every Binding may meet this fate.
\<close>

theorem early_binding_is_dropped:
  assumes "controller_lawful c D v"
    and "wq_Get (queue D) (c_queue st) = Some (Some (BindingRef ref), q)"
    and "bindingLister_Get D ref (c_cache st) = Inr b"
    and "associatedName (om_name (b_meta b)) = Some n" and "n \<notin> tracked_names (c_resolver st)"
  shows "\<exists>st'. processNextWorkItem D st = Some (Returns True, st') \<and>
    c_resolver st' = c_resolver st \<and>
    pend v (c_queue st') \<union> waits v (c_queue st') =
      (pend v (c_queue st) - {BindingRef ref}) \<union> waits v (c_queue st)"
proof -
  have R: "the_resolver D = NewResolver c" and Q: "queue_lawful (queue D) v"
    using assms(1) by (auto simp: controller_lawful_def)
  have "NoteBinding c b (c_resolver st) = (Returns (), c_resolver st)"
    using assms(4,5) by (auto simp: NoteBinding_def tracked_names_def split: option.split)
  with assms(3) have "reconcile D (BindingRef ref) (st\<lparr>c_queue := q\<rparr>) =
      (Returns None, st\<lparr>c_queue := q\<rparr>)"
    by (simp add: reconcile_def processBinding_def call_resolver_def R)
  from item_outcome [OF Q assms(2) this] show ?thesis by auto
qed

theorem early_binding_is_dropped_witness:
  "\<exists>st'. processNextWorkItem demo_deps (demo_ctrl (BindingRef ''web.stage.dev'')
       (demo_full_cache\<lparr>dc_bindings := [demo_binding]\<rparr>) (new_resolver demo_start)) =
     Some (Returns True, st') \<and> c_resolver st' = new_resolver demo_start"
  using early_binding_is_dropped [OF demo_controller_lawful
      demo_ctrl_Get [of _ "demo_full_cache\<lparr>dc_bindings := [demo_binding]\<rparr>"
        "new_resolver demo_start"], where ref = "''web.stage.dev''" and b = demo_binding
        and n = "''web''"]
  by (auto simp: demo_associated tracked_names_def new_resolver_def)

section \<open>Event handlers\<close>

text \<open>
  An update that leaves the generation of an object alone, such as the resolver's own
  write of a policy's status, puts nothing on the queue, for all three watched types.
\<close>

lemma status_writes_trigger_nothing:
  "(om_generation (sbp_meta s) = om_generation (sbp_meta s') \<longrightarrow>
     UpdateFunc (stagedBindingPolicyHandlers D) (SBPObject s) (SBPObject s') st =
       (Returns (), st)) \<and>
   (om_generation (b_meta b) = om_generation (b_meta b') \<longrightarrow>
     UpdateFunc (bindingHandlers D) (BindingObject b) (BindingObject b') st = (Returns (), st)) \<and>
   (om_generation (cs_meta cs) = om_generation (cs_meta cs') \<longrightarrow>
     UpdateFunc (combinedStatusHandlers D) (CombinedStatusObject cs) (CombinedStatusObject cs') st =
       (Returns (), st))"
  by (simp add: policy_events.same_generation [where old = "SBPObject s" and new = "SBPObject s'",
        simplified]
      binding_events.same_generation [where old = "BindingObject b" and new = "BindingObject b'",
        simplified]
      status_events.same_generation [where old = "CombinedStatusObject cs"
        and new = "CombinedStatusObject cs'", simplified])

end
