(* ===== verification/System_Properties.thy ===== *)
theory System_Properties
  imports Demo_System Process_Run Controller_Properties
begin

text \<open>
  Properties of the composed system: informers, event handlers, queue, workers and resolver.
  The witnesses are about the run of \<open>Demo_System\<close>.
\<close>

section \<open>The system as a pool\<close>

text \<open>
  C5: The controller settles on the truth: whatever the interleaving of any number of workers,
  the informers, the event handlers, back-off periods and other actors, when no event and no
  item is left the resolver tracks exactly the policies the informer's cache holds, each with
  the cached UID, downsync clauses and stages.
\<close>

theorem controller_settles:
  assumes "controller_lawful c D v" and "event_init D v fresh_resolver e0"
    and "(event_step D v api_change generation_tells)\<^sup>*\<^sup>* e0 e" and "settled v e"
  shows "tracked_contents (p_resolver e) = cached_content D (p_cache e)"
proof -
  have "index_lawful D" using assms(1) by (simp add: controller_lawful_def)
  from pool_settles [OF assms(1) _ event_run_abstract [OF this assms(3)]
      settled_quiescent [OF assms(4)]] assms(2)
  show ?thesis by (simp add: event_init_def)
qed

theorem controller_settles_witness:
  "tracked_contents demo_started ''web'' = Some (policy_content demo_policy)"
  using controller_settles [OF demo_controller_lawful demo_system_init demo_system_run
      demo_system_settled]
  by (simp add: demo_content demo_full_cache_def)

text \<open>
  C6: The system converges. In any run, with whatever else changes the caches and the API server,
  the steps of the system's own are bounded: what it had to do at the start, and five more for
  each event that is added and each item that fails and is put back. And where none of its
  workers, timers or event handlers can go on, then either a call of the resolver panics, or
  everything is worked off and the resolver tracks exactly the policies of the cache.
\<close>

theorem system_converges:
  assumes "controller_lawful c D v" and "timers_lawful v" and "event_init D v fresh_resolver e0"
    and "(event_step D v api_change generation_tells)\<^sup>*\<^sup>* e0 e"
    and "finite W" and "W \<noteq> {}" and "\<forall>w. w \<notin> W \<longrightarrow> p_workers e w = Idle"
    and "labelled_run (system_step D v W api_change generation_tells) e ls e'"
  shows "length (filter is_own ls) + effort v W e' \<le>
      effort v W e + 5 * length (filter is_burst ls) \<and>
    (stuck D v W api_change generation_tells e' \<longrightarrow>
       panicking D e' \<or>
       settled v e' \<and> tracked_contents (p_resolver e') = cached_content D (p_cache e'))"
proof -
  have Q: "queue_lawful (queue D) v" and I: "index_lawful D"
    using assms(1) by (auto simp: controller_lawful_def)
  have "finite_queue v e" using event_invariants.reachable_inv [OF assms(3,4)] Q I by blast
  then have "effort_ok v W e" using assms(5,7) by (simp add: effort_ok_def finite_queue_def)
  from system_run_effort [OF Q this assms(8)] have ok: "effort_ok v W e'" and
    le: "length (filter is_own ls) + effort v W e' \<le> effort v W e + 5 * length (filter is_burst ls)"
    by blast+
  have run: "(event_step D v api_change generation_tells)\<^sup>*\<^sup>* e0 e'"
    using assms(4) labelled_run_steps [OF assms(8) system_step_event] by (rule rtranclp_trans)
  have idle: "p_workers e' w = Idle" if "w \<notin> W" for w using ok that by (simp add: effort_ok_def)
  from le system_stops_settled [OF assms(1-3) run assms(6) idle] show ?thesis by blast
qed

theorem system_converges_witness:
  "effort demo_view {0} (demo_system demo_full_cache [] demo_started [] []) = 0 \<and>
   tracked_contents demo_started = cached_content demo_deps demo_full_cache"
proof -
  let ?e = "demo_system demo_full_cache [demo_web] (new_resolver demo_start) [] []"
  have run: "demo_event_step\<^sup>*\<^sup>* (demo_system demo_no_cache [] (new_resolver demo_start) [] []) ?e"
    using converse_rtranclp_into_rtranclp [OF demo_policy_appears
        r_into_rtranclp [where r = demo_event_step, OF demo_policy_delivered]] .
  have idle: "\<forall>w. w \<notin> {0} \<longrightarrow> p_workers ?e w = Idle" by simp
  have e: "effort demo_view {0} ?e = 4"
    by (simp add: effort_def undelivered_def demo_empty_queue_def)
  from system_converges [OF demo_controller_lawful demo_timers_lawful demo_system_init run _ _ idle
      demo_labelled_turn] e demo_stuck show ?thesis
    by (simp add: panicking_def)
qed

text \<open>
  C7: The event handlers and the first-in first-out queues of events implement the abstract
  notifications of the pool: every run of informers, handlers and workers is a run of the pool,
  whose undelivered notifications are what the events in the queues ask for.
\<close>

theorem system_refines_pool:
  assumes "index_lawful D" and "event_init D v sinit e0"
    and "(event_step D v api generation_tells)\<^sup>*\<^sup>* e0 e"
  shows "pool_init D v sinit (pool_of D e0) \<and>
    (pool_step D v api)\<^sup>*\<^sup>* (pool_of D e0) (pool_of D e) \<and>
    (settled v e \<longrightarrow> quiescent v (pool_of D e))"
  using assms(2) event_run_abstract [OF assms(1,3)] settled_quiescent
  by (auto simp: event_init_def)

theorem system_refines_pool_witness:
  "(pool_step demo_deps demo_view api_change)\<^sup>*\<^sup>*
     (pool_of demo_deps (demo_system demo_no_cache [] (new_resolver demo_start) [] []))
     (pool_of demo_deps (demo_system demo_full_cache [] demo_started [] []))"
  using system_refines_pool [OF demo_index_lawful demo_system_init demo_system_run] by blast

text \<open>
  C23: The steps of the pool's workers implement the loop of the code, whichever way it goes. For
  a worker that runs undisturbed, \<open>k\<close> turns of \<open>processNextWorkItem\<close> are exactly \<open>4 * k\<close> of its
  steps, to the same controller. \<open>runWorker\<close> returns exactly when the worker comes to a \<open>Get\<close>
  that says the queue has shut down, and in that state; it panics exactly when the worker comes
  to a call that panics; and it does neither exactly when the worker comes to a \<open>Get\<close> that
  blocks, or steps for ever. All of it are runs of the pool.
\<close>

theorem worker_run_is_pool_run:
  fixes p :: "('k, 'q, 's) pool"
  assumes w: "p_workers p w = Idle"
  shows "((worker_step D w ^^ (4 * k)) p p' \<longleftrightarrow>
      (\<exists>c. loop_turns D k (p_ctrl p) = Some c \<and> p' = p\<lparr>p_ctrl := c\<rparr>)) \<and>
    (runWorker D (p_ctrl p) = Some (Returns (), c) \<longleftrightarrow>
      (\<exists>s. (worker_step D w)\<^sup>*\<^sup>* p s \<and> p_workers s w = Idle \<and>
        (\<exists>q. wq_Get (queue D) (p_queue s) = Some (None, q) \<and> c = (p_ctrl s)\<lparr>c_queue := q\<rparr>))) \<and>
    ((\<exists>c. runWorker D (p_ctrl p) = Some (Panics x, c)) \<longleftrightarrow>
      (\<exists>s. (worker_step D w)\<^sup>*\<^sup>* p s \<and> panics_with D w x s)) \<and>
    (runWorker D (p_ctrl p) = None \<longleftrightarrow>
      (\<forall>m. \<exists>s. (worker_step D w ^^ m) p s) \<or>
      (\<exists>s. (worker_step D w)\<^sup>*\<^sup>* p s \<and> p_workers s w = Idle \<and>
        wq_Get (queue D) (p_queue s) = None)) \<and>
    ((worker_step D w)\<^sup>*\<^sup>* p p' \<longrightarrow> (pool_step D v api)\<^sup>*\<^sup>* p p')"
proof (intro conjI)
  show "(worker_step D w ^^ (4 * k)) p p' \<longleftrightarrow>
      (\<exists>c. loop_turns D k (p_ctrl p) = Some c \<and> p' = p\<lparr>p_ctrl := c\<rparr>)" by (rule turns_are_steps [OF w])
  show "runWorker D (p_ctrl p) = Some (Returns (), c) \<longleftrightarrow>
      (\<exists>s. (worker_step D w)\<^sup>*\<^sup>* p s \<and> p_workers s w = Idle \<and>
        (\<exists>q. wq_Get (queue D) (p_queue s) = Some (None, q) \<and> c = (p_ctrl s)\<lparr>c_queue := q\<rparr>))"
    unfolding worker_reaches_idle [OF w, where P = "\<lambda>st. \<exists>q. wq_Get (queue D) (c_queue st) =
        Some (None, q) \<and> c = st\<lparr>c_queue := q\<rparr>"] runWorker_Some last_turn_def
    by (simp add: processNextWorkItem_ends)
  show "(\<exists>c. runWorker D (p_ctrl p) = Some (Panics x, c)) \<longleftrightarrow>
      (\<exists>s. (worker_step D w)\<^sup>*\<^sup>* p s \<and> panics_with D w x s)"
    by (rule worker_reaches_panic [OF w, symmetric])
  show "runWorker D (p_ctrl p) = None \<longleftrightarrow>
      (\<forall>m. \<exists>s. (worker_step D w ^^ m) p s) \<or>
      (\<exists>s. (worker_step D w)\<^sup>*\<^sup>* p s \<and> p_workers s w = Idle \<and>
        wq_Get (queue D) (p_queue s) = None)"
    unfolding worker_reaches_idle [OF w, where P = "\<lambda>st. wq_Get (queue D) (c_queue st) = None"]
      runWorker_None worker_goes_on [OF w] processNextWorkItem_ends ..
  show "(worker_step D w)\<^sup>*\<^sup>* p p' \<longrightarrow> (pool_step D v api)\<^sup>*\<^sup>* p p'"
    by (rule impI, erule rtranclp_mono [THEN predicate2D, rotated])
      (auto intro: pool_step.crew crew_step.work)
qed

definition demo_loop ::
  "bool \<Rightarrow> work_item list \<Rightarrow> demo_world resolver \<Rightarrow>
   (demo_cache, demo_queue, demo_world resolver) pool" where
  "demo_loop down items r =
     \<lparr>p_ctrl = \<lparr>c_cache = demo_full_cache,
        c_queue = demo_empty_queue\<lparr>dq_items := items, dq_shut := down\<rparr>, c_resolver = r\<rparr>,
      p_workers = (\<lambda>w. Idle), p_notes = {}\<rparr>"

lemma demo_loop_turn:
  "processNextWorkItem demo_deps (p_ctrl (demo_loop down [demo_web] (new_resolver demo_start))) =
     Some (Returns True, p_ctrl (demo_loop down [] demo_started))"
  by (simp add: processNextWorkItem_def reconcileItem_def reconcile_def demo_Get
      syncStagedBindingPolicy_def demo_lister_Get demo_full_cache_def call_resolver_def demo_note
      demo_loop_def on_queue_def demo_empty_queue_def)

text \<open>The one item is processed; then the worker waits for the next or, on a queue that is shut
  down, returns.\<close>

theorem worker_run_is_pool_run_witness:
  "(pool_step demo_deps demo_view api_change)\<^sup>*\<^sup>*
     (demo_loop False [demo_web] (new_resolver demo_start)) (demo_loop False [] demo_started) \<and>
   runWorker demo_deps (p_ctrl (demo_loop False [demo_web] (new_resolver demo_start))) = None \<and>
   runWorker demo_deps (p_ctrl (demo_loop True [demo_web] (new_resolver demo_start))) =
     Some (Returns (), p_ctrl (demo_loop True [] demo_started))"
proof -
  have idle: "p_workers (demo_loop down items r) w = Idle" for down items r w
    by (simp add: demo_loop_def)
  note C = worker_run_is_pool_run [OF idle, where D = demo_deps and w = 0 and v = demo_view and
      api = api_change]
  have "(worker_step demo_deps 0 ^^ (4 * 1)) (demo_loop down [demo_web] (new_resolver demo_start))
      (demo_loop down [] demo_started)" for down
    using C [where k = 1, THEN conjunct1] demo_loop_turn [of down]
    by (simp add: demo_loop_def)
  then have steps: "(worker_step demo_deps 0)\<^sup>*\<^sup>* (demo_loop down [demo_web] (new_resolver demo_start))
      (demo_loop down [] demo_started)" for down
    by (rule relpowp_imp_rtranclp)
  have "wq_Get (queue demo_deps) (p_queue (demo_loop False [] demo_started)) = None"
    "wq_Get (queue demo_deps) (p_queue (demo_loop True [] demo_started)) =
      Some (None, p_queue (demo_loop True [] demo_started))"
    by (simp_all add: demo_Get demo_loop_def demo_empty_queue_def)
  moreover have "p_ctrl (demo_loop True [] demo_started) = (p_ctrl (demo_loop True [] demo_started))
      \<lparr>c_queue := p_queue (demo_loop True [] demo_started)\<rparr>" by simp
  ultimately have ends: "\<exists>s. (worker_step demo_deps 0)\<^sup>*\<^sup>*
        (demo_loop False [demo_web] (new_resolver demo_start)) s \<and> p_workers s 0 = Idle \<and>
        wq_Get (queue demo_deps) (p_queue s) = None"
    "\<exists>s. (worker_step demo_deps 0)\<^sup>*\<^sup>* (demo_loop True [demo_web] (new_resolver demo_start)) s \<and>
      p_workers s 0 = Idle \<and> (\<exists>q. wq_Get (queue demo_deps) (p_queue s) = Some (None, q) \<and>
        p_ctrl (demo_loop True [] demo_started) = (p_ctrl s)\<lparr>c_queue := q\<rparr>)"
    using steps idle by blast+
  show ?thesis
    using C [THEN conjunct2, THEN conjunct1, THEN iffD2, OF ends(2)]
      C [THEN conjunct2, THEN conjunct2, THEN conjunct2, THEN conjunct1, THEN iffD2, OF disjI2,
        OF ends(1)]
      C [THEN conjunct2, THEN conjunct2, THEN conjunct2, THEN conjunct2, THEN mp, OF steps]
    by (intro conjI)
qed

section \<open>The way of an event\<close>

text \<open>
  C8: No event is lost: when an informer has put an event on its queue that asks for an item,
  then before the system can settle some worker reads the cache for that item, and hands what
  it read to the resolver, also when the item is on the queue already, waits for a retry, or is
  being worked on.
\<close>

theorem no_event_is_lost:
  assumes "queue_lawful (queue D) v" and "\<not> shut v (p_queue e)" and "i \<in> asked D e"
    and "(event_step D v api tells)\<^sup>*\<^sup>* e e'" and "settled v e'"
  shows "\<exists>a b x y w f. (event_step D v api tells)\<^sup>*\<^sup>* e a \<and> reads D w i f a b \<and>
    (event_step D v api tells)\<^sup>*\<^sup>* b x \<and> acts D w i f x y \<and>
    (event_step D v api tells)\<^sup>*\<^sup>* y e'"
  by (rule owed_is_processed [OF assms(1,2) _ assms(4,5)]) (simp add: owed_def assms(3))

lemma demo_asked: "asked demo_deps (demo_system k [] r [Added (SBPObject demo_policy)] []) = {demo_web}"
  by (simp add: asked_def)

theorem no_event_is_lost_witness:
  "\<exists>w f x y. acts demo_deps w demo_web f x
     (y :: (demo_cache, demo_queue, demo_world resolver) event_crew)"
proof -
  let ?e = "demo_system demo_full_cache [] (new_resolver demo_start)
    [Added (SBPObject demo_policy)] []"
  have "\<not> shut demo_view (p_queue ?e)" by (simp add: demo_empty_queue_def)
  from no_event_is_lost [OF demo_queue_ok this _ converse_rtranclp_into_rtranclp
      [OF demo_policy_delivered demo_policy_turn] demo_system_settled, of demo_web] demo_asked
  show ?thesis by blast
qed

text \<open>
  C9: A combined status finds its way from the informer to the resolver: once its event (it is
  new, or its generation changed) is on the queue of events, then before the system can settle a
  worker takes the key the event handler made of it, splits it again, reads that very combined
  status, in its present version, and hands it to the resolver; if it is gone by then, the
  resolver is left alone.
\<close>

theorem combined_status_reaches_resolver:
  assumes "controller_lawful c D v" and "key_lawful D" and "\<not> shut v (p_queue e)"
    and "ev \<in> set (e_statuses e)"
    and "ev = Added (CombinedStatusObject cs) \<or> (\<exists>old. ev =
      Updated (CombinedStatusObject old) (CombinedStatusObject cs) \<and>
      om_generation (cs_meta old) \<noteq> om_generation (cs_meta cs))"
    and "CHR ''/'' \<notin> set (om_namespace (cs_meta cs)) \<union> set (om_name (cs_meta cs))"
    and "(event_step D v api tells)\<^sup>*\<^sup>* e e'" and "settled v e'"
  shows "\<exists>a x y. (event_step D v api tells)\<^sup>*\<^sup>* e a \<and> (event_step D v api tells)\<^sup>*\<^sup>* a x \<and>
    (event_step D v api tells)\<^sup>*\<^sup>* y e' \<and>
    (case combinedStatusLister_Get D (om_namespace (cs_meta cs)) (om_name (cs_meta cs))
        (p_cache a) of
       Inr cs' \<Rightarrow> NoteCombinedStatus c cs' (p_resolver x) = (Returns (), p_resolver y)
     | Inl err \<Rightarrow> p_resolver y = p_resolver x)"
proof -
  have R: "the_resolver D = NewResolver c" and Q: "queue_lawful (queue D) v"
    using assms(1) by (auto simp: controller_lawful_def)
  obtain key where item: "status_item D (CombinedStatusObject cs) = Some (CombinedStatusRef key)"
    and key: "SplitMetaNamespaceKey D key = Inr (om_namespace (cs_meta cs), om_name (cs_meta cs))"
    by (rule status_item_key [OF assms(2,6)])
  have "CombinedStatusRef key \<in> asked D e"
    using assms(4,5) item by (auto simp: asked_def demands_def intro!: bexI [OF _ assms(4)])
  then have "owed D v (CombinedStatusRef key) e" by (simp add: owed_def)
  from owed_is_processed [OF Q assms(3) this assms(7,8)] obtain a b x y w f where
    run: "(event_step D v api tells)\<^sup>*\<^sup>* e a" "(event_step D v api tells)\<^sup>*\<^sup>* b x"
      "(event_step D v api tells)\<^sup>*\<^sup>* y e'"
    and r: "reads D w (CombinedStatusRef key) f a b" and act: "acts D w (CombinedStatusRef key) f x y"
    by blast
  have "event_step D v api tells a b"
    using r worker_step.read [THEN crew_step.work, THEN event_step.crew, of a w _ D f v api tells]
    by (auto simp: reads_def)
  with run(2) have "(event_step D v api tells)\<^sup>*\<^sup>* a x" by (rule converse_rtranclp_into_rtranclp [rotated])
  with run(1,3) status_acted [OF R key r act] show ?thesis by blast
qed

lemma demo_key_lawful: "key_lawful demo_deps"
  unfolding key_lawful_def
proof (intro allI impI)
  fix obj m
  assume o: "as_metav1_Object obj = Returns m"
    and ns: "CHR ''/'' \<notin> set (om_namespace m) \<union> set (om_name m)"
  have no: "\<not> sublist ''/'' xs" if "CHR ''/'' \<notin> set xs" for xs
    using that by (auto simp: sublist_def)
  from ns no have "strings_Split (om_name m) ''/'' = [om_name m]"
    "strings_Split (om_namespace m @ ''/'' @ om_name m) ''/'' = [om_namespace m, om_name m]"
    using strings_Split_pair [of "''/''" "om_namespace m" "om_name m"]
    by (simp_all add: strings_Split_single_eq)
  with o show "\<exists>key. MetaNamespaceKeyFunc demo_deps obj = Inr key \<and>
      SplitMetaNamespaceKey demo_deps key = Inr (om_namespace m, om_name m)"
    by (simp add: demo_split_key)
qed

abbreviation demo_key :: work_item where
  "demo_key \<equiv> CombinedStatusRef ''cs.uid-web.stage.dev''"

lemma demo_status_delivered:
  "demo_event_step (demo_system k [] r [] [Added (CombinedStatusObject (demo_status ''dev'' True))])
     (demo_system k [demo_key] r [] [])"
proof -
  let ?ev = "Added (CombinedStatusObject (demo_status ''dev'' True))"
  let ?e = "demo_system k [] r [] [?ev]"
  have "demo_event_step ?e
      (?e\<lparr>p_ctrl := on_queue (wq_Add demo_wq demo_key) (p_ctrl ?e), e_statuses := []\<rparr>)"
    by (rule event_step.status_event [where ev = ?ev])
       (simp_all add: handler_simps demo_status_def zero_meta_def)
  moreover have "?e\<lparr>p_ctrl := on_queue (wq_Add demo_wq demo_key) (p_ctrl ?e), e_statuses := []\<rparr> =
      demo_system k [demo_key] r [] []"
    by (simp add: demo_system_def on_queue_def demo_empty_queue_def)
  ultimately show ?thesis by simp
qed

lemma demo_status_turn: "demo_event_step\<^sup>*\<^sup>*
    (demo_system demo_status_cache [demo_key] (new_resolver w) [] [])
    (demo_system demo_status_cache [] (new_resolver w) [] [])"
proof -
  let ?e = "demo_system demo_status_cache [demo_key] (new_resolver w) [] []"
  let ?c = "p_ctrl (demo_system demo_status_cache [] (new_resolver w) [] [])"
  have g: "wq_Get (queue demo_deps) (p_queue ?e) = Some (Some demo_key, demo_taken demo_key)"
    using demo_ctrl_Get [of demo_key] by (simp add: demo_ctrl_def)
  have "NoteCombinedStatus demo_clients (demo_status ''dev'' True) (new_resolver w) =
      (Returns (), new_resolver w)"
    using NoteCombinedStatus_eq [OF demo_ranges_keys, of "new_resolver w"]
    by (simp add: new_resolver_def attempt_None split: option.split)
  moreover have "find (\<lambda>cs. om_namespace (cs_meta cs) = [] \<and>
      om_name (cs_meta cs) = ''cs.uid-web.stage.dev'') (dc_statuses demo_status_cache) =
      Some (demo_status ''dev'' True)"
    by (simp add: demo_status_cache_def demo_status_def zero_meta_def)
  ultimately have "processNextWorkItem demo_deps (p_ctrl ?e) = Some (Returns True, ?c)"
    using g by (simp add: processNextWorkItem_def reconcileItem_def reconcile_def
        processCombinedStatus_def demo_status_key call_resolver_def
        demo_taken_def on_queue_def demo_empty_queue_def)
  from event_of_crew [OF crew_of_worker [OF turn_steps [OF _ this]], of 0]
  show ?thesis by (simp add: demo_system_def)
qed

definition demo_announced :: "(demo_cache, demo_queue, demo_world resolver) event_crew" where
  "demo_announced = demo_system demo_status_cache [] (new_resolver demo_start) []
     [Added (CombinedStatusObject (demo_status ''dev'' True))]"

theorem combined_status_reaches_resolver_witness:
  "\<exists>a x y. demo_event_step\<^sup>*\<^sup>* demo_announced a \<and> demo_event_step\<^sup>*\<^sup>* a x \<and>
     demo_event_step\<^sup>*\<^sup>* y (demo_system demo_status_cache [] (new_resolver demo_start) [] []) \<and>
     (case combinedStatusLister_Get demo_deps (om_namespace (cs_meta (demo_status ''dev'' True)))
         (om_name (cs_meta (demo_status ''dev'' True))) (p_cache a) of
        Inr cs' \<Rightarrow> NoteCombinedStatus demo_clients cs' (p_resolver x) = (Returns (), p_resolver y)
      | Inl err \<Rightarrow> p_resolver y = p_resolver x)"
proof (rule combined_status_reaches_resolver [OF demo_controller_lawful demo_key_lawful])
  show "\<not> shut demo_view (p_queue demo_announced)"
    by (simp add: demo_announced_def demo_empty_queue_def)
  show "Added (CombinedStatusObject (demo_status ''dev'' True)) \<in> set (e_statuses demo_announced)"
    by (simp add: demo_announced_def)
  show "demo_event_step\<^sup>*\<^sup>* demo_announced
      (demo_system demo_status_cache [] (new_resolver demo_start) [] [])"
    unfolding demo_announced_def
    by (rule converse_rtranclp_into_rtranclp [OF demo_status_delivered demo_status_turn])
qed (simp_all add: demo_system_settled demo_status_def zero_meta_def)

text \<open>
  C14: A policy that is deleted and made again while the watch is interrupted is missed: the
  informer reports one update from the old policy to the new one, both of which have the same
  generation, so the handler asks for nothing and the system settles with the UID and stages of
  the policy that no longer exists.
\<close>

theorem recreated_policy_is_missed:
  assumes "settled v e" and "policy_at D (p_cache e) n = Some (SBPObject old)"
    and "tracked_contents (p_resolver e) n = Some (policy_content old)"
    and "policy_at D k = (policy_at D (p_cache e))(n \<mapsto> SBPObject new)"
    and "binding_at D k = binding_at D (p_cache e)" "status_at D k = status_at D (p_cache e)"
    and "om_generation (sbp_meta old) = om_generation (sbp_meta new)"
    and "policy_content new \<noteq> policy_content old"
  shows "\<exists>e'. (event_step D v api (\<lambda>_. True))\<^sup>*\<^sup>* e e' \<and> settled v e' \<and>
    p_resolver e' = p_resolver e \<and> cached_content D (p_cache e') n = Some (policy_content new) \<and>
    tracked_contents (p_resolver e') n \<noteq> cached_content D (p_cache e') n"
proof -
  let ?e = "e\<lparr>p_ctrl := (p_ctrl e)\<lparr>c_cache := k\<rparr>\<rparr>"
  have "cached_content D k n = Some (policy_content new)"
    by (simp add: cached_content_at assms(4))
  with silent_update [OF assms(1,2,4-7)] assms(3,8) show ?thesis by (intro exI [of _ ?e]) simp
qed

definition demo_recreated :: staged_binding_policy where
  "demo_recreated = demo_policy\<lparr>sbp_meta := (sbp_meta demo_policy)\<lparr>om_uid := ''uid-of-another''\<rparr>\<rparr>"

theorem recreated_policy_is_missed_witness:
  "\<exists>e'. (event_step demo_deps demo_view api_change (\<lambda>_. True))\<^sup>*\<^sup>*
      (demo_system demo_full_cache [] demo_started [] []) e' \<and> settled demo_view e' \<and>
    tracked_contents (p_resolver e') ''web'' = Some (policy_content demo_policy)"
proof -
  let ?e = "demo_system demo_full_cache [] demo_started [] []"
  let ?k = "demo_full_cache\<lparr>dc_policies := [demo_recreated]\<rparr>"
  have uid: "sbp_uid demo_policy \<noteq> ''uid-of-another''" by (simp add: demo_policy_def demo_sbp_def zero_meta_def)
  have old: "policy_at demo_deps (p_cache ?e) ''web'' = Some (SBPObject demo_policy)"
    by (simp add: demo_policy_at demo_full_cache_def)
  have tr: "tracked_contents (p_resolver ?e) ''web'' = Some (policy_content demo_policy)"
    by (simp add: tracked_contents_def demo_started_def entry_content_def policy_content_def)
  have new: "policy_at demo_deps ?k =
      (policy_at demo_deps (p_cache ?e))(''web'' \<mapsto> SBPObject demo_recreated)"
    by (simp add: fun_eq_iff demo_policy_at demo_full_cache_def demo_recreated_def)
  have other: "binding_at demo_deps ?k = binding_at demo_deps (p_cache ?e)"
    "status_at demo_deps ?k = status_at demo_deps (p_cache ?e)"
    by (rule demo_other_at; simp)+
  have gen: "om_generation (sbp_meta demo_policy) = om_generation (sbp_meta demo_recreated)"
    and ne: "policy_content demo_recreated \<noteq> policy_content demo_policy"
    using uid by (auto simp: demo_recreated_def policy_content_def)
  from recreated_policy_is_missed [OF demo_system_settled old tr new other gen ne,
      where api = api_change] obtain e' where
    "(event_step demo_deps demo_view api_change (\<lambda>_. True))\<^sup>*\<^sup>* ?e e'" "settled demo_view e'"
    "p_resolver e' = p_resolver ?e" by blast
  with tr show ?thesis by (intro exI [of _ e']) simp
qed

section \<open>Rollouts in the composed system\<close>

text \<open>
  C3: In every state the composed system reaches, whatever the interleaving of informers, handlers
  and workers, at most one stage of a tracked policy is deployed, as long as policies are noted
  in step with what is deployed at that moment and the other actors only remove BindingPolicies
  of stages.
\<close>

theorem system_deploys_one_stage:
  assumes "the_resolver D = NewResolver c" and "api_lawful c dep" and "ranges_keys c"
    and "fresh_resolver (p_resolver e0)" and "(managed_event_step D v dep tells)\<^sup>*\<^sup>* e0 e"
    and "stagedBindingPolicies (p_resolver e) n = Some d"
  shows "placed dep (world (p_resolver e)) n d \<subseteq> {d_activeIndex d} \<or>
    placed dep (world (p_resolver e)) n d \<subseteq> {Suc (d_activeIndex d)}"
proof -
  have "single_placement dep (p_resolver e)"
    using managed.reachable_inv [OF _ managed_system_run [OF assms(1,5)]] assms(2-4)
    by (auto simp: fresh_resolver_def)
  from single_placementD(2) [OF this assms(6)] assms(6) show ?thesis
    by (simp add: rollout_abs_def)
qed

lemma demo_fresh:
  "fresh_resolver (p_resolver (demo_system demo_no_cache [] (new_resolver demo_start) [] []))"
  by (simp add: fresh_resolver_def new_resolver_def)

theorem system_deploys_one_stage_witness:
  "\<exists>r :: demo_world resolver. stagedBindingPolicies r ''web'' = Some (demo_data [demo_dev, demo_prod] 1) \<and>
     (placed demo_deployed (world r) ''web'' (demo_data [demo_dev, demo_prod] 1) \<subseteq> {1} \<or>
      placed demo_deployed (world r) ''web'' (demo_data [demo_dev, demo_prod] 1) \<subseteq> {2})"
proof -
  obtain r where step: "demo_managed_step demo_about (demo_moved r)"
    and d: "stagedBindingPolicies r ''web'' = Some (demo_data [demo_dev, demo_prod] 1)"
    by (rule demo_moves)
  have "stagedBindingPolicies (p_resolver (demo_moved r)) ''web'' =
      Some (demo_data [demo_dev, demo_prod] 1)" by (simp add: d)
  from system_deploys_one_stage [OF demo_deps_sel(2) demo_api_lawful demo_ranges_keys demo_fresh
      rtranclp.rtrancl_into_rtrancl [OF demo_about_run step] this] d
  show ?thesis by (intro exI [of _ r]) (simp add: numeral_2_eq_2)
qed

text \<open>
  C4: Whenever a step of the composed system changes the active stage of a policy that is tracked
  before and after it, then a worker noted that very policy again, or it noted the Binding of
  the policy's active BindingPolicy (matched by UID) or a combined status of the policy; then
  the stage was fulfilled in that moment (on the Binding's new workload), the policy moved on
  by exactly one stage, and the whole deployment of the next stage went through.
\<close>

theorem system_moves_on_when_fulfilled:
  assumes "the_resolver D = NewResolver c" and "ranges_keys c" and "ranges_objs c"
    and "fresh_resolver (p_resolver e0)" and "(event_step D v api_change tells)\<^sup>*\<^sup>* e0 e"
    and "event_step D v api_change tells e e'"
    and "stagedBindingPolicies (p_resolver e) n = Some d"
    and "stagedBindingPolicies (p_resolver e') n = Some d'"
    and "d_activeIndex d' \<noteq> d_activeIndex d"
  shows "\<exists>w i f. acts D w i f e e' \<and>
    ((\<exists>sbp. f = FetchedPolicy sbp \<and> sbp_name sbp = n) \<or>
     d_activeIndex d' = Suc (d_activeIndex d) \<and>
     ((\<exists>b. f = FetchedBinding b \<and> associatedName (om_name (b_meta b)) = Some n \<and>
         d_activeBindingPolicyUID d = ownerUID b \<and>
         moves_on c n (d\<lparr>d_bindingSpec := b_spec b\<rparr>)
           (update_entry n (\<lambda>d. d\<lparr>d_bindingSpec := b_spec b\<rparr>) (p_resolver e)) (p_resolver e')) \<or>
      (\<exists>cs. f = FetchedStatus cs \<and> associatedName (bindingPolicyLabel cs) = Some n \<and>
         moves_on c n d (p_resolver e) (p_resolver e'))))"
proof -
  have fin: "finite (dom (stagedBindingPolicies (p_resolver e)))"
    using system_tracked_ok [OF assms(1,4,5)] by (simp add: tracked_ok_def)
  obtain w i f where act: "acts D w i f e e'"
    and call: "resolver_call c f (p_resolver e) (p_resolver e')"
    by (rule step_moves_on [OF assms(1,6-9)])
  show ?thesis
    by (rule exI [of _ w], rule exI [of _ i], rule exI [of _ f], rule conjI [OF act])
       (rule call_moves_on [OF assms(2,3) fin call assms(7-9)])
qed

theorem system_moves_on_when_fulfilled_witness:
  "\<exists>(r :: demo_world resolver) d.
     stagedBindingPolicies r ''web'' = Some (demo_data [demo_dev, demo_prod] 1) \<and>
     moves_on demo_clients ''web'' (d\<lparr>d_bindingSpec := demo_workload\<rparr>)
       (update_entry ''web'' (\<lambda>d. d\<lparr>d_bindingSpec := demo_workload\<rparr>) demo_observed) r"
proof -
  obtain r where step: "demo_managed_step demo_about (demo_moved r)"
    and d': "stagedBindingPolicies r ''web'' = Some (demo_data [demo_dev, demo_prod] 1)"
    by (rule demo_moves)
  let ?d = "(newPolicyData demo_policy)\<lparr>d_activeBindingPolicyUID := ''uid-web.stage.dev''\<rparr>"
  have "d_activeIndex (?d\<lparr>d_bindingSpec := demo_workload\<rparr>) = 0"
    unfolding demo_data_eq by simp
  then have ne: "d_activeIndex (demo_data [demo_dev, demo_prod] 1) \<noteq> d_activeIndex ?d" by simp
  have d: "stagedBindingPolicies (p_resolver demo_about) ''web'' = Some ?d"
    by (simp add: demo_observed_def demo_started_def)
  have d'': "stagedBindingPolicies (p_resolver (demo_moved r)) ''web'' =
      Some (demo_data [demo_dev, demo_prod] 1)" by (simp add: d')
  from system_moves_on_when_fulfilled [OF demo_deps_sel(2) demo_ranges_keys demo_ranges_objs
      demo_fresh managed_run [OF demo_about_run] managed_event [OF step] d d'' ne]
  have "moves_on demo_clients ''web'' (?d\<lparr>d_bindingSpec := b_spec demo_binding\<rparr>)
      (update_entry ''web'' (\<lambda>d. d\<lparr>d_bindingSpec := b_spec demo_binding\<rparr>) (p_resolver demo_about))
      (p_resolver (demo_moved r))"
    by (elim exE conjE disjE) (drule demo_about_worker; simp)+
  with d' show ?thesis by (intro exI [of _ r] exI [of _ ?d]) simp
qed

section \<open>The process\<close>

text \<open>
  When the queue shuts down in any state the pool reaches, its workers stop: each step of any
  of them, in whatever order, takes exactly one off a number of steps that is fixed by what is
  on the queue and in their hands (four for each item, one for each worker to stop), so a run
  is no longer than that; and when no worker can go on, then either a call of the resolver
  panics, or all workers have stopped and the queue is worked off, failed items unretried.
\<close>

lemma pool_drains_on_shutdown:
  assumes "controller_lawful c D v" and "pool_init D v fresh_resolver p0"
    and "(pool_step D v api_change)\<^sup>*\<^sup>* p0 p" and "finite (pend v (p_queue p))"
    and "finite W" and "W \<noteq> {}" and "\<forall>w. w \<notin> W \<longrightarrow> p_workers p w = Idle"
    and "shuts_down v (p_queue p) q" and "(closing_step D W ^^ k) (closing_of p q) s"
  shows "k + closing_steps v W s = closing_steps v W (closing_of p q) \<and>
    ((\<nexists>s'. closing_step D W s s') \<longrightarrow>
       panicking D s \<or>
       d_stopped s = W \<and> pend v (p_queue s) = {} \<and> busy v (p_queue s) = {})"
proof -
  have Q: "queue_lawful (queue D) v" and I: "index_lawful D"
    using assms(1) by (auto simp: controller_lawful_def)
  have "consistent D v tracked_contents p"
    using worker_pool.reachable_inv [OF _ assms(3), of c] assms(1,2) by blast
  from closing_of_ok [OF consistentD(2) [OF this] assms(8,5,6,4)] assms(7)
  have "closing_ok v W (closing_of p q)" by blast
  from closing_run_count [OF Q this assms(9)] closing_end [OF Q I] show ?thesis by blast
qed

text \<open>
  C22: The whole process, from the start of \<open>run\<close>. Until the queue is shut down, a run of it is a run
  of the composed system, so what holds of that holds of the process. Once it is shut down, the
  steps of the workers are bounded by what is left (four for each item, one for each worker to
  end), whatever informers, handlers and others do; and where no worker can go on, either a call
  of the resolver panics, or all \<open>n\<close> workers have ended, none has an item in hand, and the queue
  is worked off, unless the context was done before any of them began.
\<close>

theorem process_runs_and_stops:
  assumes "controller_lawful c D v" and "process_init D v sinit p0"
    and "labelled_run (process_step D v api tells cancellable n) p0 ls0 p"
  shows "(\<not> rs_queueShutDown (ps_run p) \<longrightarrow>
      (event_step D v api tells)\<^sup>*\<^sup>* (ps_crew p0) (ps_crew p)) \<and>
    (rs_queueShutDown (ps_run p) \<longrightarrow>
      (\<forall>ls p'. labelled_run (process_step D v api tells cancellable n) p ls p' \<longrightarrow>
        length (filter (\<lambda>l. l) ls) + process_left v p' \<le> process_left v p \<and>
        ((\<nexists>s. process_step D v api tells cancellable n True p' s) \<longrightarrow>
           panicking D (ps_crew p') \<or>
           ps_stopped p' = {..<nat n} \<and> busy v (ps_queue p') = {} \<and>
           (ps_begun p' \<noteq> {} \<longrightarrow> pend v (ps_queue p') = {}))))"
proof -
  have Q: "queue_lawful (queue D) v" and I: "index_lawful D"
    using assms(1) by (auto simp: controller_lawful_def)
  have inv: "process_inv v cancellable n p" by (rule process_run_inv [OF Q assms(2,3)])
  have "length (filter (\<lambda>l. l) ls) + process_left v p' \<le> process_left v p \<and>
      ((\<nexists>s. process_step D v api tells cancellable n True p' s) \<longrightarrow>
         panicking D (ps_crew p') \<or>
         ps_stopped p' = {..<nat n} \<and> busy v (ps_queue p') = {} \<and>
         (ps_begun p' \<noteq> {} \<longrightarrow> pend v (ps_queue p') = {}))"
    if "rs_queueShutDown (ps_run p)"
      and run: "labelled_run (process_step D v api tells cancellable n) p ls p'" for ls p'
  proof -
    have "closing_process v cancellable n p" using inv that(1) by (simp add: closing_process_def)
    from closing_process_run [OF Q this run] closing_process_stuck [OF Q I] show ?thesis by blast
  qed
  then show ?thesis
    using process_run_system [OF Q assms(3) process_init_inv [OF assms(2)]] by blast
qed

text \<open>One worker is spawned and begins; the context is cancelled, and the worker ends.\<close>

definition demo_process ::
  "run_state \<Rightarrow> bool \<Rightarrow> nat set \<Rightarrow> nat set \<Rightarrow>
   (demo_cache, demo_queue, demo_world resolver) process" where
  "demo_process rs down begun gone = \<lparr>ps_run = rs,
     ps_crew = demo_at demo_no_cache (demo_empty_queue\<lparr>dq_shut := down\<rparr>) Idle []
       (new_resolver demo_start),
     ps_begun = begun, ps_stopped = gone\<rparr>"

definition demo_rs :: "run_pc \<Rightarrow> bool \<Rightarrow> bool \<Rightarrow> run_state" where
  "demo_rs pc ctx down = \<lparr>rs_pc = pc, rs_spawned = 1, rs_initialized = (pc \<noteq> Spawning 1),
     rs_ctxDone = ctx, rs_queueShutDown = down, rs_errChan = [], rs_started = None\<rparr>"

abbreviation demo_process_step where
  "demo_process_step \<equiv> process_step demo_deps demo_view api_change generation_tells True 1"

lemma demo_process_run_step:
  assumes "run_step True 1 rs rs'" and "rs_queueShutDown rs' = rs_queueShutDown rs"
  shows "demo_process_step False (demo_process rs down b s) (demo_process rs' down b s)"
  using process_step.run [of True 1 "demo_process rs down b s" rs'] assms
  by (simp add: demo_process_def)

lemma demo_run_steps:
  "run_step True 1 run_init (demo_rs (Spawning 1) False False)"
  "run_step True 1 (demo_rs (Spawning 1) False False) (demo_rs AwaitDone False False)"
  "run_step True 1 (demo_rs AwaitDone False False) (demo_rs AwaitDone True False)"
  "run_step True 1 (demo_rs AwaitDone True False) (demo_rs (RunReturned None) True True)"
  using run_step.spawn [of run_init 0 1 True]
    run_step.spawned [of "demo_rs (Spawning 1) False False" 1 1 True]
    run_step.cancel [of True 1 "demo_rs AwaitDone False False"]
    run_step.stop [of "demo_rs AwaitDone True False" True 1]
  by (simp_all add: run_init_def demo_rs_def)

lemma demo_process_begin:
  "demo_process_step True (demo_process (demo_rs pc False False) down {} {})
     (demo_process (demo_rs pc False False) down {0} {})"
  using process_step.begin_work [of 0 "demo_process (demo_rs pc False False) down {} {}"]
  by (simp add: demo_process_def demo_rs_def)

lemma demo_process_shut:
  "demo_process_step False (demo_process (demo_rs AwaitDone True False) False b s)
     (demo_process (demo_rs (RunReturned None) True True) True b s)"
proof -
  let ?p = "demo_process (demo_rs AwaitDone True False) False b s"
  have "shuts_down demo_view (ps_queue ?p) (demo_empty_queue\<lparr>dq_shut := True\<rparr>)"
    by (simp add: shuts_down_def demo_process_def demo_empty_queue_def)
  from process_step.shut_down [OF _ _ _ this, of True 1 "demo_rs (RunReturned None) True True"]
    demo_run_steps(4) show ?thesis
    by (simp add: demo_process_def demo_at_def) (simp add: demo_rs_def)
qed

lemma demo_process_leave:
  "demo_process_step True (demo_process (demo_rs pc True True) True {0} {})
     (demo_process (demo_rs pc True True) True {0} {0})"
  using process_step.leave [of 0 "demo_process (demo_rs pc True True) True {0} {}" demo_deps
      "demo_empty_queue\<lparr>dq_shut := True\<rparr>"]
  by (simp add: demo_process_def demo_rs_def demo_at_def demo_Get demo_empty_queue_def)

lemma demo_process_run:
  "labelled_run demo_process_step (demo_process run_init False {} {})
     [False, True, False, False, False]
     (demo_process (demo_rs (RunReturned None) True True) True {0} {})"
proof -
  note more = labelled_run.more [where step = demo_process_step]
    and rs = demo_process_run_step
  have "rs_queueShutDown (demo_rs pc ctx False) = rs_queueShutDown run_init" for pc ctx
    by (simp add: demo_rs_def run_init_def)
  then have 1: "demo_process_step False (demo_process run_init False {} {})
      (demo_process (demo_rs (Spawning 1) False False) False {} {})"
    by (rule rs [OF demo_run_steps(1)])
  have 3: "demo_process_step False (demo_process (demo_rs (Spawning 1) False False) False {0} {})
      (demo_process (demo_rs AwaitDone False False) False {0} {})"
    by (rule rs [OF demo_run_steps(2)]) (simp add: demo_rs_def)
  have 4: "demo_process_step False (demo_process (demo_rs AwaitDone False False) False {0} {})
      (demo_process (demo_rs AwaitDone True False) False {0} {})"
    by (rule rs [OF demo_run_steps(3)]) (simp add: demo_rs_def)
  from more [OF more [OF more [OF more [OF more [OF labelled_run.start 1] demo_process_begin] 3] 4]
      demo_process_shut] show ?thesis by simp
qed

lemma demo_process_init:
  "process_init demo_deps demo_view fresh_resolver (demo_process run_init False {} {})"
proof -
  have "demo_empty_queue\<lparr>dq_shut := False\<rparr> = demo_empty_queue\<lparr>dq_items := []\<rparr>"
    by (simp add: demo_empty_queue_def)
  with demo_system_init show ?thesis
    by (simp add: process_init_def demo_process_def demo_system_at)
qed

theorem process_runs_and_stops_witness:
  "process_left demo_view (demo_process (demo_rs (RunReturned None) True True) True {0} {0}) = 0 \<and>
   pend demo_view (ps_queue (demo_process (demo_rs (RunReturned None) True True) True {0} {0})) = {}"
proof -
  let ?p = "demo_process (demo_rs (RunReturned None) True True) True {0} {}"
  let ?q = "demo_process (demo_rs (RunReturned None) True True) True {0} {0}"
  have run: "labelled_run demo_process_step ?p [True] ?q"
    using labelled_run.more [where step = demo_process_step, OF labelled_run.start
        demo_process_leave] by simp
  have down: "rs_queueShutDown (ps_run ?p)" by (simp add: demo_process_def demo_rs_def)
  have left: "process_left demo_view ?p = 1"
    by (simp add: process_left_def work_left_def demo_process_def demo_rs_def demo_empty_queue_def)
  have stuck: "\<nexists>s. demo_process_step True ?q s"
    by (auto elim!: process_step.cases simp: demo_process_def demo_rs_def)
  have np: "\<not> panicking demo_deps (ps_crew ?q)" by (simp add: panicking_def demo_process_def)
  have begun: "ps_begun ?q \<noteq> {}" by (simp add: demo_process_def)
  from process_runs_and_stops [OF demo_controller_lawful demo_process_init demo_process_run]
    down run have "length (filter (\<lambda>l. l) [True]) + process_left demo_view ?q \<le>
      process_left demo_view ?p \<and> ((\<nexists>s. demo_process_step True ?q s) \<longrightarrow>
        panicking demo_deps (ps_crew ?q) \<or> ps_stopped ?q = {..<nat 1} \<and>
        busy demo_view (ps_queue ?q) = {} \<and>
        (ps_begun ?q \<noteq> {} \<longrightarrow> pend demo_view (ps_queue ?q) = {}))"
    by blast
  with left stuck np begun show ?thesis by simp
qed

end
