(* ===== verification/Fake_Client.thy ===== *)
theory Fake_Client
  imports Typed_Client Informer_Factory
begin

text \<open>
  The generated test doubles
  (\<open>typed/community/v1alpha1/fake\<close> and \<open>clientset/versioned/fake\<close>) and the registration of the
  API types. What \<open>client-go/testing\<close> does with an action, and its object tracker, are
  parameters; the world \<open>'w\<close> holds the tracker's objects.
\<close>

section \<open>Actions\<close>

text \<open>The values \<open>testing.NewRoot...Action\<close> make; a patch or update may name a subresource.\<close>

type_synonym group_version_kind = "group_version \<times> string"

datatype action =
    GetAction group_version_resource string
  | ListAction group_version_resource group_version_kind list_options
  | WatchAction group_version_resource list_options
  | CreateAction group_version_resource staged_binding_policy
  | UpdateAction group_version_resource string staged_binding_policy
  | DeleteAction group_version_resource string go_any
  | DeleteCollectionAction group_version_resource list_options
  | PatchAction group_version_resource string string string "string list"

text \<open>An object the fake gives back: a policy, a list with its ListMeta \<open>'lm\<close>, or another.\<close>

datatype 'lm fake_object =
    FakePolicy staged_binding_policy
  | FakePolicyList 'lm "staged_binding_policy list"
  | FakeOther

record ('sel, 'lm, 'wt, 'w) fake =
  Invokes :: "action \<Rightarrow> 'lm fake_object \<Rightarrow> 'w \<Rightarrow> ('lm fake_object option \<times> go_error option) \<times> 'w"
  InvokesWatch :: "action \<Rightarrow> 'w \<Rightarrow> ('wt option \<times> go_error option) \<times> 'w"
  ExtractLabel :: "list_options \<Rightarrow> 'sel option"
  labels_Everything :: 'sel
  label_Matches :: "'sel \<Rightarrow> (string \<rightharpoonup> string) \<Rightarrow> bool"
  zero_ListMeta :: 'lm

definition stagedbindingpoliciesResource :: group_version_resource where
  "stagedbindingpoliciesResource = (SchemeGroupVersion, ''stagedbindingpolicies'')"

definition stagedbindingpoliciesKind :: group_version_kind where
  "stagedbindingpoliciesKind = (SchemeGroupVersion, ''StagedBindingPolicy'')"

text \<open>\<open>&v1alpha1.StagedBindingPolicy{}\<close> and the empty list.\<close>

definition zero_policy :: staged_binding_policy where
  "zero_policy = \<lparr>sbp_typeMeta = \<lparr>tm_kind = [], tm_apiVersion = []\<rparr>,
     sbp_meta = \<lparr>om_name = [], om_namespace = [], om_uid = [], om_generation = 0,
       om_resourceVersion = [], om_labels = Map.empty, om_ownerReferences = [],
       om_deletionTimestamp = None\<rparr>,
     sbp_spec = \<lparr>spec_downsync = [], spec_stages = []\<rparr>,
     sbp_status = \<lparr>status_activeStage = []\<rparr>\<rparr>"

abbreviation zero_list :: "('sel, 'lm, 'wt, 'w) fake \<Rightarrow> 'lm fake_object" where
  "zero_list F \<equiv> FakePolicyList (zero_ListMeta F) []"

section \<open>The fake client of StagedBindingPolicies\<close>

text \<open>\<open>obj.(*v1alpha1.StagedBindingPolicy)\<close> and \<open>obj.(*v1alpha1.StagedBindingPolicyList)\<close>.\<close>

fun as_fake_policy :: "'lm fake_object \<Rightarrow> staged_binding_policy outcome" where
  "as_fake_policy (FakePolicy sbp) = Returns sbp"
| "as_fake_policy _ = Panics TypeAssertion"

fun as_fake_list :: "'lm fake_object \<Rightarrow> ('lm \<times> staged_binding_policy list) outcome" where
  "as_fake_list (FakePolicyList lm items) = Returns (lm, items)"
| "as_fake_list _ = Panics TypeAssertion"

text \<open>\<open>if obj == nil { return nil, err }; return obj.(*T), err\<close>\<close>

definition policy_result ::
  "('lm fake_object option \<times> go_error option) \<times> 'w \<Rightarrow>
   (staged_binding_policy option \<times> go_error option) outcome \<times> 'w" where
  "policy_result res =
     (case res of ((obj, err), w) \<Rightarrow>
        (case obj of
           None \<Rightarrow> (Returns (None, err), w)
         | Some x \<Rightarrow> (out_bind (as_fake_policy x) (\<lambda>sbp. Returns (Some sbp, err)), w)))"

definition fake_Get where
  "fake_Get F name (options :: go_any) w =
     policy_result
       (Invokes F (GetAction stagedbindingpoliciesResource name) (FakePolicy zero_policy) w)"

fun append_matching ::
  "(staged_binding_policy \<Rightarrow> bool) \<Rightarrow> staged_binding_policy list \<Rightarrow> staged_binding_policy list \<Rightarrow>
   staged_binding_policy list" where
  "append_matching P [] out = out"
| "append_matching P (item # items) out =
     append_matching P items (if P item then out @ [item] else out)"

definition fake_List ::
  "('sel, 'lm, 'wt, 'w) fake \<Rightarrow> list_options \<Rightarrow> 'w \<Rightarrow>
   (('lm \<times> staged_binding_policy list) option \<times> go_error option) outcome \<times> 'w" where
  "fake_List F opts w =
     (case Invokes F (ListAction stagedbindingpoliciesResource stagedbindingpoliciesKind opts)
             (zero_list F) w of
        ((None, err), w') \<Rightarrow> (Returns (None, err), w')
      | ((Some obj, err), w') \<Rightarrow>
          (let label = (case ExtractLabel F opts of
                 None \<Rightarrow> labels_Everything F | Some label \<Rightarrow> label) in
           (out_bind (as_fake_list obj) (\<lambda>(lm, items).
              Returns (Some (lm, append_matching
                (\<lambda>item. label_Matches F label (om_labels (sbp_meta item))) items []), err)), w')))"

definition fake_Watch where
  "fake_Watch F opts w = InvokesWatch F (WatchAction stagedbindingpoliciesResource opts) w"

definition fake_Create where
  "fake_Create F sbp (opts :: go_any) w =
     policy_result
       (Invokes F (CreateAction stagedbindingpoliciesResource sbp) (FakePolicy zero_policy) w)"

definition fake_Update where
  "fake_Update F sbp (opts :: go_any) w =
     policy_result
       (Invokes F (UpdateAction stagedbindingpoliciesResource [] sbp) (FakePolicy zero_policy) w)"

definition fake_UpdateStatus where
  "fake_UpdateStatus F sbp (opts :: go_any) w =
     policy_result
       (Invokes F (UpdateAction stagedbindingpoliciesResource ''status'' sbp)
          (FakePolicy zero_policy) w)"

definition fake_Delete ::
  "('sel, 'lm, 'wt, 'w) fake \<Rightarrow> string \<Rightarrow> go_any \<Rightarrow> 'w \<Rightarrow> go_error option \<times> 'w" where
  "fake_Delete F name opts w =
     (case Invokes F (DeleteAction stagedbindingpoliciesResource name opts)
             (FakePolicy zero_policy) w of ((_, err), w') \<Rightarrow> (err, w'))"

definition fake_DeleteCollection ::
  "('sel, 'lm, 'wt, 'w) fake \<Rightarrow> go_any \<Rightarrow> list_options \<Rightarrow> 'w \<Rightarrow> go_error option \<times> 'w" where
  "fake_DeleteCollection F opts listOpts w =
     (case Invokes F (DeleteCollectionAction stagedbindingpoliciesResource listOpts)
             (zero_list F) w of ((_, err), w') \<Rightarrow> (err, w'))"

definition fake_Patch where
  "fake_Patch F name pt data (opts :: go_any) subresources w =
     policy_result
       (Invokes F (PatchAction stagedbindingpoliciesResource name pt data subresources)
          (FakePolicy zero_policy) w)"

lemma append_matching_filter: "append_matching P items out = out @ filter P items"
  by (induction items arbitrary: out) auto

text \<open>The fake filters the list by itself, in order; the server does it for the real client.\<close>

lemma fake_List_filters:
  assumes "Invokes F (ListAction stagedbindingpoliciesResource stagedbindingpoliciesKind opts)
      (zero_list F) w = ((Some (FakePolicyList lm items), err), w')"
  shows "fake_List F opts w = (Returns (Some (lm, filter
    (\<lambda>item. label_Matches F (case ExtractLabel F opts of None \<Rightarrow> labels_Everything F | Some l \<Rightarrow> l)
      (om_labels (sbp_meta item))) items), err), w')"
  using assms by (simp add: fake_List_def append_matching_filter)

section \<open>Both clients ask for the same\<close>

text \<open>
  What is asked for: verb, resource, subresources, and the name of the policy, if there is
  one. A watch is told from a list by an option, a collection's deletion by the missing name.
\<close>

type_synonym asked = "string \<times> string \<times> string list \<times> string option"

fun name_of :: "request \<Rightarrow> string option" where
  "name_of [] = None"
| "name_of (NameCall n # r) = Some n"
| "name_of (_ # r) = name_of r"

fun resource_of :: "request \<Rightarrow> string" where
  "resource_of [] = []"
| "resource_of (ResourceCall n # r) = n"
| "resource_of (_ # r) = resource_of r"

fun subresources_of :: "request \<Rightarrow> string list" where
  "subresources_of [] = []"
| "subresources_of (SubResource ss # r) = ss"
| "subresources_of (_ # r) = subresources_of r"

fun watches :: "request \<Rightarrow> bool" where
  "watches [] = False"
| "watches (VersionedParams (ListParams opts) # r) = lo_Watch opts"
| "watches (_ # r) = watches r"

fun verb_of :: "request \<Rightarrow> string" where
  "verb_of (Get # r) =
     (if name_of r \<noteq> None then ''get'' else if watches r then ''watch'' else ''list'')"
| "verb_of (Post # r) = ''create''"
| "verb_of (Put # r) = ''update''"
| "verb_of (Delete # r) = (if name_of r = None then ''deletecollection'' else ''delete'')"
| "verb_of (Patch pt # r) = ''patch''"
| "verb_of _ = []"

definition request_asks :: "request \<Rightarrow> asked" where
  "request_asks r = (verb_of r, resource_of r, subresources_of r, name_of r)"

fun action_asks :: "action \<Rightarrow> asked" where
  "action_asks (GetAction gvr n) = (''get'', snd gvr, [], Some n)"
| "action_asks (ListAction gvr k opts) = (''list'', snd gvr, [], None)"
| "action_asks (WatchAction gvr opts) = (''watch'', snd gvr, [], None)"
| "action_asks (CreateAction gvr sbp) = (''create'', snd gvr, [], None)"
| "action_asks (UpdateAction gvr sub sbp) =
     (''update'', snd gvr, if sub = [] then [] else [sub], Some (sbp_name sbp))"
| "action_asks (DeleteAction gvr n opts) = (''delete'', snd gvr, [], Some n)"
| "action_asks (DeleteCollectionAction gvr opts) = (''deletecollection'', snd gvr, [], None)"
| "action_asks (PatchAction gvr n pt data subs) = (''patch'', snd gvr, subs, Some n)"

text \<open>A fake and a REST client that write down what they are asked and then fail.\<close>

definition noting_fake :: "(unit, unit, unit, asked list) fake" where
  "noting_fake = \<lparr>Invokes = (\<lambda>a d w. ((None, None), w @ [action_asks a])),
     InvokesWatch = (\<lambda>a w. ((None, None), w @ [action_asks a])),
     ExtractLabel = (\<lambda>_. None), labels_Everything = (), label_Matches = (\<lambda>_ _. True),
     zero_ListMeta = ()\<rparr>"

definition noting_rest :: "(unit, asked list) rest_client" where
  "noting_rest = \<lparr>Do_Into = (\<lambda>r w. (Inl (LibError ''none''), w @ [request_asks r])),
     Do_IntoList = (\<lambda>r w. (Inl (LibError ''none''), w @ [request_asks r])),
     Do_Error = (\<lambda>r w. (None, w @ [request_asks r])),
     Do_Watch = (\<lambda>r w. (Inl (LibError ''none''), w @ [request_asks r]))\<rparr>"

lemmas fake_client_defs = fake_Get_def fake_List_def fake_Watch_def fake_Create_def fake_Update_def
  fake_UpdateStatus_def fake_Delete_def fake_DeleteCollection_def fake_Patch_def
  policy_result_def stagedbindingpoliciesResource_def noting_fake_def

lemmas real_client_defs = sbp_client_Get_def sbp_client_List_def sbp_client_Watch_def
  sbp_client_Create_def sbp_client_Update_def sbp_client_UpdateStatus_def sbp_client_Delete_def
  sbp_client_DeleteCollection_def sbp_client_Patch_def noting_rest_def request_asks_def

lemma clients_ask_the_same:
  "snd (fake_Get noting_fake n o1 w) = snd (sbp_client_Get noting_rest n o1 w)"
  "\<not> lo_Watch lo \<Longrightarrow> snd (fake_List noting_fake lo w) = snd (sbp_client_List noting_rest lo w)"
  "snd (fake_Watch noting_fake lo w) = snd (sbp_client_Watch noting_rest lo w)"
  "snd (fake_Create noting_fake sbp o1 w) = snd (sbp_client_Create noting_rest sbp o1 w)"
  "snd (fake_Update noting_fake sbp o1 w) = snd (sbp_client_Update noting_rest sbp o1 w)"
  "snd (fake_UpdateStatus noting_fake sbp o1 w) = snd (sbp_client_UpdateStatus noting_rest sbp o1 w)"
  "snd (fake_Delete noting_fake n o1 w) = snd (sbp_client_Delete noting_rest n o1 w)"
  "snd (fake_DeleteCollection noting_fake o1 lo w) =
     snd (sbp_client_DeleteCollection noting_rest o1 lo w)"
  "snd (fake_Patch noting_fake n pt data o1 subs w) =
     snd (sbp_client_Patch noting_rest n pt data o1 subs w)"
  by (simp_all add: fake_client_defs real_client_defs)

section \<open>The fake clientset\<close>

text \<open>
  The discovery and group clients of a clientset hold a pointer to the \<open>testing.Fake\<close> embedded
  in it; \<open>EmbeddedFake\<close> is that pointer. It is followed when a client is used, so the reactors
  added after the discovery client was made count for it as well.
\<close>

datatype fake_pointer = EmbeddedFake

datatype fakeDiscovery = FakeDiscovery fake_pointer

datatype fakeCommunityV1alpha1 = FakeCommunityV1alpha1 fake_pointer

datatype fakeStagedBindingPolicies = FakeStagedBindingPolicies fakeCommunityV1alpha1

text \<open>The embedded \<open>testing.Fake\<close> with its reactors, and the pointers to the other two.\<close>

record ('tr, 'rx, 'wx) fake_clientset =
  fc_discovery :: fakeDiscovery
  fc_tracker :: 'tr
  fc_reactors :: "(string \<times> string \<times> 'rx) list"
  fc_watchReactors :: "(string \<times> 'wx) list"

record ('tr, 'rx, 'obj, 'wt, 'w) tracker_lib =
  NewObjectTracker :: "'w \<Rightarrow> 'tr \<times> 'w"
  tracker_Add :: "'tr \<Rightarrow> 'obj \<Rightarrow> 'w \<Rightarrow> go_error option \<times> 'w"
  tracker_Watch :: "'tr \<Rightarrow> group_version_resource \<Rightarrow> string \<Rightarrow> 'w \<Rightarrow> (go_error + 'wt) \<times> 'w"
  ObjectReaction :: "'tr \<Rightarrow> 'rx"

fun add_objects ::
  "('tr, 'rx, 'obj, 'wt, 'w) tracker_lib \<Rightarrow> 'tr \<Rightarrow> 'obj list \<Rightarrow> 'w \<Rightarrow> unit outcome \<times> 'w" where
  "add_objects T t [] w = (Returns (), w)"
| "add_objects T t (obj # objs) w =
     (case tracker_Add T t obj w of
        (Some err, w') \<Rightarrow> (Panics ExplicitPanic, w')
      | (None, w') \<Rightarrow> add_objects T t objs w')"

text \<open>
  The watch reaction over the tracker: an action is a resource and a namespace here, and a
  watch that fails is not handled, without an error.
\<close>

definition watch_reaction ::
  "('tr, 'rx, 'obj, 'wt, 'w) tracker_lib \<Rightarrow> 'tr \<Rightarrow> group_version_resource \<times> string \<Rightarrow> 'w \<Rightarrow>
   (bool \<times> 'wt option \<times> go_error option) \<times> 'w" where
  "watch_reaction T t action w =
     (case tracker_Watch T t (fst action) (snd action) w of
        (Inl err, w') \<Rightarrow> ((False, None, None), w')
      | (Inr wt, w') \<Rightarrow> ((True, Some wt, None), w'))"

definition NewSimpleClientset ::
  "('tr, 'rx, 'obj, 'wt, 'w) tracker_lib \<Rightarrow> 'obj list \<Rightarrow> 'w \<Rightarrow>
   ('tr, 'rx, group_version_resource \<times> string \<Rightarrow> 'w \<Rightarrow> (bool \<times> 'wt option \<times> go_error option) \<times> 'w)
     fake_clientset outcome \<times> 'w" where
  "NewSimpleClientset T objects w =
     (case NewObjectTracker T w of
        (t, w1) \<Rightarrow> st_bind (add_objects T t objects w1) (\<lambda>_ w2.
          (Returns \<lparr>fc_discovery = FakeDiscovery EmbeddedFake, fc_tracker = t,
             fc_reactors = [(''*'', ''*'', ObjectReaction T t)],
             fc_watchReactors = [(''*'', watch_reaction T t)]\<rparr>, w2)))"

definition Tracker :: "('tr, 'rx, 'wx) fake_clientset \<Rightarrow> 'tr" where
  "Tracker c = fc_tracker c"

definition fake_Discovery :: "('tr, 'rx, 'wx) fake_clientset \<Rightarrow> fakeDiscovery" where
  "fake_Discovery c = fc_discovery c"

definition fake_CommunityV1alpha1 :: "('tr, 'rx, 'wx) fake_clientset \<Rightarrow> fakeCommunityV1alpha1" where
  "fake_CommunityV1alpha1 c = FakeCommunityV1alpha1 EmbeddedFake"

definition fake_StagedBindingPolicies ::
  "fakeCommunityV1alpha1 \<Rightarrow> fakeStagedBindingPolicies" where
  "fake_StagedBindingPolicies c = FakeStagedBindingPolicies c"

text \<open>The REST client of the group is a nil pointer.\<close>

definition fake_RESTClient :: "fakeCommunityV1alpha1 \<Rightarrow> 'rc option" where
  "fake_RESTClient c = None"

text \<open>The fake that answers the calls of a client: that of the clientset, for all of them.\<close>

fun answering_fake :: "fakeStagedBindingPolicies \<Rightarrow> fake_pointer" where
  "answering_fake (FakeStagedBindingPolicies (FakeCommunityV1alpha1 p)) = p"

lemma clients_share_one_fake:
  assumes "NewSimpleClientset T objs w = (Returns cs, w')"
  shows "fake_Discovery cs =
    FakeDiscovery (answering_fake (fake_StagedBindingPolicies (fake_CommunityV1alpha1 cs)))"
  using assms
  by (cases "NewObjectTracker T w"; cases "add_objects T (fst (NewObjectTracker T w)) objs
      (snd (NewObjectTracker T w))"; cases "fst (add_objects T (fst (NewObjectTracker T w)) objs
      (snd (NewObjectTracker T w)))")
     (auto simp: NewSimpleClientset_def fake_Discovery_def fake_StagedBindingPolicies_def
        fake_CommunityV1alpha1_def)

text \<open>A clientset is made exactly when all objects are added; the first that is refused panics.\<close>

lemma add_objects_outcome:
  "fst (add_objects T t objs w) = Returns () \<or> fst (add_objects T t objs w) = Panics ExplicitPanic"
  by (induction objs arbitrary: w) (auto split: prod.splits option.splits)

lemma add_objects_all:
  assumes "\<And>obj w. obj \<in> set objs \<Longrightarrow> fst (tracker_Add T t obj w) = None"
  shows "add_objects T t objs w = (Returns (), fold (\<lambda>obj w. snd (tracker_Add T t obj w)) objs w)"
  using assms
proof (induction objs arbitrary: w)
  case (Cons obj objs)
  then have "fst (tracker_Add T t obj w) = None" by simp
  with Cons show ?case by (cases "tracker_Add T t obj w") simp
qed simp

section \<open>Registration of the types\<close>

text \<open>
  \<open>api/community/v1alpha1/register.go\<close> and the \<open>register.go\<close> of the two clientsets; \<open>'sch\<close> is
  apimachinery's scheme. A scheme builder is a list of functions; its \<open>AddToScheme\<close> calls
  them in turn until one fails.
\<close>

record 'sch scheme_lib =
  AddKnownTypes :: "group_version \<Rightarrow> string list \<Rightarrow> 'sch \<Rightarrow> 'sch"
  AddToGroupVersion :: "group_version \<Rightarrow> 'sch \<Rightarrow> 'sch"

definition Kind :: "string \<Rightarrow> string \<times> string" where
  "Kind kind = (fst SchemeGroupVersion, kind)"

definition addKnownTypes :: "'sch scheme_lib \<Rightarrow> 'sch \<Rightarrow> go_error option \<times> 'sch" where
  "addKnownTypes S scheme =
     (None, AddToGroupVersion S SchemeGroupVersion
       (AddKnownTypes S SchemeGroupVersion [''StagedBindingPolicy'', ''StagedBindingPolicyList'']
          scheme))"

fun builder_AddToScheme ::
  "('sch \<Rightarrow> go_error option \<times> 'sch) list \<Rightarrow> 'sch \<Rightarrow> go_error option \<times> 'sch" where
  "builder_AddToScheme [] scheme = (None, scheme)"
| "builder_AddToScheme (f # fs) scheme =
     (case f scheme of
        (Some err, scheme') \<Rightarrow> (Some err, scheme')
      | (None, scheme') \<Rightarrow> builder_AddToScheme fs scheme')"

definition AddToScheme :: "'sch scheme_lib \<Rightarrow> 'sch \<Rightarrow> go_error option \<times> 'sch" where
  "AddToScheme S = builder_AddToScheme [addKnownTypes S]"

definition clientset_AddToScheme :: "'sch scheme_lib \<Rightarrow> 'sch \<Rightarrow> go_error option \<times> 'sch" where
  "clientset_AddToScheme S = builder_AddToScheme [AddToScheme S]"

text \<open>The fake clientset registers the types with a scheme of its own, in the same way.\<close>

definition fake_AddToScheme :: "'sch scheme_lib \<Rightarrow> 'sch \<Rightarrow> go_error option \<times> 'sch" where
  "fake_AddToScheme S = builder_AddToScheme [AddToScheme S]"

definition fake_init :: "'sch scheme_lib \<Rightarrow> 'sch \<Rightarrow> unit outcome \<times> 'sch" where
  "fake_init S scheme =
     (case fake_AddToScheme S (AddToGroupVersion S ([], ''v1'') scheme) of
        (err, scheme') \<Rightarrow> (Must err, scheme'))"

definition clientset_init :: "'sch scheme_lib \<Rightarrow> 'sch \<Rightarrow> unit outcome \<times> 'sch" where
  "clientset_init S scheme =
     (case clientset_AddToScheme S (AddToGroupVersion S ([], ''v1'') scheme) of
        (err, scheme') \<Rightarrow> (Must err, scheme'))"

text \<open>Initialisation never panics, and the scheme knows the two types of the API.\<close>

lemma clientset_init_registers:
  assumes "\<And>gv ts s. known (AddKnownTypes S gv ts s) = known s \<union> {(gv, t) | t. t \<in> set ts}"
    and "\<And>gv s. known s \<subseteq> known (AddToGroupVersion S gv s)"
  shows "\<exists>scheme'. clientset_init S scheme = (Returns (), scheme') \<and>
    {(GroupVersion, ''StagedBindingPolicy''), (GroupVersion, ''StagedBindingPolicyList'')}
      \<subseteq> known scheme'"
proof -
  let ?s = "AddKnownTypes S SchemeGroupVersion [''StagedBindingPolicy'', ''StagedBindingPolicyList'']
    (AddToGroupVersion S ([], ''v1'') scheme)"
  have "clientset_init S scheme = (Returns (), AddToGroupVersion S SchemeGroupVersion ?s)"
    by (simp add: clientset_init_def clientset_AddToScheme_def AddToScheme_def addKnownTypes_def
        Must_def)
  moreover have "{(GroupVersion, ''StagedBindingPolicy''),
      (GroupVersion, ''StagedBindingPolicyList'')} \<subseteq> known ?s"
    by (simp add: assms(1) SchemeGroupVersion_eq_GroupVersion)
  ultimately show ?thesis using assms(2) by blast
qed

lemma fake_init_eq: "fake_init S = clientset_init S"
  by (simp add: fun_eq_iff fake_init_def clientset_init_def fake_AddToScheme_def
      clientset_AddToScheme_def)

end
