(* ===== verification/Resolver_Requests.thy ===== *)
theory Resolver_Requests
  imports Typed_Client Resolver_Ops
begin

text \<open>
  The resolver over the generated client of StagedBindingPolicies: its two calls as requests
  to the API server, and a log of the requests that are made with what they answer, from which
  the properties read whose status the resolver writes, and with what.
\<close>

section \<open>The clients of the resolver, over REST\<close>

text \<open>\<open>metav1.GetOptions{}\<close> and \<open>metav1.UpdateOptions{}\<close>: the zero options.\<close>

definition zero_options :: go_any where
  "zero_options = GoMap []"

definition over_rest ::
  "('wt, 'w) rest_client \<Rightarrow> ('ast, 'prog, 'w) clients \<Rightarrow> ('ast, 'prog, 'w) clients" where
  "over_rest client c =
     c\<lparr>sbp_Get := (\<lambda>n. sbp_client_Get client n zero_options),
       sbp_UpdateStatus := (\<lambda>sbp. sbp_client_UpdateStatus client sbp zero_options)\<rparr>"

section \<open>A log of requests\<close>

text \<open>
  A REST client that keeps the requests it is given beside the world it acts on, with the policy
  or error each one answers (\<open>None\<close> for those that answer something else), and clients whose
  other calls leave the log alone.
\<close>

type_synonym exchange = "request \<times> (go_error + staged_binding_policy) option"

definition logging :: "('wt, 'w) rest_client \<Rightarrow> ('wt, exchange list \<times> 'w) rest_client" where
  "logging client =
     \<lparr>Do_Into = (\<lambda>rq (log, w).
        case Do_Into client rq w of (res, w') \<Rightarrow> (res, (log @ [(rq, Some res)], w'))),
      Do_IntoList = (\<lambda>rq (log, w).
        case Do_IntoList client rq w of (res, w') \<Rightarrow> (res, (log @ [(rq, None)], w'))),
      Do_Error = (\<lambda>rq (log, w).
        case Do_Error client rq w of (res, w') \<Rightarrow> (res, (log @ [(rq, None)], w'))),
      Do_Watch = (\<lambda>rq (log, w).
        case Do_Watch client rq w of (res, w') \<Rightarrow> (res, (log @ [(rq, None)], w')))\<rparr>"

definition keeps_log :: "('ast, 'prog, exchange list \<times> 'w) clients \<Rightarrow> bool" where
  "keeps_log c \<longleftrightarrow> (\<forall>n s. fst (snd (bp_Delete c n s)) = fst s) \<and>
     (\<forall>bp s. fst (snd (bp_Create c bp s)) = fst s)"

abbreviation logged_clients ::
  "('wt, 'w) rest_client \<Rightarrow> ('ast, 'prog, exchange list \<times> 'w) clients \<Rightarrow>
   ('ast, 'prog, exchange list \<times> 'w) clients" where
  "logged_clients client c \<equiv> over_rest (logging client) c"

text \<open>The two requests: a read of the policy of a name, and a write of a policy's status.\<close>

definition get_request :: "string \<Rightarrow> request" where
  "get_request n = [Get, ResourceCall ''stagedbindingpolicies'', NameCall n,
     VersionedParams (GetParams zero_options)]"

definition status_request :: "staged_binding_policy \<Rightarrow> request" where
  "status_request sbp = [Put, ResourceCall ''stagedbindingpolicies'', NameCall (sbp_name sbp),
     SubResource [''status''], VersionedParams (WriteParams zero_options), Body (PolicyBody sbp)]"

text \<open>
  What writing stage \<open>s\<close> to the status of policy \<open>n\<close> exchanges with the API server: nothing, if it
  does not come to that; a read of \<open>n\<close> that fails; or a read of \<open>n\<close> and then a write of the
  status of \<open>n\<close>, with the very policy the read gave, \<open>s\<close> as its active stage and no other change.
  \<open>went\<close> says that the write succeeded.
\<close>

fun status_exchange :: "string \<Rightarrow> string \<Rightarrow> bool \<Rightarrow> exchange list \<Rightarrow> bool" where
  "status_exchange n s went [] \<longleftrightarrow> \<not> went"
| "status_exchange n s went [(rq, Some (Inl e))] \<longleftrightarrow> rq = get_request n \<and> \<not> went"
| "status_exchange n s went [(rq, Some (Inr got)), (rq', Some (Inl e))] \<longleftrightarrow>
     rq = get_request n \<and> sbp_name got = n \<and> rq' = status_request (set_activeStage s got) \<and>
     \<not> went"
| "status_exchange n s went [(rq, Some (Inr got)), (rq', Some (Inr x))] \<longleftrightarrow>
     rq = get_request n \<and> sbp_name got = n \<and> rq' = status_request (set_activeStage s got) \<and>
     went"
| "status_exchange n s went l \<longleftrightarrow> False"

text \<open>What the API server promises: a read gives the policy of the name.\<close>

definition reads_named :: "('wt, 'w) rest_client \<Rightarrow> bool" where
  "reads_named client \<longleftrightarrow> (\<forall>n w got w'. Do_Into client (get_request n) w = (Inr got, w') \<longrightarrow>
     sbp_name got = n)"

definition asks ::
  "(exchange list \<times> 'w) resolver \<Rightarrow> (exchange list \<times> 'w) resolver \<Rightarrow> exchange list \<Rightarrow> bool" where
  "asks r r' l \<longleftrightarrow> fst (world r') = fst (world r) @ l"

lemma asks_unique: "asks r r' l \<Longrightarrow> asks r r' l' \<Longrightarrow> l' = l"
  by (simp add: asks_def)

lemma asks_nothing: "fst (world r') = fst (world r) \<Longrightarrow> asks r r' []"
  by (simp add: asks_def)

section \<open>What an operation asks for\<close>

lemma updateStatus_asks:
  assumes "reads_named client" and "stagedBindingPolicies r n = Some d" and "i < length (d_stages d)"
    and "updateStagedBindingPolicyStatusLocked (logged_clients client c) n i r = (out, r')"
  shows "\<exists>l. asks r r' l \<and> status_exchange n (stage_name (d_stages d ! i)) (out = Returns None) l"
proof -
  obtain log w where w: "world r = (log, w)" by fastforce
  obtain res w1 where g: "Do_Into client (get_request n) w = (res, w1)" by fastforce
  have get: "sbp_Get (logged_clients client c) n (world r) =
      (res, log @ [(get_request n, Some res)], w1)"
    using g by (simp add: w over_rest_def logging_def sbp_client_Get_def get_request_def)
  show ?thesis
  proof (cases res)
    case (Inl e)
    with get assms(4) w show ?thesis
      by (intro exI [of _ "[(get_request n, Some res)]"])
        (auto simp: updateStagedBindingPolicyStatusLocked_def asks_def)
  next
    case (Inr got)
    with assms(1) g have name: "sbp_name got = n" unfolding reads_named_def by blast
    let ?s = "set_activeStage (stage_name (d_stages d ! i)) got"
    obtain ures w2 where u: "Do_Into client (status_request ?s) w1 = (ures, w2)" by fastforce
    have "sbp_UpdateStatus (logged_clients client c) ?s (log @ [(get_request n, Some res)], w1) =
        (ures, (log @ [(get_request n, Some res)]) @ [(status_request ?s, Some ures)], w2)"
      using u by (simp add: over_rest_def logging_def sbp_client_UpdateStatus_def status_request_def)
    with get name assms w Inr show ?thesis
      by (intro exI [of _ "[(get_request n, Some res), (status_request ?s, Some ures)]"], cases ures)
        (auto simp: updateStagedBindingPolicyStatusLocked_def asks_def)
  qed
qed

lemma keeps_logD:
  assumes "keeps_log c"
  shows "bp_Delete (logged_clients client c) n s = (e, s') \<Longrightarrow> fst s' = fst s"
    "bp_Create (logged_clients client c) bp s = (re, s') \<Longrightarrow> fst s' = fst s"
proof -
  assume "bp_Delete (logged_clients client c) n s = (e, s')"
  then have "snd (bp_Delete c n s) = s'" by (simp add: over_rest_def)
  with assms show "fst s' = fst s" unfolding keeps_log_def by blast
next
  assume "bp_Create (logged_clients client c) bp s = (re, s')"
  then have "snd (bp_Create c bp s) = s'" by (simp add: over_rest_def)
  with assms show "fst s' = fst s" unfolding keeps_log_def by blast
qed

lemma deletePrevious_asks:
  assumes "keeps_log c" and "deletePreviousStage (logged_clients client c) n d r = (out, r')"
  shows "asks r r' []"
  using assms(2)
  by (auto simp: deletePreviousStage_def asks_def
      split: outcome.splits prod.splits option.splits if_splits dest: keeps_logD(1) [OF assms(1)])

lemma createActive_asks:
  assumes k: "keeps_log c" and named: "reads_named client"
    and d: "stagedBindingPolicies r n = Some d"
    and res: "createActiveStage (logged_clients client c) n d r = (out, r')"
  shows "\<exists>l. asks r r' l \<and>
    status_exchange n (stage_name (d_stages d ! d_activeIndex d)) (out = Returns None) l"
proof (cases "d_activeIndex d < length (d_stages d)")
  case False
  with res show ?thesis by (intro exI [of _ "[]"]) (auto simp: createActiveStage_def asks_def)
next
  case True
  let ?bp = "stageBindingPolicy (logged_clients client c) n d (d_stages d ! d_activeIndex d)"
  obtain bres w where cr: "bp_Create (logged_clients client c) ?bp (world r) = (bres, w)"
    by (rule prod.exhaust)
  have log: "fst w = fst (world r)" by (rule keeps_logD(2) [OF k cr])
  show ?thesis
  proof (cases bres)
    case (Inl e)
    with True cr res log show ?thesis
      by (intro exI [of _ "[]"]) (auto simp: createActiveStage_def asks_def)
  next
    case (Inr echo)
    let ?r = "update_entry n (\<lambda>d. d\<lparr>d_activeBindingPolicyUID := bp_uid echo\<rparr>) (r\<lparr>world := w\<rparr>)"
    have "stagedBindingPolicies ?r n = Some (d\<lparr>d_activeBindingPolicyUID := bp_uid echo\<rparr>)"
      using d by (simp add: update_entry_def)
    from updateStatus_asks [OF named this, of "d_activeIndex d" c out r'] True cr Inr res
    obtain l where "asks ?r r' l"
      "status_exchange n (stage_name (d_stages d ! d_activeIndex d)) (out = Returns None) l"
      by (auto simp: createActiveStage_def)
    with log show ?thesis by (intro exI [of _ l]) (simp add: asks_def update_entry_def)
  qed
qed

lemma ensureActive_asks:
  assumes k: "keeps_log c" and named: "reads_named client"
    and d: "stagedBindingPolicies r n = Some d"
    and res: "ensureActiveStageLocked (logged_clients client c) n r = (out, r')"
  shows "\<exists>l. asks r r' l \<and>
    status_exchange n (stage_name (d_stages d ! d_activeIndex d)) (out = Returns None) l"
proof -
  obtain o1 r1 where del: "deletePreviousStage (logged_clients client c) n d r = (o1, r1)" by fastforce
  have log: "fst (world r1) = fst (world r)" using deletePrevious_asks [OF k del] by (simp add: asks_def)
  show ?thesis
  proof (cases "o1 = Returns None")
    case True
    have "stagedBindingPolicies r1 n = Some d"
      using deletePrevious_entries [of "logged_clients client c" n d r] del d by simp
    from createActive_asks [OF k named this, of out r'] True del res d
    have "\<exists>l. asks r1 r' l \<and>
        status_exchange n (stage_name (d_stages d ! d_activeIndex d)) (out = Returns None) l"
      by (simp add: ensureActiveStageLocked_def)
    with log show ?thesis by (simp add: asks_def)
  next
    case False
    with del res d have "out \<noteq> Returns None \<and> r' = r1"
      by (cases o1) (auto simp: ensureActiveStageLocked_def split: option.splits)
    with log show ?thesis by (intro exI [of _ "[]"]) (simp add: asks_def)
  qed
qed

text \<open>The policy is in its next stage.\<close>

definition moved_on :: "'w resolver \<Rightarrow> string \<Rightarrow> stagedBindingPolicyData \<Rightarrow> bool" where
  "moved_on r n d \<longleftrightarrow>
     map_option d_activeIndex (stagedBindingPolicies r n) = Some (Suc (d_activeIndex d))"

lemma stageUp_asks:
  assumes k: "keeps_log c" and named: "reads_named client"
    and d: "stagedBindingPolicies r n = Some d" and i: "d_activeIndex d < length (d_stages d)"
    and res: "stageUpLocked (logged_clients client c) n r = (out, r')"
  shows "\<exists>l. asks r r' l \<and> status_exchange n (stage_name (d_stages d ! Suc (d_activeIndex d)))
    (out = Returns () \<and> moved_on r' n d) l"
proof -
  let ?d = "d\<lparr>d_activeIndex := Suc (d_activeIndex d)\<rparr>"
  let ?r = "r\<lparr>stagedBindingPolicies := (stagedBindingPolicies r)(n \<mapsto> ?d)\<rparr>"
  let ?c = "logged_clients client c"
  have dr: "stagedBindingPolicies ?r n = Some ?d" by simp
  obtain o1 r1 where ens: "ensureActiveStageLocked ?c n ?r = (o1, r1)" by (rule prod.exhaust)
  obtain u where u: "stagedBindingPolicies r1 =
      (stagedBindingPolicies ?r)(n \<mapsto> ?d\<lparr>d_activeBindingPolicyUID := u\<rparr>)"
    using ensureActive_entries [OF dr, of ?c] ens by auto
  from ensureActive_asks [OF k named dr ens] obtain l where l: "asks r r1 l"
    "status_exchange n (stage_name (d_stages d ! Suc (d_activeIndex d))) (o1 = Returns None) l"
    by (auto simp: asks_def)
  have "world r' = world r1 \<and> (o1 = Returns None \<longleftrightarrow> out = Returns () \<and> moved_on r' n d)"
    using ens res u by (cases o1) (auto simp: stageUp_eq [OF d i] moved_on_def update_entry_def
        split: option.splits)
  with l show ?thesis by (auto simp: asks_def)
qed

lemma attempt_asks:
  assumes k: "keeps_log c" and named: "reads_named client"
    and d: "stagedBindingPolicies r n = Some d"
    and res: "attemptConditionLocked (logged_clients client c) n r = (out, r')"
  shows "\<exists>l. asks r r' l \<and> status_exchange n (stage_name (d_stages d ! Suc (d_activeIndex d)))
    (out = Returns () \<and> moved_on r' n d) l"
proof (cases "r' = r")
  case True
  with d show ?thesis by (intro exI [of _ "[]"]) (simp add: asks_def moved_on_def)
next
  case False
  with res d have "d_activeIndex d < length (d_stages d)"
    "stageUpLocked (logged_clients client c) n r = (out, r')"
    by (auto simp: attemptConditionLocked_def Let_def split: option.splits outcome.splits if_splits)
  from stageUp_asks [OF k named d this] show ?thesis .
qed

text \<open>What an attempt on the policy a name belongs to asks for, which may be nothing.\<close>

definition attempt_exchange ::
  "string option \<Rightarrow> 'w resolver \<Rightarrow> unit outcome \<Rightarrow> 'w resolver \<Rightarrow> exchange list \<Rightarrow> bool" where
  "attempt_exchange name r out r' l \<longleftrightarrow>
     (case Option.bind name (\<lambda>n. map_option (Pair n) (stagedBindingPolicies r n)) of
        None \<Rightarrow> l = []
      | Some (n, d) \<Rightarrow> status_exchange n (stage_name (d_stages d ! Suc (d_activeIndex d)))
          (out = Returns () \<and> moved_on r' n d) l)"

lemma noteBinding_asks:
  assumes k: "keeps_log c" and named: "reads_named client"
    and res: "NoteBinding (logged_clients client c) b r = (out, r')"
  shows "\<exists>l. asks r r' l \<and> attempt_exchange (associatedName (om_name (b_meta b))) r out r' l"
  using res
proof (cases rule: NoteBinding_cases)
  case ignored
  then show ?thesis
    by (intro exI [of _ "[]"])
      (auto simp: asks_def attempt_exchange_def moved_on_def split: option.splits bind_splits)
next
  case (attempt n d)
  let ?r = "update_entry n (\<lambda>d. d\<lparr>d_bindingSpec := b_spec b\<rparr>) r"
  have "stagedBindingPolicies ?r n = Some (d\<lparr>d_bindingSpec := b_spec b\<rparr>)"
    using attempt(2) by (simp add: update_entry_def)
  from attempt_asks [OF k named this attempt(4)] attempt(1,2) show ?thesis
    by (auto simp: asks_def attempt_exchange_def moved_on_def update_entry_def)
qed

lemma noteCombinedStatus_asks:
  assumes k: "keeps_log c" and named: "reads_named client" and keys: "ranges_keys c"
    and fin: "finite (dom (stagedBindingPolicies r))"
    and res: "NoteCombinedStatus (logged_clients client c) cs r = (out, r')"
  shows "\<exists>l. asks r r' l \<and> attempt_exchange (if bindingPolicyLabel cs = [] then None
    else associatedName (bindingPolicyLabel cs)) r out r' l"
proof -
  have keys: "ranges_keys (logged_clients client c)"
    using keys by (simp add: ranges_keys_def over_rest_def)
  note eq = NoteCombinedStatus_eq [OF keys fin, of cs]
  show ?thesis
  proof (cases "if bindingPolicyLabel cs = [] then None else associatedName (bindingPolicyLabel cs)")
    case None
    with res eq have "r' = r" by (auto split: if_splits)
    with None show ?thesis by (intro exI [of _ "[]"]) (simp add: asks_def attempt_exchange_def)
  next
    case (Some n)
    with res eq have a: "attemptConditionLocked (logged_clients client c) n r = (out, r')"
      by (auto split: if_splits)
    show ?thesis
    proof (cases "stagedBindingPolicies r n")
      case None
      with a have "r' = r" by (simp add: attempt_None)
      with None Some show ?thesis
        by (intro exI [of _ "[]"]) (simp add: asks_def attempt_exchange_def)
    next
      case (Some d)
      from attempt_asks [OF k named this a]
        \<open>(if bindingPolicyLabel cs = [] then None else associatedName (bindingPolicyLabel cs)) = Some n\<close>
        Some show ?thesis by (simp add: attempt_exchange_def)
    qed
  qed
qed

lemma note_asks:
  assumes "keeps_log c" and "reads_named client"
    and "NoteStagedBindingPolicy (logged_clients client c) sbp r = (out, r')"
  shows "\<exists>l. asks r r' l \<and> status_exchange (sbp_name sbp)
    (stage_name (spec_stages (sbp_spec sbp) ! activeStageIndex sbp)) (out = Returns None) l"
proof -
  have "stagedBindingPolicies (noted sbp r) (sbp_name sbp) = Some (newPolicyData sbp)" by simp
  from ensureActive_asks [OF assms(1,2) this] assms(3) show ?thesis
    unfolding NoteStagedBindingPolicy_eq by (simp add: asks_def newPolicyData_def)
qed

end
