(* ===== verification/Infrastructure_Properties.thy ===== *)
theory Infrastructure_Properties
  imports Fake_Client Resolver_Requests Demo_Cluster
begin

text \<open>
  Properties of the generated code the controller stands on: the shared informer factory,
  the clients and the requests the resolver makes through them.
\<close>

section \<open>Requests\<close>

text \<open>
  C27: Of a StagedBindingPolicy the resolver only ever writes the status, that of the policy an
  operation is about, and only with the stage it is moved to. Each operation's requests on
  policies are nothing, or a read of that policy, followed, unless the read failed, by a write of
  the status of what was read with the active stage changed: to the one the policy is noted in
  by \<open>NoteStagedBindingPolicy\<close>, which returns nil exactly when that write succeeded; to the next
  stage of the policy its name or label belongs to by a Binding or a combined status, which moves
  the policy on exactly when the write succeeded. Deleting a policy requests nothing.
\<close>

theorem resolver_writes_only_status:
  assumes "keeps_log c" and "reads_named client" and "ranges_keys c"
    and "finite (dom (stagedBindingPolicies r))" and "C = logged_clients client c"
  shows "(case NoteStagedBindingPolicy C sbp r of (out, r') \<Rightarrow>
      \<exists>l. asks r r' l \<and> status_exchange (sbp_name sbp)
        (stage_name (spec_stages (sbp_spec sbp) ! activeStageIndex sbp)) (out = Returns None) l) \<and>
    (case NoteBinding C b r of (out, r') \<Rightarrow>
      \<exists>l. asks r r' l \<and> attempt_exchange (associatedName (om_name (b_meta b))) r out r' l) \<and>
    (case NoteCombinedStatus C cs r of (out, r') \<Rightarrow>
      \<exists>l. asks r r' l \<and> attempt_exchange (if bindingPolicyLabel cs = [] then None
        else associatedName (bindingPolicyLabel cs)) r out r' l) \<and>
    (case DeleteStagedBindingPolicy n r of (out, r') \<Rightarrow> asks r r' [])"
  using note_asks [OF assms(1,2), where r = r and sbp = sbp]
    noteBinding_asks [OF assms(1,2), where r = r and b = b]
    noteCombinedStatus_asks [OF assms(1-4), where cs = cs]
  unfolding assms(5) by (auto simp: DeleteStagedBindingPolicy_def asks_nothing)

definition demo_rest :: "(unit, demo_world) rest_client" where
  "demo_rest =
     \<lparr>Do_Into = (\<lambda>rq w. case rq of
          [Get, _, NameCall n, _] \<Rightarrow>
            (case sbp_Get demo_clients n w of
               (Inr got, w') \<Rightarrow> if sbp_name got = n then (Inr got, w')
                 else (Inl (LibError ''not found''), w')
             | (Inl e, w') \<Rightarrow> (Inl e, w'))
        | [Put, _, _, _, _, Body (PolicyBody sbp)] \<Rightarrow> sbp_UpdateStatus demo_clients sbp w
        | _ \<Rightarrow> (Inl (LibError ''bad request''), w)),
      Do_IntoList = (\<lambda>rq w. (Inr [], w)), Do_Error = (\<lambda>rq w. (None, w)),
      Do_Watch = (\<lambda>rq w. (Inr (), w))\<rparr>"

lemma demo_reads_named: "reads_named demo_rest"
  by (auto simp: reads_named_def demo_rest_def get_request_def split: prod.splits sum.splits if_splits)

text \<open>The demo clients beside a log.\<close>

definition demo_logged :: "(string, string, exchange list \<times> demo_world) clients" where
  "demo_logged =
     \<lparr>celEvaluator = celEvaluator demo_clients,
      bp_Delete = (\<lambda>n (log, w). case bp_Delete demo_clients n w of (e, w') \<Rightarrow> (e, (log, w'))),
      bp_Create = (\<lambda>bp (log, w). case bp_Create demo_clients bp w of (e, w') \<Rightarrow> (e, (log, w'))),
      sbp_Get = (\<lambda>n s. (Inl (LibError ''unused''), s)),
      sbp_UpdateStatus = (\<lambda>sbp s. (Inl (LibError ''unused''), s)),
      combinedStatus_List = (\<lambda>sel (log, w). combinedStatus_List demo_clients sel w),
      errors_IsNotFound = errors_IsNotFound demo_clients,
      labels_NewRequirement = labels_NewRequirement demo_clients,
      toUnstructured = toUnstructured demo_clients,
      groupVersion_String = groupVersion_String demo_clients,
      range_objs = (\<lambda>(log, w). range_objs demo_clients w),
      range_keys = (\<lambda>(log, w). range_keys demo_clients w)\<rparr>"

lemma demo_keeps_log: "keeps_log demo_logged"
  by (auto simp: keeps_log_def demo_logged_def split: prod.split)

lemma demo_logged_keys: "ranges_keys demo_logged"
  using demo_ranges_keys by (auto simp: ranges_keys_def demo_logged_def)

theorem resolver_writes_only_status_witness:
  "\<exists>out r'. NoteStagedBindingPolicy (logged_clients demo_rest demo_logged) demo_policy
       (new_resolver ([], demo_cluster [] [])) = (out, r') \<and>
     status_exchange ''web'' ''dev'' (out = Returns None) (fst (world r'))"
proof -
  let ?r = "new_resolver ([] :: exchange list, demo_cluster [] [])"
  have same: "sbp_name demo_policy = ''web''"
    "stage_name (spec_stages (sbp_spec demo_policy) ! activeStageIndex demo_policy) = ''dev''"
    by (simp_all add: demo_policy_def activeStageIndex_def demo_dev_def)
  have fin: "finite (dom (stagedBindingPolicies ?r))" by (simp add: new_resolver_def)
  obtain out r' where run: "NoteStagedBindingPolicy (logged_clients demo_rest demo_logged)
      demo_policy ?r = (out, r')" by (rule prod.exhaust)
  from resolver_writes_only_status [OF demo_keeps_log demo_reads_named demo_logged_keys fin refl,
      of demo_policy, THEN conjunct1]
  obtain l where "asks ?r r' l" "status_exchange ''web'' ''dev'' (out = Returns None) l"
    unfolding run same by auto
  with run show ?thesis by (auto simp: asks_def new_resolver_def)
qed

section \<open>Clients\<close>

text \<open>
  A clientset is made exactly when the rate limits are usable (a positive burst where a
  rate is set without a limiter) and the library makes the HTTP, REST and discovery clients;
  both API clients then share one configuration, limiter and HTTP client included, and the
  group's client differs from it in the group version, the path and the serializer only.
\<close>

lemma clientset_made_iff:
  "NewForConfig L c = Inr cs \<longleftrightarrow>
   \<not> (cfg_RateLimiter c = None \<and> cfg_QPS c > 0 \<and> cfg_Burst c \<le> 0) \<and>
   (\<exists>http. HTTPClientFor L ((shared_config L c)\<lparr>cfg_RateLimiter := cfg_RateLimiter c\<rparr>) = Inr http \<and>
     RESTClientForConfigAndClient L (group_config L c) http = Inr (restClient (communityV1alpha1 cs)) \<and>
     NewDiscoveryClientForConfigAndClient L (shared_config L c) http = Inr (discoveryClient cs))"
  using NewForConfig_Inr [of L c cs] by auto

section \<open>Informers\<close>

text \<open>
  C39: However the factory is used, every informer it starts is started once, and only
  informers that were asked for are started.
\<close>

theorem informers_start_once:
  assumes "factory_new f0" and "factory_step\<^sup>*\<^sup>* (f0, w0) (f, w)"
  shows "distinct (sf_running f) \<and> set (sf_running f) = sf_startedInformers f \<and>
    set (sf_running f) \<subseteq> dom (sf_informers f) \<and> sf_wg f \<le> length (sf_running f)"
proof -
  have "factory_ok (f, w)" using informer_factory.reachable_inv [OF _ assms(2)] assms(1) by simp
  then show ?thesis by (simp add: factory_ok_def)
qed

text \<open>A factory whose informers are numbers, made in sequence; two starts.\<close>

definition demo_new :: "unit \<Rightarrow> int \<Rightarrow> nat \<Rightarrow> nat \<times> nat" where
  "demo_new client period w = (w, Suc w)"

definition demo_factory :: "(unit, unit, string, nat) sharedInformerFactory" where
  "demo_factory = NewSharedInformerFactory () 0"

lemma demo_factory_new: "factory_new demo_factory"
  by (simp add: demo_factory_def factory_new_def NewSharedInformerFactory_def
      NewSharedInformerFactoryWithOptions_def)

definition demo_factory1 :: "(unit, unit, string, nat) sharedInformerFactory" where
  "demo_factory1 = demo_factory\<lparr>sf_informers := [''sbp'' \<mapsto> 7]\<rparr>"

lemma demo_InformerFor:
  "InformerFor ''sbp'' demo_new demo_factory (7 :: nat) = (7, demo_factory1, 8)"
  by (simp add: InformerFor_def demo_factory_def NewSharedInformerFactory_def
      NewSharedInformerFactoryWithOptions_def demo_new_def demo_factory1_def)

lemma demo_started_twice:
  "factory_step\<^sup>*\<^sup>* (demo_factory, 7 :: nat) (Start [''sbp''] (Start [''sbp''] demo_factory1), 8)"
proof -
  have 1: "factory_step (demo_factory, 7 :: nat) (demo_factory1, 8)"
    by (rule factory_step.informer_for [OF demo_InformerFor])
  have 2: "factory_step (demo_factory1, 8 :: nat) (Start [''sbp''] demo_factory1, 8)"
    by (rule factory_step.start) (simp_all add: demo_factory1_def)
  have 3: "factory_step (Start [''sbp''] demo_factory1, 8 :: nat)
      (Start [''sbp''] (Start [''sbp''] demo_factory1), 8)"
    by (rule factory_step.start) (simp_all add: Start_def start_one_def demo_factory1_def)
  from 1 2 3 show ?thesis by (meson rtranclp.rtrancl_into_rtrancl rtranclp.rtrancl_refl)
qed

theorem informers_start_once_witness:
  "distinct (sf_running (Start [''sbp''] (Start [''sbp''] demo_factory1))) \<and>
   set (sf_running (Start [''sbp''] (Start [''sbp''] demo_factory1))) = {''sbp''}"
  using informers_start_once [OF demo_factory_new demo_started_twice]
  by (simp add: Start_def start_one_def demo_factory1_def demo_factory_def
      NewSharedInformerFactory_def NewSharedInformerFactoryWithOptions_def)

text \<open>
  Informers are shared: once the informer of StagedBindingPolicies was made, every later
  request for it, for its lister or for the generic informer of the resource gives that very
  informer, whatever happened in between, and makes no new one.
\<close>

lemma policy_informer_is_shared:
  assumes "Informer mk ty list watch i f0 w0 = (inform, f1, w1)"
    and "factory_step\<^sup>*\<^sup>* (f1, w1) (f, w)"
  shows "Informer mk ty list watch i' f w = (inform, f, w) \<and>
    informer_Lister GetIndexer mk ty list watch i' f w =
      (NewStagedBindingPolicyLister (GetIndexer inform), f, w) \<and>
    ForResource mk ty list watch (GroupVersion, ''stagedbindingpolicies'') f w =
      (Inr \<lparr>gen_informer = inform, gen_resource = Resource ''stagedbindingpolicies''\<rparr>, f, w)"
proof -
  have "sf_informers f1 ty = Some inform"
    using assms(1) InformerFor_registers unfolding Informer_def by fast
  then have "sf_informers f ty = Some inform"
    using kept_informer.steps_inv [OF assms(2), of ty inform] by simp
  then have known: "Informer mk ty list watch i'' f w = (inform, f, w)" for i''
    unfolding Informer_def by (rule InformerFor_known)
  then show ?thesis
    by (simp add: informer_Lister_def ForResource_def GroupResource_def Resource_def
        SchemeGroupVersion_eq_GroupVersion)
qed

text \<open>
  After \<open>Shutdown\<close> has set its flag no informer is started any more, so the wait group it
  waits for only shrinks.
\<close>

lemma nothing_starts_after_shutdown:
  assumes "factory_step\<^sup>*\<^sup>* (Shutdown_begin f0, w0) (f, w)"
  shows "sf_running f = sf_running f0 \<and> sf_shuttingDown f"
  using shut_factory.steps_inv [OF assms, of "sf_running f0"] by (simp add: Shutdown_begin_def)

end
