(* ===== verification/Deep_Copy.thy ===== *)
theory Deep_Copy
  imports Api_Types
begin

text \<open>
  \<open>api/community/v1alpha1/zz_generated.deepcopy.go\<close> over an explicit memory, where aliasing can
  be seen: a slice and a pointer are addresses, a copy of a struct copies them, and
  \<open>DeepCopyInto\<close> replaces them by fresh ones. The element types of other modules
  (LabelSelector, DownsyncPolicyClause, ObjectMeta, ListMeta) are opaque values \<open>'l\<close> with
  their own deep copy, which is a parameter.
\<close>

section \<open>Memory\<close>

type_synonym addr = nat

text \<open>The structs of \<open>types.go\<close> as they lie in memory; \<open>None\<close> is a nil slice or pointer.\<close>

record m_stage =
  ms_name :: string
  ms_clusterSelectors :: "addr option"
  ms_filter :: "addr option"
  ms_condition :: "addr option"

record m_spec =
  msp_downsync :: "addr option"
  msp_stages :: "addr option"

record 'l m_policy =
  mp_typeMeta :: type_meta
  mp_meta :: 'l
  mp_spec :: m_spec
  mp_status :: sbp_status

record 'l m_policy_list =
  ml_typeMeta :: type_meta
  ml_meta :: 'l
  ml_items :: "addr option"

text \<open>What an address holds: a struct, the elements of a slice, or library data.\<close>

datatype 'l cell =
    ExprCell expression
  | StageCell m_stage
  | SpecCell m_spec
  | StatusCell sbp_status
  | PolicyCell "'l m_policy"
  | ListCell "'l m_policy_list"
  | OpaqueCells "'l list"
  | StageCells "m_stage list"
  | PolicyCells "'l m_policy list"
  | LibraryCell 'l

record 'l memory =
  cells :: "addr \<rightharpoonup> 'l cell"
  next_addr :: addr

definition mem_ok :: "'l memory \<Rightarrow> bool" where
  "mem_ok h \<longleftrightarrow> (\<forall>a \<ge> next_addr h. cells h a = None)"

definition alloc :: "'l cell \<Rightarrow> 'l memory \<Rightarrow> addr \<times> 'l memory" where
  "alloc c h = (next_addr h,
     h\<lparr>cells := (cells h)(next_addr h \<mapsto> c), next_addr := next_addr h + 1\<rparr>)"

section \<open>The generated copies\<close>

text \<open>
  \<open>for i := range *in { (*in)[i].DeepCopyInto(&(*out)[i]) }\<close>, with the element's copy as a
  function that returns the element written to \<open>out\<close>.
\<close>

fun copy_elems :: "('e \<Rightarrow> 'h \<Rightarrow> 'f \<times> 'h) \<Rightarrow> 'e list \<Rightarrow> 'h \<Rightarrow> 'f list \<times> 'h" where
  "copy_elems copy [] h = ([], h)"
| "copy_elems copy (x # xs) h =
     (case copy x h of
        (y, h1) \<Rightarrow> (case copy_elems copy xs h1 of (ys, h2) \<Rightarrow> (y # ys, h2)))"

text \<open>
  What all of them do with a pointer: nil stays nil; otherwise fresh memory is made and the
  copy of what the pointer points to is written there. \<open>unwrap\<close> tells what an address holds (a
  pointer that points to something else cannot be in Go), \<open>wrap\<close> is its inverse. The fresh
  memory appears when it has been written: nothing reads it before.
\<close>

definition copy_pointer ::
  "('x \<Rightarrow> 'l cell) \<Rightarrow> ('l cell \<Rightarrow> 'x option) \<Rightarrow> ('x \<Rightarrow> 'l memory \<Rightarrow> 'x \<times> 'l memory) \<Rightarrow>
   addr option \<Rightarrow> 'l memory \<Rightarrow> addr option \<times> 'l memory" where
  "copy_pointer wrap unwrap copy p h =
     (case p of
        None \<Rightarrow> (None, h)
      | Some a \<Rightarrow>
          (case Option.bind (cells h a) unwrap of
             Some x \<Rightarrow>
               (case copy x h of
                  (y, h1) \<Rightarrow> (case alloc (wrap y) h1 of (b, h2) \<Rightarrow> (Some b, h2)))
           | None \<Rightarrow> (None, h)))"

fun expr_cell :: "'l cell \<Rightarrow> expression option" where
  "expr_cell (ExprCell e) = Some e"
| "expr_cell _ = None"

fun stage_cell :: "'l cell \<Rightarrow> m_stage option" where
  "stage_cell (StageCell s) = Some s"
| "stage_cell _ = None"

fun spec_cell :: "'l cell \<Rightarrow> m_spec option" where
  "spec_cell (SpecCell s) = Some s"
| "spec_cell _ = None"

fun status_cell :: "'l cell \<Rightarrow> sbp_status option" where
  "status_cell (StatusCell s) = Some s"
| "status_cell _ = None"

fun policy_cell :: "'l cell \<Rightarrow> 'l m_policy option" where
  "policy_cell (PolicyCell p) = Some p"
| "policy_cell _ = None"

fun list_cell :: "'l cell \<Rightarrow> 'l m_policy_list option" where
  "list_cell (ListCell p) = Some p"
| "list_cell _ = None"

fun opaque_cells :: "'l cell \<Rightarrow> 'l list option" where
  "opaque_cells (OpaqueCells xs) = Some xs"
| "opaque_cells _ = None"

fun stage_cells :: "'l cell \<Rightarrow> m_stage list option" where
  "stage_cells (StageCells xs) = Some xs"
| "stage_cells _ = None"

fun policy_cells :: "'l cell \<Rightarrow> 'l m_policy list option" where
  "policy_cells (PolicyCells xs) = Some xs"
| "policy_cells _ = None"

text \<open>\<open>*out = new(Expression); **out = **in\<close>, and \<open>make\<close> with the loop over the elements.\<close>

definition copy_expression :: "addr option \<Rightarrow> 'l memory \<Rightarrow> addr option \<times> 'l memory" where
  "copy_expression = copy_pointer ExprCell expr_cell (\<lambda>e h. (e, h))"

definition copy_opaque_slice ::
  "('l \<Rightarrow> 'l memory \<Rightarrow> 'l \<times> 'l memory) \<Rightarrow> addr option \<Rightarrow> 'l memory \<Rightarrow>
   addr option \<times> 'l memory" where
  "copy_opaque_slice lib_copy = copy_pointer OpaqueCells opaque_cells (copy_elems lib_copy)"

definition Stage_DeepCopyInto ::
  "('l \<Rightarrow> 'l memory \<Rightarrow> 'l \<times> 'l memory) \<Rightarrow> m_stage \<Rightarrow> 'l memory \<Rightarrow> m_stage \<times> 'l memory" where
  "Stage_DeepCopyInto lib_copy inn h =
     (case copy_opaque_slice lib_copy (ms_clusterSelectors inn) h of
        (sel, h1) \<Rightarrow>
          (case copy_expression (ms_filter inn) h1 of
             (fil, h2) \<Rightarrow>
               (case copy_expression (ms_condition inn) h2 of
                  (con, h3) \<Rightarrow>
                    (inn\<lparr>ms_clusterSelectors := sel, ms_filter := fil, ms_condition := con\<rparr>, h3))))"

definition copy_stage_slice ::
  "('l \<Rightarrow> 'l memory \<Rightarrow> 'l \<times> 'l memory) \<Rightarrow> addr option \<Rightarrow> 'l memory \<Rightarrow>
   addr option \<times> 'l memory" where
  "copy_stage_slice lib_copy = copy_pointer StageCells stage_cells
     (copy_elems (Stage_DeepCopyInto lib_copy))"

definition Spec_DeepCopyInto ::
  "('l \<Rightarrow> 'l memory \<Rightarrow> 'l \<times> 'l memory) \<Rightarrow> m_spec \<Rightarrow> 'l memory \<Rightarrow> m_spec \<times> 'l memory" where
  "Spec_DeepCopyInto lib_copy inn h =
     (case copy_opaque_slice lib_copy (msp_downsync inn) h of
        (down, h1) \<Rightarrow>
          (case copy_stage_slice lib_copy (msp_stages inn) h1 of
             (stages, h2) \<Rightarrow> (inn\<lparr>msp_downsync := down, msp_stages := stages\<rparr>, h2)))"

definition Policy_DeepCopyInto ::
  "('l \<Rightarrow> 'l memory \<Rightarrow> 'l \<times> 'l memory) \<Rightarrow> 'l m_policy \<Rightarrow> 'l memory \<Rightarrow> 'l m_policy \<times> 'l memory"
  where
  "Policy_DeepCopyInto lib_copy inn h =
     (case lib_copy (mp_meta inn) h of
        (meta, h1) \<Rightarrow>
          (case Spec_DeepCopyInto lib_copy (mp_spec inn) h1 of
             (spec, h2) \<Rightarrow> (inn\<lparr>mp_meta := meta, mp_spec := spec\<rparr>, h2)))"

definition Status_DeepCopyInto :: "sbp_status \<Rightarrow> 'l memory \<Rightarrow> sbp_status \<times> 'l memory" where
  "Status_DeepCopyInto inn h = (inn, h)"

definition List_DeepCopyInto ::
  "('l \<Rightarrow> 'l memory \<Rightarrow> 'l \<times> 'l memory) \<Rightarrow> 'l m_policy_list \<Rightarrow> 'l memory \<Rightarrow>
   'l m_policy_list \<times> 'l memory" where
  "List_DeepCopyInto lib_copy inn h =
     (case lib_copy (ml_meta inn) h of
        (meta, h1) \<Rightarrow>
          (case copy_pointer PolicyCells policy_cells (copy_elems (Policy_DeepCopyInto lib_copy))
                  (ml_items inn) h1 of
             (items, h2) \<Rightarrow> (inn\<lparr>ml_meta := meta, ml_items := items\<rparr>, h2)))"

text \<open>
  The copies behind a pointer: a nil receiver gives nil, another one a new struct that
  \<open>DeepCopyInto\<close> writes. \<open>DeepCopyObject\<close> gives the same pointer as an interface value.
\<close>

definition Stage_DeepCopy ::
  "('l \<Rightarrow> 'l memory \<Rightarrow> 'l \<times> 'l memory) \<Rightarrow> addr option \<Rightarrow> 'l memory \<Rightarrow> addr option \<times> 'l memory"
  where
  "Stage_DeepCopy lib_copy = copy_pointer StageCell stage_cell (Stage_DeepCopyInto lib_copy)"

definition Policy_DeepCopy ::
  "('l \<Rightarrow> 'l memory \<Rightarrow> 'l \<times> 'l memory) \<Rightarrow> addr option \<Rightarrow> 'l memory \<Rightarrow> addr option \<times> 'l memory"
  where
  "Policy_DeepCopy lib_copy = copy_pointer PolicyCell policy_cell (Policy_DeepCopyInto lib_copy)"

definition Policy_DeepCopyObject ::
  "('l \<Rightarrow> 'l memory \<Rightarrow> 'l \<times> 'l memory) \<Rightarrow> addr option \<Rightarrow> 'l memory \<Rightarrow> addr option \<times> 'l memory"
  where
  "Policy_DeepCopyObject lib_copy p h =
     (case Policy_DeepCopy lib_copy p h of
        (Some c, h') \<Rightarrow> (Some c, h') | (None, h') \<Rightarrow> (None, h'))"

definition List_DeepCopy ::
  "('l \<Rightarrow> 'l memory \<Rightarrow> 'l \<times> 'l memory) \<Rightarrow> addr option \<Rightarrow> 'l memory \<Rightarrow> addr option \<times> 'l memory"
  where
  "List_DeepCopy lib_copy = copy_pointer ListCell list_cell (List_DeepCopyInto lib_copy)"

definition List_DeepCopyObject ::
  "('l \<Rightarrow> 'l memory \<Rightarrow> 'l \<times> 'l memory) \<Rightarrow> addr option \<Rightarrow> 'l memory \<Rightarrow> addr option \<times> 'l memory"
  where
  "List_DeepCopyObject lib_copy p h =
     (case List_DeepCopy lib_copy p h of
        (Some c, h') \<Rightarrow> (Some c, h') | (None, h') \<Rightarrow> (None, h'))"

definition Spec_DeepCopy ::
  "('l \<Rightarrow> 'l memory \<Rightarrow> 'l \<times> 'l memory) \<Rightarrow> addr option \<Rightarrow> 'l memory \<Rightarrow> addr option \<times> 'l memory"
  where
  "Spec_DeepCopy lib_copy = copy_pointer SpecCell spec_cell (Spec_DeepCopyInto lib_copy)"

definition Status_DeepCopy :: "addr option \<Rightarrow> 'l memory \<Rightarrow> addr option \<times> 'l memory" where
  "Status_DeepCopy = copy_pointer StatusCell status_cell Status_DeepCopyInto"

text \<open>
  \<open>resolver.go\<close>: \<open>sbp = sbp.DeepCopy(); sbp.Status.ActiveStage = name\<close>, between the Get and the
  UpdateStatus of \<open>updateStagedBindingPolicyStatusLocked\<close>.
\<close>

definition copy_with_status ::
  "('l \<Rightarrow> 'l memory \<Rightarrow> 'l \<times> 'l memory) \<Rightarrow> string \<Rightarrow> addr option \<Rightarrow> 'l memory \<Rightarrow>
   addr option \<times> 'l memory" where
  "copy_with_status lib_copy name sbp h =
     (case Policy_DeepCopy lib_copy sbp h of
        (Some b, h1) \<Rightarrow>
          (case Option.bind (cells h1 b) policy_cell of
             Some c \<Rightarrow>
               (Some b, h1\<lparr>cells := (cells h1)(b \<mapsto>
                  PolicyCell (c\<lparr>mp_status := (mp_status c)\<lparr>status_activeStage := name\<rparr>\<rparr>))\<rparr>)
           | None \<Rightarrow> (Some b, h1))
      | (None, h1) \<Rightarrow> (None, h1))"

section \<open>What a value means, and where it lies\<close>

text \<open>
  A copier is correct for a way to read values: \<open>reads h x v S\<close> says that in memory \<open>h\<close> the
  value \<open>x\<close> means \<open>v\<close> and lies at the addresses \<open>S\<close>. Reading depends on those addresses only;
  a copy keeps what is in memory, means the same, and lies at fresh addresses only.
\<close>

text \<open>Memories are ordered by growth: what was allocated stays as it was.\<close>

instantiation memory_ext :: (type, type) preorder
begin

definition less_eq_memory_ext :: "('a, 'b) memory_scheme \<Rightarrow> ('a, 'b) memory_scheme \<Rightarrow> bool" where
  "h \<le> h' \<longleftrightarrow> next_addr h \<le> next_addr h' \<and> (\<forall>a < next_addr h. cells h' a = cells h a)"

definition less_memory_ext :: "('a, 'b) memory_scheme \<Rightarrow> ('a, 'b) memory_scheme \<Rightarrow> bool" where
  "(h :: ('a, 'b) memory_scheme) < h' \<longleftrightarrow> h \<le> h' \<and> \<not> h' \<le> h"

instance
  by standard (auto simp: less_eq_memory_ext_def less_memory_ext_def)

end

definition grows :: "'l memory \<Rightarrow> 'l memory \<Rightarrow> bool" where
  "grows h h' \<longleftrightarrow> mem_ok h' \<and> h \<le> h'"

lemma grows_refl: "mem_ok h \<Longrightarrow> grows h h"
  by (simp add: grows_def)

lemma grows_trans: "grows h h1 \<Longrightarrow> grows h1 h2 \<Longrightarrow> grows h h2"
  by (auto simp: grows_def intro: order_trans)

lemma grows_ok: "grows h h' \<Longrightarrow> mem_ok h'"
  by (simp add: grows_def)

lemma grows_le: "grows h h' \<Longrightarrow> next_addr h \<le> next_addr h'"
  by (simp add: grows_def less_eq_memory_ext_def)

lemma grows_cells: "grows h h' \<Longrightarrow> a < next_addr h \<Longrightarrow> cells h' a = cells h a"
  by (simp add: grows_def less_eq_memory_ext_def)

lemma alloc_grows: "mem_ok h \<Longrightarrow> alloc c h = (a, h') \<Longrightarrow> grows h h' \<and> cells h' a = Some c \<and>
    a = next_addr h \<and> next_addr h' = Suc a"
  by (auto simp: alloc_def grows_def less_eq_memory_ext_def mem_ok_def)

definition agree :: "addr set \<Rightarrow> 'l memory \<Rightarrow> 'l memory \<Rightarrow> bool" where
  "agree S h h' \<longleftrightarrow> (\<forall>a\<in>S. cells h' a = cells h a)"

text \<open>Only the addresses \<open>S\<close> have been written.\<close>

definition written :: "addr set \<Rightarrow> 'l memory \<Rightarrow> 'l memory \<Rightarrow> bool" where
  "written S h h' \<longleftrightarrow> (\<forall>a. a \<notin> S \<longrightarrow> cells h' a = cells h a)"

text \<open>A pointer means what it points to, a slice the list of what its elements mean.\<close>

definition reads_pointer ::
  "('l cell \<Rightarrow> 'x option) \<Rightarrow> ('l memory \<Rightarrow> 'x \<Rightarrow> 'v \<Rightarrow> addr set \<Rightarrow> bool) \<Rightarrow>
   'l memory \<Rightarrow> addr option \<Rightarrow> 'v option \<Rightarrow> addr set \<Rightarrow> bool" where
  "reads_pointer unwrap reads h p v S \<longleftrightarrow>
     (case p of
        None \<Rightarrow> v = None \<and> S = {}
      | Some a \<Rightarrow> (\<exists>x w A. Option.bind (cells h a) unwrap = Some x \<and> reads h x w A \<and>
          v = Some w \<and> S = insert a A))"

fun reads_elems ::
  "('h \<Rightarrow> 'e \<Rightarrow> 'v \<Rightarrow> addr set \<Rightarrow> bool) \<Rightarrow> 'h \<Rightarrow> 'e list \<Rightarrow> 'v list \<Rightarrow> addr set \<Rightarrow> bool" where
  "reads_elems reads h [] vs S \<longleftrightarrow> vs = [] \<and> S = {}"
| "reads_elems reads h (x # xs) vs S \<longleftrightarrow>
     (\<exists>v vs' A B. vs = v # vs' \<and> reads h x v A \<and> reads_elems reads h xs vs' B \<and> S = A \<union> B)"

locale deep_copier =
  fixes copy :: "'a \<Rightarrow> 'l memory \<Rightarrow> 'a \<times> 'l memory"
    and reads :: "'l memory \<Rightarrow> 'a \<Rightarrow> 'v \<Rightarrow> addr set \<Rightarrow> bool"
  assumes reads_agree: "reads h x v S \<Longrightarrow> agree S h h' \<Longrightarrow> reads h' x v S"
    and reads_below: "mem_ok h \<Longrightarrow> reads h x v S \<Longrightarrow> S \<subseteq> {..<next_addr h}"
    and copy_correct: "mem_ok h \<Longrightarrow> reads h x v S \<Longrightarrow> copy x h = (y, h') \<Longrightarrow>
      grows h h' \<and> (\<exists>T. reads h' y v T \<and> T \<subseteq> {next_addr h..<next_addr h'})"
begin

lemma reads_grows:
  assumes "mem_ok h" "reads h x v S" "grows h h'"
  shows "reads h' x v S"
  using reads_agree [OF assms(2)] reads_below [OF assms(1,2)] assms(3)
  unfolding agree_def grows_def less_eq_memory_ext_def by blast

text \<open>A loop over the elements of a slice.\<close>

lemma elems_agree:
  "reads_elems reads h xs vs S \<Longrightarrow> agree S h h' \<Longrightarrow> reads_elems reads h' xs vs S"
proof (induction xs arbitrary: vs S)
  case Nil
  then show ?case by simp
next
  case (Cons x xs)
  then obtain v vs' A B where x: "vs = v # vs'" "reads h x v A" "reads_elems reads h xs vs' B"
    "S = A \<union> B" "agree A h h'" "agree B h h'" by (auto simp: agree_def)
  from reads_agree [OF x(2,5)] Cons.IH [OF x(3,6)] x(1,4) show ?case by auto
qed

lemma elems_below:
  "mem_ok h \<Longrightarrow> reads_elems reads h xs vs S \<Longrightarrow> S \<subseteq> {..<next_addr h}"
proof (induction xs arbitrary: vs S)
  case Nil
  then show ?case by simp
next
  case (Cons x xs)
  from Cons.prems(2) obtain v vs' A B where x: "reads h x v A" "reads_elems reads h xs vs' B"
    "S = A \<union> B" by auto
  from reads_below [OF Cons.prems(1) x(1)] Cons.IH [OF Cons.prems(1) x(2)] x(3)
  show ?case by blast
qed

lemma elems_correct:
  assumes "mem_ok h" "reads_elems reads h xs vs S" "copy_elems copy xs h = (ys, h')"
  shows "grows h h' \<and> (\<exists>T. reads_elems reads h' ys vs T \<and> T \<subseteq> {next_addr h..<next_addr h'})"
  using assms
proof (induction xs arbitrary: vs S h ys)
  case Nil
  then show ?case by (simp add: grows_refl)
next
  case (Cons x xs)
  from Cons.prems(2) obtain v vs' A B where x: "reads h x v A" "reads_elems reads h xs vs' B"
    and vs: "vs = v # vs'" by auto
  from Cons.prems(3) obtain y h1 ys' where c: "copy x h = (y, h1)"
    and cs: "copy_elems copy xs h1 = (ys', h')" and ys: "ys = y # ys'"
    by (auto split: prod.splits)
  from copy_correct [OF Cons.prems(1) x(1) c] obtain T where g: "grows h h1"
    and T: "reads h1 y v T" "T \<subseteq> {next_addr h..<next_addr h1}" by blast
  have "agree B h h1"
    using elems_below [OF Cons.prems(1) x(2)] g by (auto simp: agree_def grows_def less_eq_memory_ext_def)
  from Cons.IH [OF grows_ok [OF g] elems_agree [OF x(2) this] cs] obtain U
    where g': "grows h1 h'" and U: "reads_elems reads h' ys' vs' U"
      "U \<subseteq> {next_addr h1..<next_addr h'}" by blast
  have "reads_elems reads h' ys vs (T \<union> U)"
    using reads_grows [OF grows_ok [OF g] T(1) g'] U(1) ys vs by auto
  moreover have "T \<union> U \<subseteq> {next_addr h..<next_addr h'}"
    using T(2) U(2) g g' by (fastforce simp: grows_def less_eq_memory_ext_def)
  ultimately show ?case using grows_trans [OF g g'] by blast
qed

lemma elems_copier: "deep_copier (copy_elems copy) (reads_elems reads)"
  by (rule deep_copier.intro) (use elems_agree elems_below elems_correct in blast)+

text \<open>A pointer.\<close>

lemma pointer_agree:
  assumes "reads_pointer unwrap reads h p v S" "agree S h h'"
  shows "reads_pointer unwrap reads h' p v S"
proof (cases p)
  case None
  with assms show ?thesis by (simp add: reads_pointer_def)
next
  case (Some a)
  with assms(1) obtain x w A where x: "Option.bind (cells h a) unwrap = Some x"
    "reads h x w A" "v = Some w" "S = insert a A" by (auto simp: reads_pointer_def)
  with assms(2) have "reads h' x w A" "cells h' a = cells h a"
    using reads_agree by (auto simp: agree_def)
  with x Some show ?thesis by (auto simp: reads_pointer_def)
qed

lemma pointer_below:
  assumes "mem_ok h" "reads_pointer unwrap reads h p v S"
  shows "S \<subseteq> {..<next_addr h}"
proof (cases p)
  case None
  with assms show ?thesis by (simp add: reads_pointer_def)
next
  case (Some a)
  with assms(2) obtain x w A where x: "Option.bind (cells h a) unwrap = Some x"
    "reads h x w A" "S = insert a A" by (auto simp: reads_pointer_def)
  from x(1) have "cells h a \<noteq> None" by (cases "cells h a") auto
  with assms(1) have "a < next_addr h" by (metis mem_ok_def not_less)
  with x(3) reads_below [OF assms(1) x(2)] show ?thesis by simp
qed

lemma pointer_copier:
  assumes wrap: "\<And>x. unwrap (wrap x) = Some x"
  shows "deep_copier (copy_pointer wrap unwrap copy) (reads_pointer unwrap reads)"
proof
  fix h :: "'l memory" and p v S y h'
  assume ok: "mem_ok h" and r: "reads_pointer unwrap reads h p v S"
    and c: "copy_pointer wrap unwrap copy p h = (y, h')"
  show "grows h h' \<and>
      (\<exists>T. reads_pointer unwrap reads h' y v T \<and> T \<subseteq> {next_addr h..<next_addr h'})"
  proof (cases p)
    case None
    with r c ok show ?thesis by (auto simp: reads_pointer_def copy_pointer_def grows_refl)
  next
    case (Some a)
    with r obtain x w A where x: "Option.bind (cells h a) unwrap = Some x" "reads h x w A"
      "v = Some w" by (auto simp: reads_pointer_def)
    from c Some x(1) obtain z h1 b where cz: "copy x h = (z, h1)"
      and al: "alloc (wrap z) h1 = (b, h')" and y: "y = Some b"
      by (auto simp: copy_pointer_def split: prod.splits)
    from copy_correct [OF ok x(2) cz] obtain B where g: "grows h h1"
      and B: "reads h1 z w B" "B \<subseteq> {next_addr h..<next_addr h1}" by blast
    from alloc_grows [OF grows_ok [OF g] al] have a: "grows h1 h'" "cells h' b = Some (wrap z)"
      "b = next_addr h1" "next_addr h' = Suc b" by auto
    have "reads_pointer unwrap reads h' y v (insert b B)"
      using reads_grows [OF grows_ok [OF g] B(1) a(1)] a(2) wrap x(3) y
      by (auto simp: reads_pointer_def)
    moreover have "insert b B \<subseteq> {next_addr h..<next_addr h'}"
      using B(2) a(3,4) g by (fastforce simp: grows_def less_eq_memory_ext_def)
    ultimately show ?thesis using grows_trans [OF g a(1)] by blast
  qed
qed (use pointer_agree pointer_below in blast)+

text \<open>The use of a copy: what is written at its addresses does not change what the original
  means, and what is written at the addresses of the original does not change the copy.\<close>

lemma copy_shares_nothing:
  assumes "mem_ok h" "reads h x v S" "copy x h = (y, h')"
  shows "\<exists>T. reads h' x v S \<and> reads h' y v T \<and> S \<inter> T = {} \<and>
    (\<forall>h''. written T h' h'' \<longrightarrow> reads h'' x v S) \<and> (\<forall>h''. written S h' h'' \<longrightarrow> reads h'' y v T)"
proof -
  from copy_correct [OF assms] obtain T where g: "grows h h'" and T: "reads h' y v T"
    "T \<subseteq> {next_addr h..<next_addr h'}" by blast
  have x: "reads h' x v S" by (rule reads_grows [OF assms(1,2) g])
  have d: "S \<inter> T = {}" using reads_below [OF assms(1,2)] T(2) by fastforce
  then have "agree S h' h''" if "written T h' h''" for h''
    using that by (auto simp: written_def agree_def)
  moreover from d have "agree T h' h''" if "written S h' h''" for h''
    using that by (auto simp: written_def agree_def)
  ultimately show ?thesis using x T(1) d reads_agree by blast
qed

end

text \<open>An expression means itself, and so does a status.\<close>

definition reads_plain :: "'l memory \<Rightarrow> 'a \<Rightarrow> 'a \<Rightarrow> addr set \<Rightarrow> bool" where
  "reads_plain h x v S \<longleftrightarrow> v = x \<and> S = {}"

interpretation plain_copier: deep_copier "\<lambda>e h. (e, h)" reads_plain
  by unfold_locales (auto simp: reads_plain_def grows_refl)

definition reads_expression ::
  "'l memory \<Rightarrow> addr option \<Rightarrow> expression option \<Rightarrow> addr set \<Rightarrow> bool" where
  "reads_expression = reads_pointer expr_cell reads_plain"

interpretation expression_copier: deep_copier copy_expression reads_expression
  unfolding copy_expression_def reads_expression_def by (rule plain_copier.pointer_copier) simp

section \<open>Structs\<close>

text \<open>
  Two fields copied one after the other, and a struct of which \<open>get\<close> are the fields that need
  a deep copy and \<open>rest\<close> the others, which \<open>*out = *in\<close> copies.
\<close>

definition copy_both ::
  "('a \<Rightarrow> 'h \<Rightarrow> 'a \<times> 'h) \<Rightarrow> ('b \<Rightarrow> 'h \<Rightarrow> 'b \<times> 'h) \<Rightarrow> 'a \<times> 'b \<Rightarrow> 'h \<Rightarrow> ('a \<times> 'b) \<times> 'h" where
  "copy_both c d p h =
     (case c (fst p) h of (x, h1) \<Rightarrow> (case d (snd p) h1 of (y, h2) \<Rightarrow> ((x, y), h2)))"

definition reads_both ::
  "('h \<Rightarrow> 'a \<Rightarrow> 'v \<Rightarrow> addr set \<Rightarrow> bool) \<Rightarrow> ('h \<Rightarrow> 'b \<Rightarrow> 'w \<Rightarrow> addr set \<Rightarrow> bool) \<Rightarrow>
   'h \<Rightarrow> 'a \<times> 'b \<Rightarrow> 'v \<times> 'w \<Rightarrow> addr set \<Rightarrow> bool" where
  "reads_both r s h p v S \<longleftrightarrow>
     (\<exists>A B. r h (fst p) (fst v) A \<and> s h (snd p) (snd v) B \<and> S = A \<union> B)"

definition copy_struct ::
  "('s \<Rightarrow> 'a) \<Rightarrow> ('a \<Rightarrow> 's \<Rightarrow> 's) \<Rightarrow> ('a \<Rightarrow> 'h \<Rightarrow> 'a \<times> 'h) \<Rightarrow> 's \<Rightarrow> 'h \<Rightarrow> 's \<times> 'h" where
  "copy_struct get put c s h = (case c (get s) h of (x, h') \<Rightarrow> (put x s, h'))"

definition reads_struct ::
  "('s \<Rightarrow> 'a) \<Rightarrow> ('s \<Rightarrow> 'r) \<Rightarrow> ('h \<Rightarrow> 'a \<Rightarrow> 'v \<Rightarrow> addr set \<Rightarrow> bool) \<Rightarrow>
   'h \<Rightarrow> 's \<Rightarrow> 'r \<times> 'v \<Rightarrow> addr set \<Rightarrow> bool" where
  "reads_struct get rest r h s v S \<longleftrightarrow> fst v = rest s \<and> r h (get s) (snd v) S"

lemma both_intro: "r h x v A \<Longrightarrow> s h y w B \<Longrightarrow> reads_both r s h (x, y) (v, w) (A \<union> B)"
  by (auto simp: reads_both_def)

lemma both_copier:
  assumes c: "deep_copier c r" and d: "deep_copier d s"
  shows "deep_copier (copy_both c d) (reads_both r s)"
proof
  fix h :: "'b memory" and p v S h'
  assume "reads_both r s h p v S" "agree S h h'"
  then obtain A B where "r h (fst p) (fst v) A" "s h (snd p) (snd v) B" "S = A \<union> B"
    "agree A h h'" "agree B h h'" by (auto simp: reads_both_def agree_def)
  then show "reads_both r s h' p v S"
    using deep_copier.reads_agree [OF c] deep_copier.reads_agree [OF d]
    by (fastforce simp: reads_both_def)
next
  fix h :: "'b memory" and p v S
  assume "mem_ok h" "reads_both r s h p v S"
  then show "S \<subseteq> {..<next_addr h}"
    using deep_copier.reads_below [OF c] deep_copier.reads_below [OF d]
    by (fastforce simp: reads_both_def)
next
  fix h :: "'b memory" and p v S q h'
  assume ok: "mem_ok h" and r: "reads_both r s h p v S" and q: "copy_both c d p h = (q, h')"
  from r obtain A B where A: "r h (fst p) (fst v) A" and B: "s h (snd p) (snd v) B"
    by (auto simp: reads_both_def)
  from q obtain x h1 y where x: "c (fst p) h = (x, h1)" and y: "d (snd p) h1 = (y, h')"
    and xy: "q = (x, y)" by (auto simp: copy_both_def split: prod.splits)
  from deep_copier.copy_correct [OF c ok A x] obtain A' where g: "grows h h1"
    and A': "r h1 x (fst v) A'" "A' \<subseteq> {next_addr h..<next_addr h1}" by blast
  from deep_copier.copy_correct [OF d grows_ok [OF g] deep_copier.reads_grows [OF d ok B g] y]
  obtain B' where g': "grows h1 h'" and B': "s h' y (snd v) B'"
    "B' \<subseteq> {next_addr h1..<next_addr h'}" by blast
  have "r h' x (fst v) A'" by (rule deep_copier.reads_grows [OF c grows_ok [OF g] A'(1) g'])
  with B'(1) xy have "reads_both r s h' q v (A' \<union> B')" by (auto simp: reads_both_def)
  moreover have "A' \<union> B' \<subseteq> {next_addr h..<next_addr h'}"
    using A'(2) B'(2) g g' by (fastforce simp: grows_def less_eq_memory_ext_def)
  ultimately show "grows h h' \<and>
      (\<exists>T. reads_both r s h' q v T \<and> T \<subseteq> {next_addr h..<next_addr h'})"
    using grows_trans [OF g g'] by blast
qed

lemma struct_copier:
  assumes c: "deep_copier c r"
    and get: "\<And>x s. get (put x s) = x" and rest: "\<And>x s. rest (put x s) = rest s"
  shows "deep_copier (copy_struct get put c) (reads_struct get rest r)"
proof
  fix h :: "'b memory" and p v S q h'
  assume ok: "mem_ok h" and r: "reads_struct get rest r h p v S"
    and q: "copy_struct get put c p h = (q, h')"
  from q obtain x where x: "c (get p) h = (x, h')" and px: "q = put x p"
    by (auto simp: copy_struct_def split: prod.splits)
  from r have "r h (get p) (snd v) S" "fst v = rest p" by (auto simp: reads_struct_def)
  with deep_copier.copy_correct [OF c ok _ x, of "snd v" S] px get rest
  show "grows h h' \<and>
      (\<exists>T. reads_struct get rest r h' q v T \<and> T \<subseteq> {next_addr h..<next_addr h'})"
    by (simp add: reads_struct_def)
qed (auto simp: reads_struct_def intro: deep_copier.reads_agree [OF c]
    dest: deep_copier.reads_below [OF c])

section \<open>What the structs of the API mean\<close>

definition stage_fields :: "m_stage \<Rightarrow> addr option \<times> addr option \<times> addr option" where
  "stage_fields s = (ms_clusterSelectors s, ms_filter s, ms_condition s)"

definition put_stage_fields :: "addr option \<times> addr option \<times> addr option \<Rightarrow> m_stage \<Rightarrow> m_stage"
  where
  "put_stage_fields f s =
     s\<lparr>ms_clusterSelectors := fst f, ms_filter := fst (snd f), ms_condition := snd (snd f)\<rparr>"

definition reads_opaque_slice ::
  "('l memory \<Rightarrow> 'l \<Rightarrow> 'v \<Rightarrow> addr set \<Rightarrow> bool) \<Rightarrow> 'l memory \<Rightarrow> addr option \<Rightarrow>
   'v list option \<Rightarrow> addr set \<Rightarrow> bool" where
  "reads_opaque_slice R = reads_pointer opaque_cells (reads_elems R)"

definition reads_stage ::
  "('l memory \<Rightarrow> 'l \<Rightarrow> 'v \<Rightarrow> addr set \<Rightarrow> bool) \<Rightarrow> 'l memory \<Rightarrow> m_stage \<Rightarrow>
   string \<times> 'v list option \<times> expression option \<times> expression option \<Rightarrow> addr set \<Rightarrow> bool" where
  "reads_stage R = reads_struct stage_fields ms_name
     (reads_both (reads_opaque_slice R) (reads_both reads_expression reads_expression))"

lemma Stage_DeepCopyInto_struct:
  "Stage_DeepCopyInto lib_copy = copy_struct stage_fields put_stage_fields
     (copy_both (copy_opaque_slice lib_copy) (copy_both copy_expression copy_expression))"
  by (intro ext) (simp add: Stage_DeepCopyInto_def copy_struct_def copy_both_def stage_fields_def
      put_stage_fields_def split: prod.splits)

lemma opaque_slice_copier:
  "deep_copier c r \<Longrightarrow> deep_copier (copy_opaque_slice c) (reads_opaque_slice r)"
  unfolding copy_opaque_slice_def reads_opaque_slice_def
  by (rule deep_copier.pointer_copier [OF deep_copier.elems_copier]) simp_all

lemma stage_copier:
  "deep_copier lib_copy R \<Longrightarrow> deep_copier (Stage_DeepCopyInto lib_copy) (reads_stage R)"
  unfolding Stage_DeepCopyInto_struct reads_stage_def
  by (intro struct_copier both_copier opaque_slice_copier expression_copier.deep_copier_axioms)
    (simp_all add: stage_fields_def put_stage_fields_def)

definition reads_stages ::
  "('l memory \<Rightarrow> 'l \<Rightarrow> 'v \<Rightarrow> addr set \<Rightarrow> bool) \<Rightarrow> 'l memory \<Rightarrow> addr option \<Rightarrow>
   (string \<times> 'v list option \<times> expression option \<times> expression option) list option \<Rightarrow>
   addr set \<Rightarrow> bool" where
  "reads_stages R = reads_pointer stage_cells (reads_elems (reads_stage R))"

lemma stage_slice_copier:
  "deep_copier lib_copy R \<Longrightarrow> deep_copier (copy_stage_slice lib_copy) (reads_stages R)"
  unfolding copy_stage_slice_def reads_stages_def
  by (rule deep_copier.pointer_copier [OF deep_copier.elems_copier [OF stage_copier]]) simp_all

definition spec_fields :: "m_spec \<Rightarrow> addr option \<times> addr option" where
  "spec_fields s = (msp_downsync s, msp_stages s)"

definition put_spec_fields :: "addr option \<times> addr option \<Rightarrow> m_spec \<Rightarrow> m_spec" where
  "put_spec_fields f s = s\<lparr>msp_downsync := fst f, msp_stages := snd f\<rparr>"

definition reads_spec where
  "reads_spec R = reads_struct spec_fields (\<lambda>_. ())
     (reads_both (reads_opaque_slice R) (reads_stages R))"

lemma Spec_DeepCopyInto_struct:
  "Spec_DeepCopyInto lib_copy = copy_struct spec_fields put_spec_fields
     (copy_both (copy_opaque_slice lib_copy) (copy_stage_slice lib_copy))"
  by (intro ext) (simp add: Spec_DeepCopyInto_def copy_struct_def copy_both_def spec_fields_def
      put_spec_fields_def split: prod.splits)

lemma spec_copier:
  "deep_copier lib_copy R \<Longrightarrow> deep_copier (Spec_DeepCopyInto lib_copy) (reads_spec R)"
  unfolding Spec_DeepCopyInto_struct reads_spec_def
  by (intro struct_copier both_copier opaque_slice_copier stage_slice_copier)
    (simp_all add: spec_fields_def put_spec_fields_def)

definition policy_fields :: "'l m_policy \<Rightarrow> 'l \<times> m_spec" where
  "policy_fields p = (mp_meta p, mp_spec p)"

definition put_policy_fields :: "'l \<times> m_spec \<Rightarrow> 'l m_policy \<Rightarrow> 'l m_policy" where
  "put_policy_fields f p = p\<lparr>mp_meta := fst f, mp_spec := snd f\<rparr>"

definition reads_policy where
  "reads_policy R = reads_struct policy_fields (\<lambda>p. (mp_typeMeta p, mp_status p))
     (reads_both R (reads_spec R))"

lemma Policy_DeepCopyInto_struct:
  "Policy_DeepCopyInto lib_copy = copy_struct policy_fields put_policy_fields
     (copy_both lib_copy (Spec_DeepCopyInto lib_copy))"
  by (intro ext) (simp add: Policy_DeepCopyInto_def copy_struct_def copy_both_def
      policy_fields_def put_policy_fields_def split: prod.splits)

lemma policy_copier:
  "deep_copier lib_copy R \<Longrightarrow> deep_copier (Policy_DeepCopyInto lib_copy) (reads_policy R)"
  unfolding Policy_DeepCopyInto_struct reads_policy_def
  by (intro struct_copier both_copier spec_copier)
    (simp_all add: policy_fields_def put_policy_fields_def)

definition list_fields :: "'l m_policy_list \<Rightarrow> 'l \<times> addr option" where
  "list_fields l = (ml_meta l, ml_items l)"

definition put_list_fields :: "'l \<times> addr option \<Rightarrow> 'l m_policy_list \<Rightarrow> 'l m_policy_list" where
  "put_list_fields f l = l\<lparr>ml_meta := fst f, ml_items := snd f\<rparr>"

definition reads_policy_list where
  "reads_policy_list R = reads_struct list_fields ml_typeMeta
     (reads_both R (reads_pointer policy_cells (reads_elems (reads_policy R))))"

lemma List_DeepCopyInto_struct:
  "List_DeepCopyInto lib_copy = copy_struct list_fields put_list_fields
     (copy_both lib_copy
        (copy_pointer PolicyCells policy_cells (copy_elems (Policy_DeepCopyInto lib_copy))))"
  by (intro ext) (simp add: List_DeepCopyInto_def copy_struct_def copy_both_def
      list_fields_def put_list_fields_def split: prod.splits)

lemma policy_list_copier:
  assumes "deep_copier lib_copy R"
  shows "deep_copier (List_DeepCopyInto lib_copy) (reads_policy_list R)"
  unfolding List_DeepCopyInto_struct reads_policy_list_def
  by (intro struct_copier both_copier assms
      deep_copier.pointer_copier [OF deep_copier.elems_copier [OF policy_copier [OF assms]]])
    (simp_all add: list_fields_def put_list_fields_def)

section \<open>Copies behind a pointer\<close>

definition reads_policy_pointer where
  "reads_policy_pointer R = reads_pointer policy_cell (reads_policy R)"

lemma policy_pointer_copier:
  "deep_copier lib_copy R \<Longrightarrow> deep_copier (Policy_DeepCopy lib_copy) (reads_policy_pointer R)"
  unfolding Policy_DeepCopy_def reads_policy_pointer_def
  by (rule deep_copier.pointer_copier [OF policy_copier]) simp_all

lemma policy_list_pointer_copier:
  "deep_copier lib_copy R \<Longrightarrow>
   deep_copier (List_DeepCopy lib_copy) (reads_pointer list_cell (reads_policy_list R))"
  unfolding List_DeepCopy_def
  by (rule deep_copier.pointer_copier [OF policy_list_copier]) simp_all

lemma stage_pointer_copier:
  "deep_copier lib_copy R \<Longrightarrow>
   deep_copier (Stage_DeepCopy lib_copy) (reads_pointer stage_cell (reads_stage R))"
  unfolding Stage_DeepCopy_def by (rule deep_copier.pointer_copier [OF stage_copier]) simp_all

lemma spec_pointer_copier:
  "deep_copier lib_copy R \<Longrightarrow>
   deep_copier (Spec_DeepCopy lib_copy) (reads_pointer spec_cell (reads_spec R))"
  unfolding Spec_DeepCopy_def by (rule deep_copier.pointer_copier [OF spec_copier]) simp_all

interpretation status_copier: deep_copier Status_DeepCopy "reads_pointer status_cell reads_plain"
  unfolding Status_DeepCopy_def Status_DeepCopyInto_def [abs_def]
  by (rule plain_copier.pointer_copier) simp

text \<open>Behind an interface it is the same pointer, and nil is nil.\<close>

lemma DeepCopyObject_same:
  "Policy_DeepCopyObject lib_copy = Policy_DeepCopy lib_copy"
  "List_DeepCopyObject lib_copy = List_DeepCopy lib_copy"
  by (intro ext; simp add: Policy_DeepCopyObject_def List_DeepCopyObject_def
      split: prod.splits option.splits)+

lemma DeepCopy_nil: "Policy_DeepCopy lib_copy None h = (None, h)"
  by (simp add: Policy_DeepCopy_def copy_pointer_def)

section \<open>The status written to a copy\<close>

lemma pointer_decomp:
  assumes "reads_pointer unwrap reads h (Some a) v S"
  obtains x w A where "Option.bind (cells h a) unwrap = Some x" "reads h x w A"
    "v = Some w" "S = insert a A"
  using assms by (auto simp: reads_pointer_def)

lemma pointer_intro:
  "Option.bind (cells h a) unwrap = Some x \<Longrightarrow> reads h x w A \<Longrightarrow>
   reads_pointer unwrap reads h (Some a) (Some w) (insert a A)"
  by (cases "cells h a") (auto simp: reads_pointer_def)

text \<open>A struct does not lie inside itself: its copy is allocated last.\<close>

lemma Policy_DeepCopy_fresh:
  assumes lib: "deep_copier lib_copy R" and ok: "mem_ok h"
    and r: "reads_policy_pointer R h (Some a) (Some (m, w)) S"
    and c: "Policy_DeepCopy lib_copy (Some a) h = (q, h')"
  obtains b c T where "q = Some b" "b \<notin> T" "cells h' b = Some (PolicyCell c)"
    "reads_policy R h' c (m, w) T" "grows h h'" "next_addr h \<le> b" "T \<subseteq> {next_addr h..}"
proof -
  from r obtain x A where x: "Option.bind (cells h a) policy_cell = Some x"
    "reads_policy R h x (m, w) A"
    unfolding reads_policy_pointer_def by (auto elim: pointer_decomp)
  from c x(1) obtain z h1 b where cz: "Policy_DeepCopyInto lib_copy x h = (z, h1)"
    and al: "alloc (PolicyCell z) h1 = (b, h')" and q: "q = Some b"
    by (auto simp: Policy_DeepCopy_def copy_pointer_def split: prod.splits)
  note copier = policy_copier [OF lib]
  from deep_copier.copy_correct [OF copier ok x(2) cz] obtain T where g: "grows h h1"
    and T: "reads_policy R h1 z (m, w) T" "T \<subseteq> {next_addr h..<next_addr h1}" by blast
  from alloc_grows [OF grows_ok [OF g] al] have b: "grows h1 h'" "cells h' b = Some (PolicyCell z)"
    "b = next_addr h1" by auto
  show thesis
  proof (rule that [OF q _ b(2)])
    show "b \<notin> T" using T(2) b(3) by auto
    show "reads_policy R h' z (m, w) T"
      by (rule deep_copier.reads_grows [OF copier grows_ok [OF g] T(1) b(1)])
    show "grows h h'" by (rule grows_trans [OF g b(1)])
    show "next_addr h \<le> b" using b(3) g by (simp add: grows_def less_eq_memory_ext_def)
    show "T \<subseteq> {next_addr h..}" using T(2) by auto
  qed
qed

lemma reads_policy_status:
  "reads_policy R h c ((tm, st), w) T \<Longrightarrow>
   reads_policy R h (c\<lparr>mp_status := st'\<rparr>) ((tm, st'), w) T"
  by (simp add: reads_policy_def reads_struct_def policy_fields_def)

lemma copy_with_status_correct:
  assumes lib: "deep_copier lib_copy R" and ok: "mem_ok h"
    and r: "reads_policy_pointer R h (Some a) (Some ((tm, st), w)) S"
    and c: "copy_with_status lib_copy name (Some a) h = (q, h'')"
  shows "reads_policy_pointer R h'' (Some a) (Some ((tm, st), w)) S \<and>
    (\<exists>T. reads_policy_pointer R h'' q (Some ((tm, st\<lparr>status_activeStage := name\<rparr>), w)) T \<and>
      S \<inter> T = {})"
proof -
  obtain p h' where p: "Policy_DeepCopy lib_copy (Some a) h = (p, h')" by fastforce
  obtain b c T where b: "p = Some b" "b \<notin> T" "cells h' b = Some (PolicyCell c)"
    "reads_policy R h' c ((tm, st), w) T" "grows h h'" "next_addr h \<le> b" "T \<subseteq> {next_addr h..}"
    by (rule Policy_DeepCopy_fresh [OF lib ok r p])
  let ?c = "c\<lparr>mp_status := (mp_status c)\<lparr>status_activeStage := name\<rparr>\<rparr>"
  from c p b(1,3) have q: "q = Some b"
    "h'' = h'\<lparr>cells := (cells h')(b \<mapsto> PolicyCell ?c)\<rparr>"
    by (auto simp: copy_with_status_def)
  have st: "mp_status c = st"
    using b(4) by (simp add: reads_policy_def reads_struct_def)
  have "agree T h' h''" using b(2) q(2) by (auto simp: agree_def)
  from deep_copier.reads_agree [OF policy_copier [OF lib] b(4) this]
  have "reads_policy R h'' ?c ((tm, st\<lparr>status_activeStage := name\<rparr>), w) T"
    using st by (auto intro: reads_policy_status)
  with q have copy: "reads_policy_pointer R h'' q
      (Some ((tm, st\<lparr>status_activeStage := name\<rparr>), w)) (insert b T)"
    by (auto simp: reads_policy_pointer_def intro!: pointer_intro)
  have S: "S \<subseteq> {..<next_addr h}"
    by (rule deep_copier.reads_below [OF policy_pointer_copier [OF lib] ok r])
  have "agree S h h''" using S b(5,6) q(2) by (force simp: agree_def grows_def less_eq_memory_ext_def)
  moreover have "S \<inter> insert b T = {}" using S b(6,7) by fastforce
  ultimately show ?thesis
    using copy deep_copier.reads_agree [OF policy_pointer_copier [OF lib] r] by blast
qed

section \<open>A library value\<close>

text \<open>
  An element type as the library has them: a value either lies in the struct or, as the map
  \<open>matchLabels\<close> of a LabelSelector, behind a pointer. Its deep copy is a correct copier.
\<close>

datatype lib_value = Inline string | Behind addr

fun lib_value_copy :: "lib_value \<Rightarrow> lib_value memory \<Rightarrow> lib_value \<times> lib_value memory" where
  "lib_value_copy (Inline s) h = (Inline s, h)"
| "lib_value_copy (Behind a) h =
     (case cells h a of
        Some (LibraryCell l) \<Rightarrow> (case alloc (LibraryCell l) h of (b, h') \<Rightarrow> (Behind b, h'))
      | _ \<Rightarrow> (Behind a, h))"

fun reads_lib_value :: "lib_value memory \<Rightarrow> lib_value \<Rightarrow> string \<Rightarrow> addr set \<Rightarrow> bool" where
  "reads_lib_value h (Inline s) v S \<longleftrightarrow> v = s \<and> S = {}"
| "reads_lib_value h (Behind a) v S \<longleftrightarrow> cells h a = Some (LibraryCell (Inline v)) \<and> S = {a}"

interpretation lib_value_copier: deep_copier lib_value_copy reads_lib_value
proof
  show "reads_lib_value h x v S \<Longrightarrow> agree S h h' \<Longrightarrow> reads_lib_value h' x v S" for h h' x v S
    by (cases x) (auto simp: agree_def)
  show "mem_ok h \<Longrightarrow> reads_lib_value h x v S \<Longrightarrow> S \<subseteq> {..<next_addr h}" for h x v S
    by (cases x) (auto simp: mem_ok_def not_less [symmetric])
  show "grows h h' \<and> (\<exists>T. reads_lib_value h' y v T \<and> T \<subseteq> {next_addr h..<next_addr h'})"
    if "mem_ok h" "reads_lib_value h x v S" "lib_value_copy x h = (y, h')" for h h' x y v S
    using that alloc_grows [of h]
    by (cases x) (fastforce simp: grows_refl split: prod.splits)+
qed

end
