(* ===== verification/Client_Tuning.thy ===== *)
theory Client_Tuning
  imports Stager_Prelude Complex_Main
begin

text \<open>
  The two functions of \<open>controller.go\<close> that derive a client's request limits from the number of
  resource types: the burst, an \<open>int\<close>, and the queries per second, a \<open>float32\<close>. A
  \<open>float32\<close> is the rational it stands for.
\<close>

section \<open>Rounding to 24 bits\<close>

text \<open>
  A \<open>float32\<close> has a 24-bit significand: an integer of more bits is divided by the least power
  of two that leaves 24, rounded to the nearest quotient and, half way, to the even one.
  \<open>excess n\<close> is the exponent of that power.
\<close>

fun excess :: "nat \<Rightarrow> nat" where
  "excess n = (if n < 2 ^ 24 then 0 else Suc (excess (n div 2)))"

declare excess.simps [simp del]

definition round_even :: "nat \<Rightarrow> nat \<Rightarrow> nat" where
  "round_even n k =
     (let q = n div 2 ^ k; r = n mod 2 ^ k in
      if 2 * r < 2 ^ k \<or> (2 * r = 2 ^ k \<and> even q) then q else q + 1)"

definition round24 :: "nat \<Rightarrow> nat" where
  "round24 n = (if excess n = 0 then n else round_even n (excess n) * 2 ^ excess n)"

text \<open>\<open>float32(n)\<close> for an \<open>int\<close>; no 64-bit integer is too large for a \<open>float32\<close>.\<close>

definition float32_of_int :: "int \<Rightarrow> rat" where
  "float32_of_int n =
     (if n < 0 then - rat_of_nat (round24 (nat (- n))) else rat_of_nat (round24 (nat n)))"

section \<open>The limits\<close>

text \<open>\<open>rest.DefaultBurst\<close> and \<open>rest.DefaultQPS\<close> are constants of client-go.\<close>

definition referenceBurstUpperBound :: int where
  "referenceBurstUpperBound = 300"

definition referenceQPSUpperBound :: rat where
  "referenceQPSUpperBound = 50"

definition computeBurstFromNumGVRs :: "int \<Rightarrow> int \<Rightarrow> int" where
  "computeBurstFromNumGVRs DefaultBurst nGVRs =
     (let burst = nGVRs in
      if burst < DefaultBurst then DefaultBurst
      else if burst > referenceBurstUpperBound then referenceBurstUpperBound
      else burst)"

text \<open>Division by 4 changes the exponent of a \<open>float32\<close> only, so it is exact.\<close>

definition computeQPSFromNumGVRs :: "rat \<Rightarrow> int \<Rightarrow> rat" where
  "computeQPSFromNumGVRs DefaultQPS nGVRs =
     (let qps = float32_of_int nGVRs / 4 in
      if qps < DefaultQPS then DefaultQPS
      else if qps > referenceQPSUpperBound then referenceQPSUpperBound
      else qps)"

section \<open>Rounding is harmless\<close>

lemma excess_0 [simp]: "n < 2 ^ 24 \<Longrightarrow> excess n = 0"
  by (subst excess.simps) simp

lemma excess_quotient: "2 ^ 24 \<le> n \<Longrightarrow> 0 < excess n \<and> 2 ^ 23 \<le> n div 2 ^ excess n"
proof (induction n rule: excess.induct)
  case (1 n)
  have e: "excess n = Suc (excess (n div 2))" using 1(2) by (subst excess.simps) simp
  show ?case
  proof (cases "n div 2 < 2 ^ 24")
    case True
    with 1(2) e show ?thesis by simp
  next
    case False
    with 1 have "2 ^ 23 \<le> (n div 2) div 2 ^ excess (n div 2)" by simp
    with e show ?thesis by (simp add: div_mult2_eq)
  qed
qed

lemma round24_small [simp]: "n < 2 ^ 24 \<Longrightarrow> round24 n = n"
  by (simp add: round24_def)

lemma round24_large:
  assumes "2 ^ 24 \<le> n"
  shows "2 ^ 24 \<le> round24 n"
proof -
  let ?k = "excess n"
  from excess_quotient [OF assms] have k: "0 < ?k" "2 ^ 23 \<le> n div 2 ^ ?k" by auto
  have "2 ^ 23 \<le> round_even n ?k" using k(2) by (auto simp: round_even_def Let_def)
  moreover have "(2::nat) \<le> 2 ^ ?k" using k(1) self_le_power [of 2 ?k] by simp
  ultimately have "2 ^ 23 * 2 \<le> round_even n ?k * 2 ^ ?k" by (rule mult_le_mono)
  with k(1) show ?thesis by (simp add: round24_def)
qed

text \<open>The limits are as if the division were exact.\<close>

lemma float32_cases:
  obtains "float32_of_int n = of_int n" "\<bar>n\<bar> < 2 ^ 24"
  | "2 ^ 24 \<le> n" "2 ^ 24 \<le> float32_of_int n"
  | "n \<le> - (2 ^ 24)" "float32_of_int n \<le> - (2 ^ 24)"
proof -
  have large: "(2 ^ 24 :: rat) \<le> rat_of_nat (round24 m)" if "2 ^ 24 \<le> m" for m
    using round24_large [OF that] of_nat_le_iff [of "2 ^ 24" "round24 m", where 'a = rat] by simp
  consider "\<bar>n\<bar> < 2 ^ 24" | "2 ^ 24 \<le> n" | "n \<le> - (2 ^ 24)" by linarith
  then show thesis
  proof cases
    case 1
    then have "float32_of_int n = of_int n" by (simp add: float32_of_int_def)
    with 1 show ?thesis by (rule that(1) [rotated])
  next
    case 2
    then have "2 ^ 24 \<le> float32_of_int n" using large [of "nat n"] by (simp add: float32_of_int_def)
    with 2 show ?thesis by (rule that(2))
  next
    case 3
    then have "float32_of_int n \<le> - (2 ^ 24)"
      using large [of "nat (- n)"] by (simp add: float32_of_int_def)
    with 3 show ?thesis by (rule that(3))
  qed
qed

lemma computeQPS_clamps:
  assumes "0 \<le> q" "q \<le> referenceQPSUpperBound"
  shows "computeQPSFromNumGVRs q n = max q (min referenceQPSUpperBound (of_int n / 4))"
proof (cases rule: float32_cases [of n])
  case 1
  with assms show ?thesis by (auto simp: computeQPSFromNumGVRs_def Let_def)
next
  case 2
  then have "(2 ^ 24 :: rat) \<le> of_int n" using of_int_le_iff [of "2 ^ 24" n, where 'a = rat] by simp
  with 2 assms show ?thesis
    by (auto simp: computeQPSFromNumGVRs_def referenceQPSUpperBound_def Let_def)
next
  case 3
  then have "of_int n \<le> (- (2 ^ 24) :: rat)"
    using of_int_le_iff [of n "- (2 ^ 24)", where 'a = rat] by simp
  with 3 assms show ?thesis
    by (auto simp: computeQPSFromNumGVRs_def referenceQPSUpperBound_def Let_def)
qed

lemma computeBurst_clamps:
  "b \<le> referenceBurstUpperBound \<Longrightarrow>
   computeBurstFromNumGVRs b n = max b (min referenceBurstUpperBound n)"
  by (auto simp: computeBurstFromNumGVRs_def Let_def)

end
