(* ===== verification/Process_Properties.thy ===== *)
theory Process_Properties
  imports Deep_Copy Client_Tuning Startup_Order
begin

text \<open>
  Properties of the process around the resolver: how it starts and runs its workers, what its
  controller is made of, the request limits, and the copies of the API objects it works on.
\<close>

section \<open>Starting\<close>

text \<open>A library where everything succeeds; its objects are units and its world is a unit.\<close>

definition demo_cfg :: "unit config" where
  "demo_cfg = \<lparr>cfg_UserAgent = [], cfg_QPS = 0, cfg_Burst = 0, cfg_RateLimiter = None, cfg_GroupVersion = None, cfg_APIPath = [], cfg_NegotiatedSerializer = None, cfg_rest = ()\<rparr>"

definition demo_startup :: "(unit, unit, unit, unit, unit) startup_lib" where
  "demo_startup =
     \<lparr>rest = \<lparr>DefaultKubernetesUserAgent = ''stager'', HTTPClientFor = (\<lambda>_. Inr ()),
        RESTClientForConfigAndClient = (\<lambda>_ _. Inr ()),
        NewDiscoveryClientForConfigAndClient = (\<lambda>_ _. Inr ()),
        NewTokenBucketRateLimiter = (\<lambda>_ _. ()), Codecs_WithoutConversion = ()\<rparr>,
      cel_NewEnv = (\<lambda>_. Inr \<lparr>cel_Parse = (\<lambda>_. ((), None)), cel_Check = (\<lambda>_. ((), None)),
        cel_Program = (\<lambda>_. Inr ()), cel_Eval = (\<lambda>_ _. Inl (ErrorText ''none''))\<rparr>),
      LimitConfig = (\<lambda>c. c), ks_ControlV1alpha1 = (\<lambda>_. ()),
      GetIndexer = (\<lambda>_. \<lparr>idx_GetByKey = (\<lambda>n k. (NotAnObject, False, None)),
        idx_ListAll = (\<lambda>s k. ([], None))\<rparr>),
      sbp_list = (\<lambda>_ _. ()), sbp_watch = (\<lambda>_ _. ()),
      range_types = (\<lambda>m. if m sbpType = None then [] else [sbpType]),
      GetConfigOrDie = (\<lambda>w. (Some (), w)), NewManager = (\<lambda>_ _ w. (Inr (), w)),
      AddHealthzCheck = (\<lambda>_ _ w. (None, w)), AddReadyzCheck = (\<lambda>_ _ w. (None, w)),
      GetWDSKubeconfig = (\<lambda>n w. (Inr (demo_cfg, ''wds1''), w)),
      ks_NewForConfig = (\<lambda>_ w. (Inr (), w)), ks_NewSharedInformerFactory = (\<lambda>_ _ w. ((), w)),
      Bindings_Informer = (\<lambda>_ w. ((), w)), Bindings_Lister = (\<lambda>_ w. ((), w)),
      CombinedStatuses_Informer = (\<lambda>_ w. ((), w)), CombinedStatuses_Lister = (\<lambda>_ w. ((), w)),
      NewSharedIndexInformer = (\<lambda>_ _ _ _ w. ((), w)), NewRateLimitingQueue = (\<lambda>_ w. ((), w)),
      AddEventHandler = (\<lambda>_ _ w. (None, w)), ks_Start = (\<lambda>_ w. w), go_Run = (\<lambda>_ w. w),
      cache_WaitForCacheSync = (\<lambda>_ w. (True, w)), await_start = (\<lambda>_ w. (None, w)),
      mgr_Start = (\<lambda>_ w. (None, w))\<rparr>"

lemma demo_ranges: "ranges_lawful demo_startup"
  by (auto simp: ranges_lawful_def demo_startup_def dom_def)

text \<open>Beside the log or not, the controller is made and starts.\<close>

lemma demo_NewForConfig: "\<exists>sc. NewForConfig (rest demo_startup) demo_cfg = Inr sc"
  by (simp add: demo_startup_def demo_cfg_def NewForConfig_def NewForConfigAndClient_def
      community_NewForConfigAndClient_def setConfigDefaults_def Let_def)

lemma demo_NewController:
  "\<exists>c s'. NewController demo_startup demo_cfg n s = (Inr c, s')"
  "\<exists>c s'. NewController (traced demo_startup) demo_cfg n t = (Inr c, s')"
proof -
  obtain sc where sc: "NewForConfig (rest demo_startup) demo_cfg = Inr sc"
    using demo_NewForConfig by blast
  have k: "ks_NewForConfig demo_startup demo_cfg s = (Inr (), s)"
    by (simp add: demo_startup_def)
  show "\<exists>c s'. NewController demo_startup demo_cfg n s = (Inr c, s')"
    by (rule NewController_Inr [OF k sc])
  have k: "ks_NewForConfig (traced demo_startup) demo_cfg t =
      (Inr (), fst t @ [ok_call KsClientCall], snd t)"
    by (simp add: demo_startup_def traced_def logged_def)
  show "\<exists>c s'. NewController (traced demo_startup) demo_cfg n t = (Inr c, s')"
    by (rule NewController_Inr [OF k]) (use sc in simp)
qed

lemma demo_Start:
  "fst (Start_controller demo_startup D k c s) = None"
  "fst (Start_controller (traced demo_startup) D k c t) = None"
  by (simp_all add: Let_def Start_controller_def setupBindingInformer_def
      setupCombinedStatusInformer_def setupStagedBindingPolicyInformer_def newCELEvaluator_def
      traced_def logged_def demo_startup_def split: prod.split)

lemma demo_blocks: "fst (main (traced demo_startup) D fl ([], ())) = BlocksForever"
proof -
  have "fst (main_controller (traced demo_startup) D () demo_cfg n t) = BlocksForever" for n t
  proof -
    obtain c s where c: "NewController (traced demo_startup) demo_cfg n t = (Inr c, s)"
      using demo_NewController(2) by blast
    obtain err c' s' where st: "Start_controller (traced demo_startup) D workers c s = (err, c', s')"
      by (metis prod_cases3)
    then have "err = None" using demo_Start(2) [of D workers c s] by simp
    with c st show ?thesis
      by (simp add: main_controller_def traced_def logged_def demo_startup_def)
  qed
  then show ?thesis
    by (simp add: main_def traced_def logged_def demo_startup_def)
qed

text \<open>
  C24: The program starts in one order, whatever the library answers: the manager and its checks,
  the clients, the controller with its informers, the three event handlers on their informers,
  the KubeStellar informers and their sync, the policy informer and its sync, the workers, and
  only then the manager, which does leader election. The log, which says of each call whether it
  succeeded, ends with the first call that failed, and the program then exits with status 1; it
  also does so when the generated client cannot be made, after the sixth call, or the evaluator
  cannot, after the sixteenth. It ends in no other way: when everything has succeeded, which
  includes that the manager has stopped normally, \<open>main\<close> blocks for ever.
\<close>

theorem startup_in_order:
  fixes L :: "('o, 'ast, 'prog, 's, 'w) startup_lib"
  assumes "main (traced L) D fl ([], w) = (e, l, w')" and "ranges_lawful L"
  shows "\<exists>calls cfg n (c :: ('o, 'ast, 'prog) controller_struct).
    calls = map ok_call [GetConfigCall, NewManagerCall (options_of fl), HealthzCall ''healthz'',
        ReadyzCall ''readyz''] @ [(KubeconfigCall (fl_wdsName fl), GotConfig cfg n)] @
      map ok_call [KsClientCall, KsFactoryCall 0,
        BindingInformerCall, BindingListerCall, StatusInformerCall, StatusListerCall,
        PolicyInformerCall sbpType 0, QueueCall (controller_queue_config n),
        HandlerCall (ctl_bindingInformer c) (bindingHandlers D),
        HandlerCall (ctl_combinedStatusInformer c) (combinedStatusHandlers D),
        HandlerCall (ctl_sbpInformer c) (stagedBindingPolicyHandlers D), KsStartCall,
        WaitCall [ctl_bindingInformer c, ctl_combinedStatusInformer c],
        RunCall (ctl_sbpInformer c), WaitCall [ctl_sbpInformer c], AwaitCall 4,
        ManagerStartCall] \<and>
    (e = BlocksForever \<and> l = calls \<or>
     e = Exit 1 \<and> (first_failure calls l \<or>
       l = take 6 calls \<and> (\<exists>err. NewForConfig (rest L) (LimitConfig L cfg) = Inl err) \<or>
       l = take 16 calls \<and> (\<exists>err. newCELEvaluator (cel_NewEnv L) = Inl err))) \<and>
    (6 < length l \<longrightarrow> (\<exists>cs. NewForConfig (rest L) (LimitConfig L cfg) = Inr cs)) \<and>
    (16 < length l \<longrightarrow> (\<exists>ev. newCELEvaluator (cel_NewEnv L) = Inr ev))"
proof -
  obtain cfg n and c :: "('o, 'ast, 'prog) controller_struct" where
    m: "log_matches L cfg 5 (manager_calls fl cfg n @ controller_calls n D c) e l"
    using main_log [OF assms] by blast
  let ?calls = "manager_calls fl cfg n @ controller_calls n D c"
  have calls: "?calls = map ok_call [GetConfigCall, NewManagerCall (options_of fl),
        HealthzCall ''healthz'', ReadyzCall ''readyz''] @
      [(KubeconfigCall (fl_wdsName fl), GotConfig cfg n)] @
      map ok_call [KsClientCall, KsFactoryCall 0,
        BindingInformerCall, BindingListerCall, StatusInformerCall, StatusListerCall,
        PolicyInformerCall sbpType 0, QueueCall (controller_queue_config n),
        HandlerCall (ctl_bindingInformer c) (bindingHandlers D),
        HandlerCall (ctl_combinedStatusInformer c) (combinedStatusHandlers D),
        HandlerCall (ctl_sbpInformer c) (stagedBindingPolicyHandlers D), KsStartCall,
        WaitCall [ctl_bindingInformer c, ctl_combinedStatusInformer c],
        RunCall (ctl_sbpInformer c), WaitCall [ctl_sbpInformer c], AwaitCall 4,
        ManagerStartCall]"
    by (simp add: manager_calls_def controller_calls_def making_calls_def starting_calls_def
        workers_def)
  have "(5 :: nat) + 1 = 6" "(5 :: nat) + 11 = 16" by simp_all
  note parts = m [unfolded log_matches_def this]
  show ?thesis
    by (rule exI [of _ ?calls], rule exI [of _ cfg], rule exI [of _ n], rule exI [of _ c])
      (intro conjI calls parts [THEN conjunct1] parts [THEN conjunct2, THEN conjunct1]
        parts [THEN conjunct2, THEN conjunct2])
qed

theorem startup_in_order_witness:
  "\<forall>D. length (fst (snd (main (traced demo_startup) D default_flags ([], ())))) = 22"
proof
  fix D
  obtain e l w' where m: "main (traced demo_startup) D default_flags ([], ()) = (e, l, w')"
    by (metis prod_cases3)
  with demo_blocks [of D default_flags] have "e = BlocksForever" by simp
  with startup_in_order [OF m demo_ranges] m
  show "length (fst (snd (main (traced demo_startup) D default_flags ([], ())))) = 22" by auto
qed

text \<open>
  C34: The controller is wired to one policy informer: it makes one, its lister reads from that
  one, and it is the only one its factory has. A start that succeeds puts the handlers for
  policies on it and those for Bindings and combined statuses on theirs, runs it after those are
  synced and before its own sync is waited for, and gives the controller a resolver over its own
  lister, clients and evaluator; the controller keeps that informer.
\<close>

theorem policy_informer_wired:
  fixes L :: "('o, 'ast, 'prog, 's, 'w) startup_lib"
  assumes "NewController (traced L) cfg n (l, w) = (Inr c, l1, w1)" and "ranges_lawful L"
    and "Start_controller (traced L) D k c (l1, w1) = (err, c', l2, w2)"
  shows "l1 = l @ map ok_call [KsClientCall, KsFactoryCall 0, BindingInformerCall,
      BindingListerCall, StatusInformerCall, StatusListerCall, PolicyInformerCall sbpType 0,
      QueueCall (controller_queue_config n)] \<and>
    sf_informers (ctl_sbpFactory c) = [sbpType \<mapsto> ctl_sbpInformer c] \<and>
    ctl_sbpLister c = NewStagedBindingPolicyLister (GetIndexer L (ctl_sbpInformer c)) \<and>
    sf_running (ctl_sbpFactory c) = [] \<and> ctl_resolver c = None \<and>
    sf_informers (ctl_sbpFactory c') = [sbpType \<mapsto> ctl_sbpInformer c'] \<and>
    ctl_sbpInformer c' = ctl_sbpInformer c \<and> ctl_sbpLister c' = ctl_sbpLister c \<and>
    (err = None \<longrightarrow> l2 = l1 @ map ok_call
       [HandlerCall (ctl_bindingInformer c) (bindingHandlers D),
        HandlerCall (ctl_combinedStatusInformer c) (combinedStatusHandlers D),
        HandlerCall (ctl_sbpInformer c) (stagedBindingPolicyHandlers D), KsStartCall,
        WaitCall [ctl_bindingInformer c, ctl_combinedStatusInformer c],
        RunCall (ctl_sbpInformer c), WaitCall [ctl_sbpInformer c], AwaitCall k] \<and>
      sf_running (ctl_sbpFactory c') = [sbpType] \<and>
      (\<exists>ev. newCELEvaluator (cel_NewEnv L) = Inr ev \<and> ctl_resolver c' = Some
        \<lparr>rp_combinedStatusLister = ctl_combinedStatusLister c,
         rp_controlClient = ctl_controlClient c,
         rp_communityClient = ctl_communityClient c, rp_celEvaluator = ev\<rparr>))"
proof -
  note c = NewController_wired [OF assms(1)]
  have R: "ranges_lawful (traced L)" "wired L c" using c assms(2) by simp_all
  from NewController_log [OF assms(1)] have "l1 = l @ making_calls n" by simp
  moreover from Start_log [OF assms(3) R(2) assms(2)] have "err = None \<longrightarrow> l2 = l1 @ starting_calls D c k"
    by auto
  ultimately show ?thesis
    using Start_done [OF assms(3) c R(1)] R(2) NewController_resolver [OF assms(1)]
    by (simp add: wired_def making_calls_def starting_calls_def)
qed

theorem policy_informer_wired_witness:
  "\<forall>D. \<exists>c l1 l2 c'. NewController (traced demo_startup) demo_cfg ''wds1'' ([], ()) =
       (Inr c, l1, ()) \<and>
     Start_controller (traced demo_startup) D workers c (l1, ()) = (None, c', l2, ()) \<and>
     ok_call (HandlerCall (ctl_sbpInformer c) (stagedBindingPolicyHandlers D)) \<in> set l2 \<and>
     ok_call (RunCall (ctl_sbpInformer c)) \<in> set l2 \<and> ctl_resolver c' \<noteq> None"
proof
  fix D
  obtain c l1 w1 where c: "NewController (traced demo_startup) demo_cfg ''wds1'' ([], ()) =
      (Inr c, l1, w1)" using demo_NewController(2) by (metis prod.collapse)
  obtain err c' l2 w2 where s: "Start_controller (traced demo_startup) D workers c (l1, w1) =
      (err, c', l2, w2)" by (metis prod_cases4)
  then have "err = None" using demo_Start(2) [of D workers c "(l1, w1)"] by simp
  with policy_informer_wired [OF c demo_ranges s] c s
  show "\<exists>c l1 l2 c'. NewController (traced demo_startup) demo_cfg ''wds1'' ([], ()) =
       (Inr c, l1, ()) \<and>
     Start_controller (traced demo_startup) D workers c (l1, ()) = (None, c', l2, ()) \<and>
     ok_call (HandlerCall (ctl_sbpInformer c) (stagedBindingPolicyHandlers D)) \<in> set l2 \<and>
     ok_call (RunCall (ctl_sbpInformer c)) \<in> set l2 \<and> ctl_resolver c' \<noteq> None" by auto
qed

section \<open>Running\<close>

text \<open>
  C25: While the workers run, \<open>Start\<close> can only return nil: no error ever comes out of \<open>run\<close>. At
  most the asked-for number of workers is started; the queue is shut down only after all of
  them were started and the context is done, and then it can always come to that; \<open>run\<close> never
  goes back, and the queue stays shut down. With a
  context that cannot be cancelled, as the one \<open>main\<close> gives, the queue is never shut down.
\<close>

theorem run_shuts_down_on_cancel:
  assumes "(run_step cancellable n)\<^sup>*\<^sup>* run_init s"
  shows "int (rs_spawned s) \<le> max 0 n \<and> (\<forall>e. rs_started s \<noteq> Some (Some e)) \<and>
    (rs_queueShutDown s \<longrightarrow> cancellable \<and> rs_ctxDone s \<and> rs_spawned s = nat n) \<and>
    (rs_ctxDone s \<longrightarrow> (\<exists>t. (run_step cancellable n)\<^sup>*\<^sup>* s t \<and> rs_queueShutDown t)) \<and>
    (\<forall>t. (run_step cancellable n)\<^sup>*\<^sup>* s t \<longrightarrow>
      rs_pc s \<le> rs_pc t \<and> (rs_queueShutDown s \<longrightarrow> rs_queueShutDown t))"
proof -
  have inv: "run_inv cancellable n s" by (rule run_system.reachable_inv [OF refl assms])
  then have "int (rs_spawned s) \<le> max 0 n" "\<forall>e. rs_started s \<noteq> Some (Some e)"
    "rs_queueShutDown s \<longrightarrow> cancellable \<and> rs_ctxDone s \<and> rs_spawned s = nat n"
    using run_progress_spawned [of n "rs_pc s" "rs_spawned s" "rs_initialized s" "rs_queueShutDown s"]
    by (auto simp: run_inv_def)
  with cancelled_run_shuts_queue [OF inv] show ?thesis
    by (intro conjI allI impI) (simp_all add: run_steps_forward)
qed

definition demo_run :: run_state where
  "demo_run = \<lparr>rs_pc = RunReturned None, rs_spawned = 1, rs_initialized = True,
     rs_ctxDone = True, rs_queueShutDown = True, rs_errChan = [], rs_started = Some None\<rparr>"

theorem run_shuts_down_on_cancel_witness:
  "rs_spawned demo_run = 1 \<and> rs_started demo_run = Some None \<and> int (rs_spawned demo_run) \<le> max 0 1"
proof -
  let ?s1 = "run_init\<lparr>rs_pc := Spawning 1, rs_spawned := 1\<rparr>"
  let ?s2 = "?s1\<lparr>rs_pc := AwaitDone, rs_initialized := True\<rparr>"
  let ?s3 = "?s2\<lparr>rs_started := Some None\<rparr>"
  let ?s4 = "?s3\<lparr>rs_ctxDone := True\<rparr>"
  have 1: "run_step True 1 run_init ?s1"
    using run_step.spawn [of run_init 0 1 True] by (simp add: run_init_def)
  have 2: "run_step True 1 ?s1 ?s2"
    using run_step.spawned [of ?s1 1 1 True] by simp
  have 3: "run_step True 1 ?s2 ?s3" by (rule run_step.after_3s) (simp add: run_init_def)
  have 4: "run_step True 1 ?s3 ?s4" by (rule run_step.cancel) simp
  have 5: "run_step True 1 ?s4 demo_run"
    using run_step.stop [of ?s4 True 1] by (simp add: run_init_def demo_run_def)
  from 1 2 3 4 5 have "(run_step True 1)\<^sup>*\<^sup>* run_init demo_run"
    by (meson rtranclp.rtrancl_into_rtrancl r_into_rtranclp)
  from run_shuts_down_on_cancel [OF this] show ?thesis by (simp add: demo_run_def)
qed

section \<open>Request limits\<close>

text \<open>
  C40: The request limits a number of resource types gives are that number, or its quarter, cut
  off at the defaults of the library below and at the two reference bounds above, and grow
  with it; rounding to \<open>float32\<close> never shows, however large the number.
\<close>

theorem client_limits_in_range:
  assumes "0 \<le> q" "q \<le> referenceQPSUpperBound" "b \<le> referenceBurstUpperBound"
  shows "computeQPSFromNumGVRs q n = max q (min 50 (of_int n / 4)) \<and>
    computeBurstFromNumGVRs b n = max b (min 300 n) \<and>
    (m \<le> n \<longrightarrow> computeQPSFromNumGVRs q m \<le> computeQPSFromNumGVRs q n \<and>
      computeBurstFromNumGVRs b m \<le> computeBurstFromNumGVRs b n)"
proof -
  have "(of_int m / 4 :: rat) \<le> of_int n / 4" if "m \<le> n" using that by simp
  then show ?thesis
    unfolding computeQPS_clamps [OF assms(1,2)] computeBurst_clamps [OF assms(3)]
    by (auto simp: referenceQPSUpperBound_def referenceBurstUpperBound_def)
qed

theorem client_limits_in_range_witness:
  "computeQPSFromNumGVRs 5 16777217 = 50 \<and> computeQPSFromNumGVRs 5 81 = 81 / 4 \<and>
   computeBurstFromNumGVRs 10 81 = 81 \<and> computeBurstFromNumGVRs 10 3 = 10"
  using client_limits_in_range [of 5 10 16777217] client_limits_in_range [of 5 10 81]
    client_limits_in_range [of 5 10 3]
  by (simp add: referenceQPSUpperBound_def referenceBurstUpperBound_def)

section \<open>Copies\<close>

text \<open>
  C28: \<open>DeepCopy\<close> of a StagedBindingPolicy gives a policy that means the same and shares no
  memory with the original: whatever is then written to the memory of the one, the other
  still means the same. The library's types are assumed to have such copies.
\<close>

theorem policy_copy_independent:
  assumes "deep_copier lib_copy R" and "mem_ok h"
    and "reads_policy_pointer R h (Some a) (Some v) S"
    and "Policy_DeepCopy lib_copy (Some a) h = (q, h')"
  shows "\<exists>T. reads_policy_pointer R h' (Some a) (Some v) S \<and>
    reads_policy_pointer R h' q (Some v) T \<and> S \<inter> T = {} \<and>
    (\<forall>h''. written T h' h'' \<longrightarrow> reads_policy_pointer R h'' (Some a) (Some v) S) \<and>
    (\<forall>h''. written S h' h'' \<longrightarrow> reads_policy_pointer R h'' q (Some v) T)"
  by (rule deep_copier.copy_shares_nothing [OF policy_pointer_copier [OF assms(1)] assms(2-4)])

text \<open>A policy of one stage with a selector, a filter and no condition.\<close>

definition demo_m_stage :: m_stage where
  "demo_m_stage = \<lparr>ms_name = ''dev'', ms_clusterSelectors = Some 1, ms_filter = Some 2,
     ms_condition = None\<rparr>"

definition demo_m_policy :: "lib_value m_policy" where
  "demo_m_policy = \<lparr>mp_typeMeta = \<lparr>tm_kind = ''StagedBindingPolicy'', tm_apiVersion = ''v1alpha1''\<rparr>,
     mp_meta = Inline ''web'', mp_spec = \<lparr>msp_downsync = None, msp_stages = Some 3\<rparr>,
     mp_status = \<lparr>status_activeStage = ''dev''\<rparr>\<rparr>"

definition demo_memory :: "lib_value memory" where
  "demo_memory = \<lparr>cells = [0 \<mapsto> LibraryCell (Inline ''edge=true''), 1 \<mapsto> OpaqueCells [Behind 0],
     2 \<mapsto> ExprCell ''true'', 3 \<mapsto> StageCells [demo_m_stage], 4 \<mapsto> PolicyCell demo_m_policy],
     next_addr = 5\<rparr>"

lemma demo_memory_ok: "mem_ok demo_memory"
  by (auto simp: mem_ok_def demo_memory_def)

lemma demo_memory_reads:
  "reads_policy_pointer reads_lib_value demo_memory (Some 4)
     (Some ((mp_typeMeta demo_m_policy, mp_status demo_m_policy), ''web'', (), None,
        Some [(''dev'', Some [''edge=true''], Some ''true'', None)])) {4, 3, 1, 0, 2}"
proof -
  have sel: "reads_opaque_slice reads_lib_value demo_memory (Some 1) (Some [''edge=true'']) {1, 0}"
    unfolding reads_opaque_slice_def
    by (rule pointer_intro) (auto simp: demo_memory_def)
  have fil: "reads_expression demo_memory (Some 2) (Some ''true'') {2}"
    unfolding reads_expression_def
    by (rule pointer_intro) (auto simp: demo_memory_def reads_plain_def)
  have con: "reads_expression demo_memory None None {}"
    by (simp add: reads_expression_def reads_pointer_def)
  have "reads_stage reads_lib_value demo_memory demo_m_stage
      (''dev'', Some [''edge=true''], Some ''true'', None) ({1, 0} \<union> ({2} \<union> {}))"
    using both_intro [where r = "reads_opaque_slice reads_lib_value" and
        s = "reads_both reads_expression reads_expression", OF sel
        both_intro [where r = reads_expression and s = reads_expression, OF fil con]]
    by (simp add: reads_stage_def reads_struct_def stage_fields_def demo_m_stage_def)
  then have "reads_stages reads_lib_value demo_memory (Some 3)
      (Some [(''dev'', Some [''edge=true''], Some ''true'', None)]) (insert 3 ({1, 0} \<union> {2}))"
    unfolding reads_stages_def
    by (intro pointer_intro [where x = "[demo_m_stage]"]) (auto simp: demo_memory_def)
  note stages = this
  have down: "reads_opaque_slice reads_lib_value demo_memory None None {}"
    by (simp add: reads_opaque_slice_def reads_pointer_def)
  have "reads_spec reads_lib_value demo_memory (mp_spec demo_m_policy)
      ((), None, Some [(''dev'', Some [''edge=true''], Some ''true'', None)])
      ({} \<union> insert 3 ({1, 0} \<union> {2}))"
    using both_intro [where r = "reads_opaque_slice reads_lib_value" and
        s = "reads_stages reads_lib_value", OF down stages]
    by (simp add: reads_spec_def reads_struct_def spec_fields_def demo_m_policy_def)
  note spec = this
  have meta: "reads_lib_value demo_memory (mp_meta demo_m_policy) ''web'' {}"
    by (simp add: demo_m_policy_def)
  have "reads_policy reads_lib_value demo_memory demo_m_policy
      ((mp_typeMeta demo_m_policy, mp_status demo_m_policy), ''web'', (), None,
        Some [(''dev'', Some [''edge=true''], Some ''true'', None)])
      ({} \<union> ({} \<union> insert 3 ({1, 0} \<union> {2})))"
    using both_intro [where r = reads_lib_value and s = "reads_spec reads_lib_value", OF meta spec]
    by (simp add: reads_policy_def reads_struct_def policy_fields_def)
  then have "reads_policy_pointer reads_lib_value demo_memory (Some 4)
     (Some ((mp_typeMeta demo_m_policy, mp_status demo_m_policy), ''web'', (), None,
        Some [(''dev'', Some [''edge=true''], Some ''true'', None)]))
     (insert 4 ({} \<union> ({} \<union> insert 3 ({1, 0} \<union> {2}))))"
    unfolding reads_policy_pointer_def
    by (intro pointer_intro [where x = demo_m_policy]) (auto simp: demo_memory_def)
  moreover have "insert 4 ({} \<union> ({} \<union> insert 3 ({1, 0} \<union> {2}))) = {4, 3, 1, 0, 2 :: nat}"
    by auto
  ultimately show ?thesis by simp
qed

lemma demo_memory_copy:
  "\<exists>h'. Policy_DeepCopy lib_value_copy (Some 4) demo_memory = (Some 9, h') \<and> next_addr h' = 10"
  by (simp add: Policy_DeepCopy_def copy_pointer_def Policy_DeepCopyInto_def Spec_DeepCopyInto_def
      copy_opaque_slice_def copy_stage_slice_def Stage_DeepCopyInto_def copy_expression_def
      demo_memory_def demo_m_policy_def demo_m_stage_def alloc_def)

theorem policy_copy_independent_witness:
  "\<exists>h' T v. Policy_DeepCopy lib_value_copy (Some 4) demo_memory = (Some 9, h') \<and>
     reads_policy_pointer reads_lib_value h' (Some 9) (Some v) T \<and> {4, 3, 1, 0, 2} \<inter> T = {}"
proof -
  obtain h' where h: "Policy_DeepCopy lib_value_copy (Some 4) demo_memory = (Some 9, h')"
    using demo_memory_copy by blast
  from policy_copy_independent [OF lib_value_copier.deep_copier_axioms demo_memory_ok
      demo_memory_reads h]
  obtain T where T: "reads_policy_pointer reads_lib_value h' (Some 9)
      (Some ((mp_typeMeta demo_m_policy, mp_status demo_m_policy), ''web'', (), None,
        Some [(''dev'', Some [''edge=true''], Some ''true'', None)])) T"
    "{4, 3, 1, 0, 2} \<inter> T = {}" by (elim exE conjE)
  from h T show ?thesis by (intro exI conjI)
qed

end
