(* ===== verification/Spec2Isabelle.thy ===== *)
theory Spec2Isabelle
  imports Notification_Properties Filter_Properties System_Properties
    Infrastructure_Properties Process_Properties
begin

text \<open>
  A model of the KubeStellar workload stager, the controller of StagedBindingPolicies, with the
  theorems that make it correct and those that show where it is not.

  \<^bold>\<open>The program.\<close> A StagedBindingPolicy lists stages. For the active stage the controller keeps a
  BindingPolicy deployed; KubeStellar turns it into a Binding, which names the workload, and
  reports CombinedStatuses of the workload's objects. When the objects that pass the stage's
  filter all have a combined status on which the stage's condition (CEL) is true, the
  controller deletes the stage's BindingPolicy, creates the next one, and writes the
  next stage's name to the policy's status. Informers watch the three types and put
  references on a work queue; several workers take them off and call the resolver, which
  holds the state of every policy under one lock.

  \<^bold>\<open>The theories,\<close> from the bottom up:

  \<^item> \<open>Stager_Prelude\<close>: calls that return or panic, state threading, errors, the invariant rule
    (locale \<open>invariant_system\<close>), and runs whose steps carry labels, with the bound on their
    length (locale \<open>amortized_system\<close>). \<open>Go_Strings\<close>: \<open>strings.Contains\<close>, \<open>Index\<close> and \<open>Split\<close>.
  \<^item> \<open>Api_Types\<close>: \<open>api/community/v1alpha1\<close> and the fields of the KubeStellar and Kubernetes
    types the code reads or writes.
  \<^item> \<open>Cel_Evaluator\<close>: \<open>cel-evaluator.go\<close> over a CEL library that is a parameter.
    \<open>Workload_Filter\<close>: \<open>filterWorkloadForSBP\<close> of \<open>resolver.go\<close>.
  \<^item> \<open>Resolver\<close>: the rest of \<open>pkg/staged-binding-policy/resolver.go\<close>. The map of pointers is a
    partial map whose entries are updated in place; each public operation, which holds the
    lock throughout, is one function from state to outcome and state. API clients, the
    informer cache, label requirements, the unstructured converter and the order in which
    Go ranges over maps are the fields of the record \<open>clients\<close>.
  \<^item> \<open>Resolver_Frame\<close> (what each operation leaves alone), \<open>Resolver_Condition\<close> (the declarative
    reading of a fulfilled stage), \<open>Resolver_Deploy\<close> (the deployment of a stage, call by call;
    the invariant \<open>tracked_ok\<close>), \<open>Resolver_Ops\<close> (the public operations; the interface
    \<open>Resolver\<close> as the locale \<open>resolver_contract\<close>, interpreted on \<open>NewResolver\<close>).
  \<^item> \<open>Rollout\<close>, \<open>Rollout_System\<close>: the abstract rollout machine, the promises of the API server,
    the simulation of the machine by the resolver, and the safety of managed runs.
    \<open>Rollout_Liveness\<close>: its progress. \<open>Rollout_Faults\<close>: the states the error paths lead to.
  \<^item> \<open>Lister\<close>, \<open>Work_Queue\<close>, \<open>Controller\<close>: the generated lister, the work queue with
    client-go's documented laws, and \<open>controller.go\<close>, \<open>binding.go\<close>, \<open>stagedbindingpolicy.go\<close> and
    \<open>combinedstatus.go\<close>, proved for any resolver that keeps \<open>resolver_contract\<close>.
    \<open>Worker_Pool\<close>: the workers, informers and handlers as an interleaving step relation, with
    the invariant that makes the controller settle. \<open>Worker_Loop\<close>: one worker on its own:
    turns of its loop against steps, also where the loop blocks, panics or never ends. \<open>Event_Handlers\<close>: the three sets of handlers,
    interpretations of the locale \<open>event_source\<close>.
  \<^item> \<open>Event_System\<close>: caches that change object by object, first-in first-out queues of events,
    the handlers that empty them and the workers, composed; an interpretation of the locale
    \<open>simulation\<close> makes its runs runs of the pool. \<open>Event_Delivery\<close>: what becomes of one
    event. \<open>System_Rollout\<close>: the composition as the resolver sees it, a run of the resolver, so
    the safety of \<open>Rollout_System\<close> carries over. \<open>Pool_Shutdown\<close>: the workers after the queue
    has shut down, and how many steps they have left. \<open>System_Effort\<close>: how many steps the
    composed system has left at any time, and that it stops only when it has settled.
    \<open>Process_Run\<close>: all of it together with \<open>run\<close>, from the start of the workers to their end.
  \<^item> \<open>Informer_Factory\<close>, \<open>Typed_Client\<close>: the generated informer factory and clients;
    \<open>Resolver_Requests\<close>: the resolver over the generated client, with a log of what it requests
    and what is answered.
    \<open>Fake_Client\<close>: the generated test doubles, which ask for the same as the clients, and
    the registration of the API types with a scheme.
  \<^item> \<open>Deep_Copy\<close>: the generated deep copies over an explicit memory of addresses. A copier keeps
    the contract of the locale \<open>deep_copier\<close>; pointers, slices and structs preserve it.
  \<^item> \<open>Startup\<close>: \<open>main\<close>, \<open>NewController\<close>, \<open>makeController\<close> and \<open>Start\<close> as sequences of fallible
    library calls, and \<open>run\<close> beside the \<open>select\<close> of \<open>Start\<close> as a step relation.
    \<open>Startup_Order\<close>: the log of the calls and their answers, the wiring of the policy informer and the invariant
    of \<open>run\<close>. \<open>Client_Tuning\<close>: the two functions for request limits, with \<open>float32\<close> rounding.
  \<^item> \<open>Demo_Cluster\<close>, \<open>Demo_Controller\<close>, \<open>Demo_System\<close>: concrete clients, a queue, a cache and a
    run of the composed system for the witnesses, with proofs that they keep every promise the
    theorems assume.
  \<^item> \<open>Resolver_Properties\<close>, \<open>Notification_Properties\<close>, \<open>Filter_Properties\<close>,
    \<open>Controller_Properties\<close>, \<open>System_Properties\<close>, \<open>Infrastructure_Properties\<close>,
    \<open>Process_Properties\<close>: the properties, numbered C1 to C40.

  \<^bold>\<open>What is shown.\<close> A policy moves on exactly when its stage is fulfilled (C11, C15), as a step of
  the rollout machine (C2), and so in every step of the composed system (C4). In managed runs
  at most one stage is deployed, of the resolver (C1) and of the composed system (C3), and as
  long as the stages become fulfilled and the API answers, a rollout reaches its last stage
  (C10). Informers, handlers and workers together settle on the cached policies (C5), after a
  bounded number of steps of their own for each change and each retry (C6); they implement the
  pool (C7), as does the worker's loop (C23); no event is lost on its way to the resolver
  (C8, C9). Workers take each item exclusively (C19), and retry exactly the items that failed
  (C20). Each operation's outcome is given branch by branch (C16, C18, C20, C21, C36). The
  program starts its parts in one order (C24), over one policy informer (C34); the whole
  process is the composed system until the context ends, and then its workers work off the
  queue and stop (C22, C25). A deep copy shares no memory (C28). Where the code falls short of
  its intent the theorems say exactly how: C12, C13, C14, C17, C18, C24, C29, C30, C31, C33,
  C35, C36 and the lemma \<open>filter_blind_to_namespaced_group\<close>.

  \<^bold>\<open>Hypotheses.\<close> Code outside the repository is a parameter; what is assumed of it are named
  predicates that state its documented behaviour: \<open>ranges_keys\<close>, \<open>ranges_objs\<close> and
  \<open>ranges_lawful\<close> (a range visits each key once), \<open>cel_bools_native\<close>, \<open>api_lawful\<close>,
  \<open>queue_lawful\<close>, \<open>index_lawful\<close>, \<open>key_lawful\<close> (cache keys split as they were joined),
  \<open>generation_tells\<close> (the API server changes a generation with the spec), \<open>timers_lawful\<close> (every
  back-off period ends; for C6 alone), \<open>reads_named\<close> (a read answers with the policy of the name;
  for C27 alone), and \<open>deep_copier\<close> for the copies of the library's types.

  \<^bold>\<open>Termination.\<close> All functions but \<open>runWorker\<close> recurse on lists or numbers (\<open>strings_Split\<close> on
  the length of the string, \<open>excess\<close> on halves), so no fuel is used. \<open>runWorker\<close> is a partial
  function: it may block or go on for ever; C23 says exactly when it does which,
  \<open>runWorker_drains\<close> that it returns on a queue that is shut down,
  \<open>pool_drains_on_shutdown\<close> counts the steps that a shut-down pool has left, and C22 does the
  same for the process.

  \<^bold>\<open>Not modelled.\<close> Logging, contexts other than as a flag, the parsing of flags, and package
  documentation; build tools and scripts, which are no part of the running program. Outside
  \<open>Deep_Copy\<close> a copy of a policy is the policy itself, which is faithful as long as nothing is
  written through the original; C28 and \<open>copy_with_status_correct\<close> say that nothing is.
  The combined statuses of one attempt are read in one world; the lemma \<open>checkObjects_moving_eq\<close>
  says why this covers a cache that changes meanwhile: each object is asked for once, with a
  selector of its own, and how the lister answers a selector is arbitrary.
\<close>

end
